(* ===== verification/Prelude.thy ===== *)
theory Prelude
  imports Main "HOL-Library.Multiset"
begin

text \<open>
  Generic material shared by the component theories: the loops the code writes as
  \<^verbatim>\<open>for i := range xs { if P(xs[i]) { ...; return } }\<close> (update or
  remove the first element that satisfies a guard), the sum type of Go's
  \<^verbatim>\<open>(value, error)\<close> results, and the collections of simp rules the
  component proofs use.
\<close>

named_theorems loop_simps
  \<open>rewrite rules for update-first, remove-first and on-first loops\<close>

named_theorems state_frame
  \<open>frame rules: which parts of the state an operation leaves alone\<close>

section \<open>Runtime panics\<close>

text \<open>The panics of the Go runtime the modelled code can run into.\<close>

datatype panic =
    SliceBoundsOutOfRange
  | IndexOutOfRange
  | MakeNegativeLength
  | SendOnClosedChannel
  | CloseOfClosedChannel

fun on_ok :: "('a \<Rightarrow> 'e + 'b) \<Rightarrow> 'e + 'a \<Rightarrow> 'e + 'b" where
  "on_ok f (Inl p) = Inl p"
| "on_ok f (Inr x) = f x"

lemma on_ok_Inr_iff: "on_ok f r = Inr y \<longleftrightarrow> (\<exists>x. r = Inr x \<and> f x = Inr y)"
  by (cases r) auto

section \<open>First-match loops\<close>

fun update_first :: "('a \<Rightarrow> bool) \<Rightarrow> ('a \<Rightarrow> 'a) \<Rightarrow> 'a list \<Rightarrow> 'a list" where
  "update_first P f [] = []"
| "update_first P f (x # xs) = (if P x then f x # xs else x # update_first P f xs)"

fun remove_first :: "('a \<Rightarrow> bool) \<Rightarrow> 'a list \<Rightarrow> 'a list" where
  "remove_first P [] = []"
| "remove_first P (x # xs) = (if P x then xs else x # remove_first P xs)"

lemma length_update_first [simp]: "length (update_first P f xs) = length xs"
  by (induction xs) auto

lemma update_first_none [loop_simps]: "\<not> list_ex P xs \<Longrightarrow> update_first P f xs = xs"
  by (induction xs) auto

lemma remove_first_none [loop_simps]: "\<not> list_ex P xs \<Longrightarrow> remove_first P xs = xs"
  by (induction xs) auto

lemma map_update_first:
  assumes "\<And>x. P x \<Longrightarrow> g (f x) = g x"
  shows "map g (update_first P f xs) = map g xs"
  using assms by (induction xs) auto

lemma set_update_first_subset: "set (update_first P f xs) \<subseteq> set xs \<union> f ` {x \<in> set xs. P x}"
  by (induction xs) auto

lemma update_first_memD:
  assumes "y \<in> set (update_first P f xs)"
  shows "y \<in> set xs \<or> (\<exists>x \<in> set xs. P x \<and> y = f x)"
  using assms by (induction xs) (auto split: if_splits)

lemma update_first_hit: "list_ex P xs \<Longrightarrow> \<exists>x \<in> set xs. P x \<and> f x \<in> set (update_first P f xs)"
  by (induction xs) auto

lemma update_first_idem:
  assumes "\<And>x. P x \<Longrightarrow> P (f x)" and "\<And>x. P x \<Longrightarrow> f (f x) = f x"
  shows "update_first P f (update_first P f xs) = update_first P f xs"
  using assms by (induction xs) auto

lemma list_ex_update_first:
  assumes "\<And>x. P x \<Longrightarrow> Q (f x)"
  shows "list_ex P xs \<Longrightarrow> list_ex Q (update_first P f xs)"
  using assms by (induction xs) auto

lemma set_remove_first_subset: "set (remove_first P xs) \<subseteq> set xs"
  by (induction xs) auto

lemma remove_first_memI: "x \<in> set xs \<Longrightarrow> \<not> P x \<Longrightarrow> x \<in> set (remove_first P xs)"
  by (induction xs) auto

lemma remove_first_mset:
  "find P xs = Some x \<Longrightarrow> mset xs = add_mset x (mset (remove_first P xs))"
  by (induction xs) (auto split: if_splits)

lemma distinct_map_remove_first: "distinct (map g xs) \<Longrightarrow> distinct (map g (remove_first P xs))"
  by (induction xs) (auto dest: set_remove_first_subset [THEN subsetD])

lemma remove_first_append:
  "\<not> list_ex P xs \<Longrightarrow> P y \<Longrightarrow> remove_first P (xs @ y # ys) = xs @ ys"
  by (induction xs) auto

lemma set_map_remove_first_key:
  "distinct (map g xs) \<Longrightarrow> g ` set (remove_first (\<lambda>x. g x = k) xs) = g ` set xs - {k}"
proof (induction xs)
  case Nil
  then show ?case by simp
next
  case (Cons x xs)
  have "g ` set xs - {k} = g ` set xs" if "g x = k"
    using Cons.prems that by simp
  with Cons show ?case by auto
qed

lemma find_Some_memD: "find P xs = Some x \<Longrightarrow> x \<in> set xs \<and> P x"
  by (induction xs) (auto split: if_splits)

lemma find_None_list_ex: "find P xs = None \<longleftrightarrow> \<not> list_ex P xs"
  by (induction xs) auto

lemma find_append: "find P (xs @ ys) = (case find P xs of None \<Rightarrow> find P ys | Some x \<Rightarrow> Some x)"
  by (induction xs) auto

section \<open>Taking the last elements of a list\<close>

definition last_n :: "nat \<Rightarrow> 'a list \<Rightarrow> 'a list" where
  "last_n n xs = drop (length xs - n) xs"

lemma length_last_n [simp]: "length (last_n n xs) = min n (length xs)"
  by (auto simp: last_n_def)

lemma last_n_all: "length xs \<le> n \<Longrightarrow> last_n n xs = xs"
  by (simp add: last_n_def)

lemma last_n_snoc: "last_n (Suc n) (xs @ [x]) = last_n n xs @ [x]"
  by (simp add: last_n_def)

lemma last_n_last_n: "n \<le> m \<Longrightarrow> last_n n (last_n m xs) = last_n n xs"
  by (cases "m \<le> length xs") (simp_all add: last_n_def)

lemma last_n_append_long: "n \<le> length ys \<Longrightarrow> last_n n (xs @ ys) = last_n n ys"
  by (simp add: last_n_def)

section \<open>Folding state changes over a list\<close>

lemma fold_invariant_list:
  assumes "\<And>x s. x \<in> set xs \<Longrightarrow> I s \<Longrightarrow> I (f x s)" and "I s"
  shows "I (fold f xs s)"
  using assms by (induction xs arbitrary: s) auto

lemma fold_frame:
  assumes "\<And>x s. g (f x s) = g s"
  shows "g (fold f xs s) = g s"
  using assms by (induction xs arbitrary: s) auto

section \<open>Go maps with an iteration order\<close>

text \<open>
  A Go map that is later ranged over is an association list without repeated keys;
  storing a key that is present overwrites its value. The order in which
  \<^verbatim>\<open>range\<close> visits it is arbitrary: a function that permutes the list.
\<close>

fun upsert :: "'k \<Rightarrow> 'v \<Rightarrow> ('k \<times> 'v) list \<Rightarrow> ('k \<times> 'v) list" where
  "upsert k v [] = [(k, v)]"
| "upsert k v ((k', v') # m) = (if k' = k then (k, v) # m else (k', v') # upsert k v m)"

lemma map_of_upsert: "map_of (upsert k v m) = (map_of m)(k \<mapsto> v)"
  by (induction m) (auto simp: fun_eq_iff)

lemma fst_set_upsert: "fst ` set (upsert k v m) = insert k (fst ` set m)"
  by (induction k v m rule: upsert.induct) (simp_all add: insert_commute)

lemma distinct_upsert: "distinct (map fst m) \<Longrightarrow> distinct (map fst (upsert k v m))"
proof (induction k v m rule: upsert.induct)
  case (2 k v k' v' m)
  then show ?case by (cases "k' = k") (simp_all add: fst_set_upsert)
qed simp

lemma upsert_fresh: "k \<notin> fst ` set m \<Longrightarrow> upsert k v m = m @ [(k, v)]"
  by (induction k v m rule: upsert.induct) auto

definition is_order :: "('a list \<Rightarrow> 'a list) \<Rightarrow> bool" where
  "is_order it \<longleftrightarrow> (\<forall>xs. mset (it xs) = mset xs)"

lemma is_order_set: "is_order it \<Longrightarrow> set (it xs) = set xs"
  by (metis is_order_def mset_eq_setD)

lemma is_order_length: "is_order it \<Longrightarrow> length (it xs) = length xs"
  by (metis is_order_def size_mset)

lemma is_order_distinct_map: "is_order it \<Longrightarrow> distinct (map f (it xs)) = distinct (map f xs)"
  by (metis is_order_def mset_eq_imp_distinct_iff mset_map)

lemma is_order_id [simp]: "is_order (\<lambda>xs. xs)" and is_order_rev [simp]: "is_order rev"
  by (simp_all add: is_order_def)

end
