(* ===== verification/GoStrings.thy ===== *)
theory GoStrings
  imports Prelude "HOL-Library.Word"
begin

text \<open>
  The part of Go's \<^verbatim>\<open>strings\<close>, \<^verbatim>\<open>strconv\<close> and
  \<^verbatim>\<open>fmt\<close> packages the simulator uses, on byte strings
  (\<^typ>\<open>string\<close> is a list of 8-bit characters). White space and letter case are the
  ASCII ones; Go additionally treats a few multi-byte code points as white space or
  as letters, which no command, version tag or MAC address of the program contains.
\<close>

section \<open>Characters\<close>

definition crlf :: string where
  "crlf = [CHR 0x0D, CHR 0x0A]"

definition is_space :: "char \<Rightarrow> bool" where
  "is_space c \<longleftrightarrow> c = CHR '' '' \<or> c = CHR 0x09 \<or> c = CHR 0x0A \<or> c = CHR 0x0B \<or>
     c = CHR 0x0C \<or> c = CHR 0x0D"

definition char_code :: "char \<Rightarrow> nat" where
  "char_code c = of_char c"

definition is_digit :: "char \<Rightarrow> bool" where
  "is_digit c \<longleftrightarrow> 48 \<le> char_code c \<and> char_code c \<le> 57"

definition digit_val :: "char \<Rightarrow> nat" where
  "digit_val c = char_code c - 48"

definition digit_char :: "nat \<Rightarrow> char" where
  "digit_char n = char_of (48 + n)"

definition to_lower_char :: "char \<Rightarrow> char" where
  "to_lower_char c = (let n = char_code c in if 65 \<le> n \<and> n \<le> 90 then char_of (n + 32) else c)"

definition to_upper_char :: "char \<Rightarrow> char" where
  "to_upper_char c = (let n = char_code c in if 97 \<le> n \<and> n \<le> 122 then char_of (n - 32) else c)"

section \<open>Package strings\<close>

definition TrimSpace :: "string \<Rightarrow> string" where
  "TrimSpace s = rev (dropWhile is_space (rev (dropWhile is_space s)))"

fun HasPrefix :: "string \<Rightarrow> string \<Rightarrow> bool" where
  "HasPrefix s [] = True"
| "HasPrefix [] (p # ps) = False"
| "HasPrefix (x # xs) (p # ps) = (x = p \<and> HasPrefix xs ps)"

definition TrimPrefix :: "string \<Rightarrow> string \<Rightarrow> string" where
  "TrimPrefix s p = (if HasPrefix s p then drop (length p) s else s)"

fun str_index :: "string \<Rightarrow> string \<Rightarrow> nat option" where
  "str_index [] p = (if p = [] then Some 0 else None)"
| "str_index (x # xs) p =
     (if HasPrefix (x # xs) p then Some 0 else map_option Suc (str_index xs p))"

definition Contains :: "string \<Rightarrow> string \<Rightarrow> bool" where
  "Contains s p \<longleftrightarrow> str_index s p \<noteq> None"

fun splitn :: "nat \<Rightarrow> char \<Rightarrow> string \<Rightarrow> string list" where
  "splitn 0 c s = []"
| "splitn (Suc 0) c s = [s]"
| "splitn (Suc (Suc n)) c s =
     (if c \<in> set s
      then takeWhile (\<lambda>x. x \<noteq> c) s # splitn (Suc n) c (tl (dropWhile (\<lambda>x. x \<noteq> c) s))
      else [s])"

fun split_char :: "char \<Rightarrow> string \<Rightarrow> string list" where
  "split_char c [] = [[]]"
| "split_char c (x # xs) =
     (if x = c then [] # split_char c xs
      else (case split_char c xs of [] \<Rightarrow> [[x]] | y # ys \<Rightarrow> (x # y) # ys))"

function Fields :: "string \<Rightarrow> string list" where
  "Fields s =
     (let t = dropWhile is_space s
      in if t = [] then []
         else takeWhile (\<lambda>c. \<not> is_space c) t # Fields (dropWhile (\<lambda>c. \<not> is_space c) t))"
  by pat_completeness auto
termination
proof (relation "measure length", goal_cases)
  case 1
  show ?case by simp
next
  case (2 s t)
  then have "t \<noteq> []" by simp
  with 2 have "\<not> is_space (hd t)"
    using hd_dropWhile [of is_space s] by simp
  with \<open>t \<noteq> []\<close> have "length (dropWhile (\<lambda>c. \<not> is_space c) t) < length t"
    by (cases t) (auto simp: le_imp_less_Suc length_dropWhile_le)
  also have "length t \<le> length s"
    using 2 by (simp add: length_dropWhile_le)
  finally show ?case by simp
qed

declare Fields.simps [simp del]

fun str_join :: "string list \<Rightarrow> string \<Rightarrow> string" where
  "str_join [] sep = []"
| "str_join [x] sep = x"
| "str_join (x # y # ys) sep = x @ sep @ str_join (y # ys) sep"

definition ToLower :: "string \<Rightarrow> string" where
  "ToLower s = map to_lower_char s"

definition ToUpper :: "string \<Rightarrow> string" where
  "ToUpper s = map to_upper_char s"

definition ReplaceAll_nl :: "string \<Rightarrow> string" where
  \<comment> \<open>\<^verbatim>\<open>strings.ReplaceAll(s, "\n", "\r\n")\<close>\<close>
  "ReplaceAll_nl s = concat (map (\<lambda>c. if c = CHR 0x0A then crlf else [c]) s)"

section \<open>Packages strconv and fmt\<close>

fun nat_digits :: "nat \<Rightarrow> string" where
  "nat_digits n = (if n < 10 then [digit_char n] else nat_digits (n div 10) @ [digit_char (n mod 10)])"

declare nat_digits.simps [simp del]

definition itoa :: "int \<Rightarrow> string" where
  \<comment> \<open>the verb \<^verbatim>\<open>%d\<close>\<close>
  "itoa i = (if i < 0 then CHR ''-'' # nat_digits (nat (- i)) else nat_digits (nat i))"

definition pad_right :: "nat \<Rightarrow> string \<Rightarrow> string" where
  \<comment> \<open>the verb \<^verbatim>\<open>%-Ns\<close>\<close>
  "pad_right n s = s @ replicate (n - length s) (CHR '' '')"

definition pad_zero :: "nat \<Rightarrow> string \<Rightarrow> string" where
  "pad_zero n s = replicate (n - length s) (CHR ''0'') @ s"

definition fmt_04d :: "int \<Rightarrow> string" where
  \<comment> \<open>the verb \<^verbatim>\<open>%04d\<close>: the sign counts toward the width\<close>
  "fmt_04d i = (if i < 0 then CHR ''-'' # pad_zero 3 (nat_digits (nat (- i)))
     else pad_zero 4 (nat_digits (nat i)))"

definition hex_digit :: "nat \<Rightarrow> char" where
  "hex_digit n = (if n < 10 then char_of (48 + n) else char_of (87 + n))"

definition hex2 :: "8 word \<Rightarrow> string" where
  \<comment> \<open>the verb \<^verbatim>\<open>%02x\<close> on a byte\<close>
  "hex2 b = [hex_digit (unat b div 16), hex_digit (unat b mod 16)]"

definition dec_value :: "string \<Rightarrow> nat" where
  "dec_value s = foldl (\<lambda>n c. 10 * n + digit_val c) 0 s"

definition Atoi :: "string \<Rightarrow> int option" where
  \<comment> \<open>\<^verbatim>\<open>strconv.Atoi\<close> with a 64-bit \<^verbatim>\<open>int\<close>; None is its error (syntax or range)\<close>
  "Atoi s =
     (case s of
        [] \<Rightarrow> None
      | c # cs \<Rightarrow>
          (let neg = (c = CHR ''-'');
               ds = (if c = CHR ''-'' \<or> c = CHR ''+'' then cs else s)
           in if ds = [] \<or> \<not> list_all is_digit ds then None
              else (let n = int (dec_value ds)
                    in if neg then (if n \<le> 2 ^ 63 then Some (- n) else None)
                       else (if n < 2 ^ 63 then Some n else None))))"

definition wrap64 :: "int \<Rightarrow> int" where
  \<comment> \<open>the value of an \<^verbatim>\<open>int64\<close> expression: two's complement wrap-around\<close>
  "wrap64 i = (i + 2 ^ 63) mod 2 ^ 64 - 2 ^ 63"

section \<open>Lemmas\<close>

lemma char_code_lt_256: "char_code c < 256"
  by (simp add: char_code_def)

lemma char_code_digit_char [simp]: "n < 208 \<Longrightarrow> char_code (digit_char n) = 48 + n"
  by (simp add: char_code_def digit_char_def)

lemma is_digit_digit_char [simp]: "n < 10 \<Longrightarrow> is_digit (digit_char n)"
  by (simp add: is_digit_def)

lemma digit_val_digit_char [simp]: "n < 10 \<Longrightarrow> digit_val (digit_char n) = n"
  by (simp add: digit_val_def)

lemma is_digit_simps [simp]:
  "\<not> is_digit (CHR ''.'')" "\<not> is_digit (CHR ''-'')" "\<not> is_digit (CHR ''+'')"
  "\<not> is_digit (CHR ''v'')" "\<not> is_digit (CHR ''V'')" "\<not> is_digit (CHR '' '')"
  "\<not> is_digit (CHR '':'')" "\<not> is_digit (CHR ''/'')"
  by (simp_all add: is_digit_def char_code_def)

lemma is_digit_not_space: "is_digit c \<Longrightarrow> \<not> is_space c"
  by (auto simp: is_digit_def is_space_def char_code_def)

lemma nat_digits_nonempty [simp]: "nat_digits n \<noteq> []"
  by (subst nat_digits.simps) simp

lemma nat_digits_all_digits: "list_all is_digit (nat_digits n)"
proof (induction n rule: nat_digits.induct)
  case (1 n)
  then show ?case by (subst nat_digits.simps) auto
qed

lemma dec_value_snoc: "dec_value (s @ [c]) = 10 * dec_value s + digit_val c"
  by (simp add: dec_value_def)

lemma dec_value_nat_digits [simp]: "dec_value (nat_digits n) = n"
proof (induction n rule: nat_digits.induct)
  case (1 n)
  show ?case
  proof (cases "n < 10")
    case True
    then show ?thesis by (subst nat_digits.simps) (simp add: dec_value_def)
  next
    case False
    with 1 show ?thesis by (subst nat_digits.simps) (simp add: dec_value_snoc)
  qed
qed

lemma nat_digits_inj: "nat_digits m = nat_digits n \<longleftrightarrow> m = n"
  by (metis dec_value_nat_digits)

lemma hd_digit_not_sign:
  "list_all is_digit ds \<Longrightarrow> ds = c # cs \<Longrightarrow> c \<noteq> CHR ''-'' \<and> c \<noteq> CHR ''+''"
  by auto

lemma Atoi_digits:
  assumes "list_all is_digit ds" and "ds \<noteq> []"
  shows "Atoi ds = (if int (dec_value ds) < 2 ^ 63 then Some (int (dec_value ds)) else None)"
  using assms by (cases ds) (auto simp: Atoi_def Let_def)

lemma Atoi_itoa:
  assumes "- (2 ^ 63) \<le> i" and "i < 2 ^ 63"
  shows "Atoi (itoa i) = Some i"
proof (cases "i < 0")
  case True
  with assms show ?thesis
    by (simp add: itoa_def Atoi_def nat_digits_all_digits)
next
  case False
  with assms show ?thesis
    by (simp add: itoa_def Atoi_digits nat_digits_all_digits)
qed

lemma wrap64_id: "- (2 ^ 63) \<le> i \<Longrightarrow> i < 2 ^ 63 \<Longrightarrow> wrap64 i = i"
  by (simp add: wrap64_def)

lemma wrap64_range: "- (2 ^ 63) \<le> wrap64 i \<and> wrap64 i < 2 ^ 63"
proof -
  have "0 \<le> (i + 2 ^ 63) mod 2 ^ 64" and "(i + 2 ^ 63) mod 2 ^ 64 < 2 ^ 64"
    by (simp_all add: pos_mod_bound)
  then show ?thesis by (simp add: wrap64_def)
qed

lemma HasPrefix_iff: "HasPrefix s p \<longleftrightarrow> (\<exists>t. s = p @ t)"
  by (induction s p rule: HasPrefix.induct) auto

lemma HasPrefix_append [simp]: "HasPrefix (p @ t) p"
  by (auto simp: HasPrefix_iff)

lemma TrimPrefix_append [simp]: "TrimPrefix (p @ t) p = t"
  by (simp add: TrimPrefix_def)

lemma dropWhile_is_space_id: "s = [] \<or> \<not> is_space (hd s) \<Longrightarrow> dropWhile is_space s = s"
  by (cases s) auto

lemma TrimSpace_id:
  assumes "s = [] \<or> (\<not> is_space (hd s) \<and> \<not> is_space (last s))"
  shows "TrimSpace s = s"
  using assms by (auto simp: TrimSpace_def dropWhile_is_space_id hd_rev)

lemma TrimSpace_no_space: "list_all (\<lambda>c. \<not> is_space c) s \<Longrightarrow> TrimSpace s = s"
  by (rule TrimSpace_id) (auto simp: list_all_iff)

lemma Fields_no_space: "x \<in> set (Fields s) \<Longrightarrow> x \<noteq> [] \<and> (\<forall>c \<in> set x. \<not> is_space c)"
proof (induction s rule: Fields.induct)
  case (1 s)
  let ?t = "dropWhile is_space s"
  show ?case
  proof (cases "?t = []")
    case True
    with 1 show ?thesis by (simp add: Fields.simps [of s])
  next
    case False
    have h: "\<not> is_space (hd ?t)" using False by (rule hd_dropWhile)
    have w: "takeWhile (\<lambda>c. \<not> is_space c) ?t \<noteq> []"
      using False h by (cases ?t) auto
    from False have "Fields s =
        takeWhile (\<lambda>c. \<not> is_space c) ?t # Fields (dropWhile (\<lambda>c. \<not> is_space c) ?t)"
      by (subst Fields.simps) (simp add: Let_def del: dropWhile_eq_Nil_conv)
    with "1.prems"
    have "x = takeWhile (\<lambda>c. \<not> is_space c) ?t \<or> x \<in> set (Fields (dropWhile (\<lambda>c. \<not> is_space c) ?t))"
      by simp
    then show ?thesis
    proof
      assume "x = takeWhile (\<lambda>c. \<not> is_space c) ?t"
      with w show ?thesis by (metis set_takeWhileD)
    next
      assume "x \<in> set (Fields (dropWhile (\<lambda>c. \<not> is_space c) ?t))"
      then show ?thesis by (rule "1.IH" [OF refl False])
    qed
  qed
qed

lemma length_pad_right: "length (pad_right n s) = max n (length s)"
  by (simp add: pad_right_def)

lemma length_hex2 [simp]: "length (hex2 b) = 2"
  by (simp add: hex2_def)

lemma splitn_length: "length (splitn n c s) \<le> n"
  by (induction n c s rule: splitn.induct) auto

lemma split_char_no: "c \<notin> set xs \<Longrightarrow> split_char c xs = [xs]"
  by (induction xs) auto

lemma split_char_append: "c \<notin> set xs \<Longrightarrow> split_char c (xs @ c # ys) = xs # split_char c ys"
  by (induction xs) auto

lemma nat_digits_char: "c \<in> set (nat_digits n) \<Longrightarrow> is_digit c"
  using nat_digits_all_digits [of n] by (auto simp: list_all_iff)

lemma dot_nat_digits [simp]: "CHR ''.'' \<notin> set (nat_digits n)"
  using nat_digits_char [of "CHR ''.''" n] by auto

lemma digit_char_eq_0: "n < 10 \<Longrightarrow> digit_char n = CHR ''0'' \<longleftrightarrow> n = 0"
proof
  assume "n < 10" "digit_char n = CHR ''0''"
  then have "char_code (digit_char n) = 48" by (simp add: char_code_def)
  with \<open>n < 10\<close> show "n = 0" by simp
next
  assume "n = 0"
  then show "digit_char n = CHR ''0''" by (simp add: digit_char_def) code_simp
qed

lemma hd_nat_digits: "n > 0 \<Longrightarrow> hd (nat_digits n) \<noteq> CHR ''0''"
proof (induction n rule: nat_digits.induct)
  case (1 n)
  then show ?case
    by (subst nat_digits.simps) (auto simp: digit_char_eq_0 hd_append)
qed

lemma length_nat_digits_1: "n < 10 \<Longrightarrow> length (nat_digits n) = 1"
  by (subst nat_digits.simps) simp

lemma Fields_space: "is_space c \<Longrightarrow> Fields (c # s) = Fields s"
  by (subst (1 2) Fields.simps) simp

lemma Fields_Nil [simp]: "Fields [] = []"
  by (subst Fields.simps) simp

lemma Fields_word:
  assumes "w \<noteq> []" and "\<forall>c \<in> set w. \<not> is_space c"
  shows "Fields w = [w]" and "is_space c \<Longrightarrow> Fields (w @ c # s) = w # Fields (c # s)"
proof -
  obtain x xs where w: "w = x # xs" "\<not> is_space x" using assms by (cases w) auto
  have tw: "takeWhile (\<lambda>c. \<not> is_space c) w = w" "dropWhile (\<lambda>c. \<not> is_space c) w = []"
    using assms(2) by (simp_all add: takeWhile_eq_all_conv)
  show "Fields w = [w]"
  proof -
    have "dropWhile is_space w = w" using w by simp
    with assms(1) show ?thesis by (subst Fields.simps) (simp add: Let_def tw)
  qed
  assume c: "is_space c"
  have t: "takeWhile (\<lambda>c. \<not> is_space c) (w @ c # s) = w" "dropWhile (\<lambda>c. \<not> is_space c) (w @ c # s) = c # s"
    using assms(2) c by (simp_all add: takeWhile_append2 dropWhile_append2)
  have d: "dropWhile is_space (w @ c # s) = w @ c # s" using w by simp
  show "Fields (w @ c # s) = w # Fields (c # s)"
    using assms(1) by (subst Fields.simps) (simp add: Let_def d t)
qed

end
