(* ===== verification/Device.thy ===== *)
theory Device
  imports GoStrings
begin

text \<open>
  \<^verbatim>\<open>internal/device/device.go\<close>: the data model (controller, access point,
  wireless client), the site's default access point, and the rendering of the
  running-config. The template engine is an argument of \<open>InitConfig\<close>: the text of
  a configuration template comes from a file.
\<close>

unbundle bit_operations_syntax

section \<open>Data model\<close>

record client =
  c_MAC :: string
  c_IPv4 :: string
  c_IPv6 :: "string list"
  c_Username :: string
  c_Hostname :: string
  c_SSID :: string
  c_BSSID :: string
  c_WLANId :: int
  c_Channel :: int
  c_RadioType :: string
  c_SecurityMode :: string
  c_EncryptionType :: string
  c_AuthKeyMgmt :: string
  c_RSSI :: int
  c_SNR :: int
  c_Speed :: int
  c_BytesRx :: int
  c_BytesTx :: int
  c_PktsRx :: int
  c_PktsTx :: int
  c_DataRetries :: int
  c_DeviceType :: string
  c_DeviceOS :: string
  c_VLAN :: int
  c_VLANName :: string
  c_State :: string
  c_PolicyProfile :: string
  c_WLANProfile :: string
  c_AssocTime :: string
  c_SpatialStreams :: int

record ap =
  ap_Name :: string
  ap_MAC :: string
  ap_Model :: string
  ap_SSIDs :: "string list"
  ap_Clients :: "client list"
  ap_Default :: bool

record device =
  d_Hostname :: string
  d_IP :: string
  d_HTTPSPort :: int
  d_SSHPort :: int
  d_SNMPPort :: int
  d_TFTPPort :: int
  d_Model :: string
  d_Serial :: string
  d_Version :: string
  d_APs :: "ap list"
  d_StartTime :: int
  d_cachedConfig :: string

definition empty_client :: client where
  "empty_client = \<lparr>c_MAC = [], c_IPv4 = [], c_IPv6 = [], c_Username = [], c_Hostname = [], c_SSID = [],
     c_BSSID = [], c_WLANId = 0, c_Channel = 0, c_RadioType = [], c_SecurityMode = [],
     c_EncryptionType = [], c_AuthKeyMgmt = [], c_RSSI = 0, c_SNR = 0, c_Speed = 0, c_BytesRx = 0,
     c_BytesTx = 0, c_PktsRx = 0, c_PktsTx = 0, c_DataRetries = 0, c_DeviceType = [], c_DeviceOS = [],
     c_VLAN = 0, c_VLANName = [], c_State = [], c_PolicyProfile = [], c_WLANProfile = [],
     c_AssocTime = [], c_SpatialStreams = 0\<rparr>"

definition empty_ap :: ap where
  "empty_ap = \<lparr>ap_Name = [], ap_MAC = [], ap_Model = [], ap_SSIDs = [], ap_Clients = [], ap_Default = False\<rparr>"

definition empty_device :: device where
  "empty_device = \<lparr>d_Hostname = [], d_IP = [], d_HTTPSPort = 0, d_SSHPort = 0, d_SNMPPort = 0,
     d_TFTPPort = 0, d_Model = [], d_Serial = [], d_Version = [], d_APs = [], d_StartTime = 0,
     d_cachedConfig = []\<rparr>"

section \<open>The default access point\<close>

definition defaultAPModel :: string where
  "defaultAPModel = ''C9120AXI-B''"

definition fnv32a :: "string \<Rightarrow> 32 word" where
  \<comment> \<open>\<^verbatim>\<open>hash/fnv.New32a\<close>: exclusive-or with the byte, then multiply, modulo 2 to the 32\<close>
  "fnv32a s = foldl (\<lambda>h c. (h XOR word_of_nat (char_code c)) * 16777619) 2166136261 s"

definition defaultAPMAC :: "string \<Rightarrow> string" where
  "defaultAPMAC hostname =
     (let sum = fnv32a hostname
      in ''00:3a:7d:'' @ hex2 (ucast (drop_bit 16 sum)) @ '':'' @
         hex2 (ucast (drop_bit 8 sum)) @ '':'' @ hex2 (ucast sum))"

definition fillDefaultAP :: "string \<Rightarrow> ap \<Rightarrow> ap" where
  "fillDefaultAP hostname a =
     (let a1 = a\<lparr>ap_Name := hostname\<rparr>;
          a2 = (if ap_MAC a1 = [] then a1\<lparr>ap_MAC := defaultAPMAC hostname\<rparr> else a1)
      in if ap_Model a2 = [] then a2\<lparr>ap_Model := defaultAPModel\<rparr> else a2)"

definition EnsureDefaultAP :: "device \<Rightarrow> device" where
  "EnsureDefaultAP d =
     (let host = d_Hostname d; aps = d_APs d
      in if host = [] then d
         else if list_ex ap_Default aps
         then d\<lparr>d_APs := update_first ap_Default (fillDefaultAP host) aps\<rparr>
         else if list_ex (\<lambda>a. ap_Name a = host) aps
         then d\<lparr>d_APs := update_first (\<lambda>a. ap_Name a = host)
                  (\<lambda>a. fillDefaultAP host (a\<lparr>ap_Default := True\<rparr>)) aps\<rparr>
         else d\<lparr>d_APs := fillDefaultAP host (empty_ap\<lparr>ap_Default := True\<rparr>) # aps\<rparr>)"

definition has_default_ap :: "device \<Rightarrow> bool" where
  "has_default_ap d \<longleftrightarrow> list_ex (\<lambda>a. ap_Default a \<and> ap_Name a = d_Hostname d) (d_APs d)"

definition n_default :: "device \<Rightarrow> nat" where
  "n_default d = length (filter ap_Default (d_APs d))"

lemma fillDefaultAP_simps [simp]:
  "ap_Name (fillDefaultAP h a) = h"
  "ap_Default (fillDefaultAP h a) = ap_Default a"
  "ap_Clients (fillDefaultAP h a) = ap_Clients a"
  "ap_SSIDs (fillDefaultAP h a) = ap_SSIDs a"
  by (simp_all add: fillDefaultAP_def Let_def)

lemma defaultAPMAC_nonempty [simp]: "defaultAPMAC h \<noteq> []"
  by (simp add: defaultAPMAC_def Let_def)

lemma fillDefaultAP_idem [simp]: "fillDefaultAP h (fillDefaultAP h a) = fillDefaultAP h a"
  by (simp add: fillDefaultAP_def Let_def defaultAPModel_def)

lemma EnsureDefaultAP_fields [state_frame]:
  "d_Hostname (EnsureDefaultAP d) = d_Hostname d"
  "d_IP (EnsureDefaultAP d) = d_IP d"
  "d_HTTPSPort (EnsureDefaultAP d) = d_HTTPSPort d"
  "d_SSHPort (EnsureDefaultAP d) = d_SSHPort d"
  "d_SNMPPort (EnsureDefaultAP d) = d_SNMPPort d"
  "d_TFTPPort (EnsureDefaultAP d) = d_TFTPPort d"
  "d_Model (EnsureDefaultAP d) = d_Model d"
  "d_Serial (EnsureDefaultAP d) = d_Serial d"
  "d_Version (EnsureDefaultAP d) = d_Version d"
  by (simp_all add: EnsureDefaultAP_def Let_def)

lemma has_default_ap_Ensure: "d_Hostname d \<noteq> [] \<Longrightarrow> has_default_ap (EnsureDefaultAP d)"
  by (auto simp: EnsureDefaultAP_def has_default_ap_def Let_def list_ex_update_first)

lemma update_first_adopted:
  assumes "\<not> list_ex ap_Default xs" and "list_ex (\<lambda>a. ap_Name a = h) xs"
  shows "update_first ap_Default (fillDefaultAP h)
      (update_first (\<lambda>a. ap_Name a = h) (\<lambda>a. fillDefaultAP h (a\<lparr>ap_Default := True\<rparr>)) xs)
    = update_first (\<lambda>a. ap_Name a = h) (\<lambda>a. fillDefaultAP h (a\<lparr>ap_Default := True\<rparr>)) xs"
  using assms by (induction xs) auto

lemma EnsureDefaultAP_idem: "EnsureDefaultAP (EnsureDefaultAP d) = EnsureDefaultAP d"
proof (cases "d_Hostname d = []")
  case True
  then show ?thesis by (simp add: EnsureDefaultAP_def)
next
  case False
  let ?h = "d_Hostname d" and ?aps = "d_APs d"
  consider (marked) "list_ex ap_Default ?aps"
    | (named) "\<not> list_ex ap_Default ?aps" "list_ex (\<lambda>a. ap_Name a = ?h) ?aps"
    | (none) "\<not> list_ex ap_Default ?aps" "\<not> list_ex (\<lambda>a. ap_Name a = ?h) ?aps" by blast
  then show ?thesis
  proof cases
    case marked
    have "list_ex ap_Default (update_first ap_Default (fillDefaultAP ?h) ?aps)"
      using marked by (rule list_ex_update_first [rotated]) simp
    moreover have "update_first ap_Default (fillDefaultAP ?h) (update_first ap_Default (fillDefaultAP ?h) ?aps)
      = update_first ap_Default (fillDefaultAP ?h) ?aps"
      by (rule update_first_idem) simp_all
    ultimately show ?thesis
      using False marked by (simp add: EnsureDefaultAP_def Let_def)
  next
    case named
    let ?f = "\<lambda>a. fillDefaultAP ?h (a\<lparr>ap_Default := True\<rparr>)"
    let ?aps' = "update_first (\<lambda>a. ap_Name a = ?h) ?f ?aps"
    have ex: "list_ex ap_Default ?aps'"
      using named(2) by (rule list_ex_update_first [rotated]) simp
    have "update_first ap_Default (fillDefaultAP ?h) ?aps' = ?aps'"
      using named by (rule update_first_adopted)
    with ex named False show ?thesis
      by (simp add: EnsureDefaultAP_def Let_def)
  next
    case none
    with False show ?thesis by (simp add: EnsureDefaultAP_def Let_def)
  qed
qed

lemma filter_length_update_first_same:
  assumes "\<And>x. P x \<Longrightarrow> Q (f x) = Q x"
  shows "length (filter Q (update_first P f xs)) = length (filter Q xs)"
  using assms by (induction xs) auto

text \<open>
  \<^verbatim>\<open>EnsureDefaultAP\<close> on a named site: afterwards the site has a marked
  access point whose name is the host name; running it again changes nothing; and it adds
  a mark only when there is none, so a site with at most one marked access point ends up
  with exactly one, while one loaded with several keeps them all (the comment promises
  exactly one).
\<close>

theorem EnsureDefaultAP_spec:
  assumes "d_Hostname d \<noteq> []"
  shows "has_default_ap (EnsureDefaultAP d) \<and>
    EnsureDefaultAP (EnsureDefaultAP d) = EnsureDefaultAP d \<and>
    n_default (EnsureDefaultAP d) = max 1 (n_default d)"
proof -
  have "n_default (EnsureDefaultAP d) = max 1 (n_default d)"
  proof (cases "list_ex ap_Default (d_APs d)")
    case True
    then have "0 < n_default d"
      by (auto simp: n_default_def list_ex_iff filter_empty_conv)
    moreover have "n_default (EnsureDefaultAP d) = n_default d"
      using True assms by (simp add: EnsureDefaultAP_def Let_def n_default_def filter_length_update_first_same)
    ultimately show ?thesis by simp
  next
    case False
    then have 0: "filter ap_Default (d_APs d) = []"
      by (auto simp: list_ex_iff filter_empty_conv)
    have "length (filter ap_Default (update_first (\<lambda>a. ap_Name a = h)
        (\<lambda>a. fillDefaultAP h (a\<lparr>ap_Default := True\<rparr>)) xs)) = 1"
      if "list_ex (\<lambda>a. ap_Name a = h) xs" and "filter ap_Default xs = []" for h xs
      using that by (induction xs) (auto split: if_splits)
    with False 0 assms show ?thesis
      by (auto simp: EnsureDefaultAP_def Let_def n_default_def)
  qed
  then show ?thesis
    using assms has_default_ap_Ensure EnsureDefaultAP_idem by simp
qed

theorem EnsureDefaultAP_spec_witness:
  "n_default (EnsureDefaultAP (empty_device\<lparr>d_Hostname := ''WLC''\<rparr>)) = 1"
  using EnsureDefaultAP_spec [of "empty_device\<lparr>d_Hostname := ''WLC''\<rparr>"]
  by (simp add: n_default_def empty_device_def)

section \<open>Clients of a device\<close>

record client_with_ap =
  cwa_Client :: client
  cwa_AP :: ap

definition AllClients :: "device \<Rightarrow> client_with_ap list" where
  "AllClients d =
     concat (map (\<lambda>a. map (\<lambda>c. \<lparr>cwa_Client = c, cwa_AP = a\<rparr>) (ap_Clients a)) (d_APs d))"

lemma length_AllClients: "length (AllClients d) = sum_list (map (\<lambda>a. length (ap_Clients a)) (d_APs d))"
  by (simp add: AllClients_def length_concat o_def)

lemma set_AllClients:
  "set (AllClients d) = {\<lparr>cwa_Client = c, cwa_AP = a\<rparr> | c a. a \<in> set (d_APs d) \<and> c \<in> set (ap_Clients a)}"
  by (auto simp: AllClients_def)

section \<open>Rendering the running-config\<close>

record vlan_entry =
  v_ID :: int
  v_Name :: string

record wlan_entry =
  w_SSID :: string
  w_ID :: int
  w_AKM :: string

record template_data =
  t_Hostname :: string
  t_IP :: string
  t_Version :: string
  t_Serial :: string
  t_SerialHash :: string
  t_VLANs :: "vlan_entry list"
  t_WLANs :: "wlan_entry list"
  t_APs :: "ap list"

datatype render_result = ParseError string | ExecError string | Rendered string

record render_env =
  engine :: "string \<Rightarrow> template_data \<Rightarrow> render_result"
  iter_vlans :: "(int \<times> string) list \<Rightarrow> (int \<times> string) list"
  iter_ssids :: "(string \<times> string) list \<Rightarrow> (string \<times> string) list"

definition unlines :: "string list \<Rightarrow> string" where
  "unlines ls = concat (map (\<lambda>l. l @ [CHR 0x0A]) ls)"

definition defaultConfigTemplate :: string where
  "defaultConfigTemplate = unlines [
    ''!'',
    ''! Last configuration change at 12:30:45 UTC Mon Mar 15 2024'',
    ''! NVRAM config last updated at 12:30:50 UTC Mon Mar 15 2024'',
    ''!'',
    ''version {{.Version}}'',
    ''service timestamps debug datetime msec localtime show-timezone'',
    ''service timestamps log datetime msec localtime show-timezone'',
    ''service password-encryption'',
    ''platform qfp utilization monitor load 80'',
    ''!'',
    ''hostname {{.Hostname}}'',
    ''!'',
    ''boot-start-marker'',
    ''boot system flash bootflash:packages.conf'',
    ''boot-end-marker'',
    ''!'',
    ''logging buffered 16384 informational'',
    ''enable secret 9 $9$nGSHsEuW4k$z5kFVGO/S0LJxmUoRKFnEfLflk0v3Q4aCXwklRKLqjA'',
    ''!'',
    ''aaa new-model'',
    ''aaa authentication login default local'',
    ''aaa authentication login CONSOLE local'',
    ''aaa authorization console'',
    ''aaa authorization exec default local'',
    ''!'',
    ''ip domain name wlc.local'',
    ''ip name-server 8.8.8.8'',
    ''!'',
    ''username admin privilege 15 secret 9 $9$nGSHsEuW4k$z5kFVGO/S0LJxmUoRKFnEfLflk0v3Q4aCXwklRKLqjA'',
    ''!'',
    ''redundancy'',
    '' mode sso'',
    ''!'',
    ''{{range .VLANs}}vlan {{.ID}}'',
    '' name {{.Name}}'',
    ''!'',
    ''{{end}}interface GigabitEthernet1'',
    '' ip address {{.IP}} 255.255.255.0'',
    '' negotiation auto'',
    '' no shutdown'',
    ''!'',
    ''interface Loopback0'',
    '' ip address {{.IP}} 255.255.255.255'',
    ''!'',
    ''{{range .WLANs}}wlan {{.SSID}} {{.ID}} {{.SSID}}'',
    '' security wpa wpa2'',
    '' security wpa akm {{.AKM}}'',
    '' no shutdown'',
    ''!'',
    ''{{end}}wireless aaa policy default-aaa-policy'',
    ''wireless profile policy default-policy-profile'',
    '' vlan default'',
    '' no shutdown'',
    ''!'',
    ''wireless country US'',
    ''!'',
    ''restconf'',
    ''!'',
    ''ip http server'',
    ''ip http secure-server'',
    ''ip http authentication local'',
    ''!'',
    ''ip ssh version 2'',
    ''ip scp server enable'',
    ''!'',
    ''snmp-server community public RO'',
    ''snmp-server location {{.Hostname}}'',
    ''snmp-server contact admin@'' @ ''{{.Hostname}}.local'',
    ''snmp-server chassis-id {{.Serial}}'',
    ''!'',
    ''line con 0'',
    '' stopbits 1'',
    ''line vty 0 15'',
    '' privilege level 15'',
    '' transport input ssh'',
    ''!'',
    ''end'']"

definition collect_vlan :: "client \<Rightarrow> (int \<times> string) list \<Rightarrow> (int \<times> string) list" where
  "collect_vlan c m =
     (if c_VLAN c > 0
      then upsert (c_VLAN c)
             (if c_VLANName c = [] then ''VLAN'' @ fmt_04d (c_VLAN c) else c_VLANName c) m
      else m)"

definition collect_ssid :: "client \<Rightarrow> (string \<times> string) list \<Rightarrow> (string \<times> string) list" where
  "collect_ssid c m =
     (if c_SSID c \<noteq> []
      then upsert (c_SSID c) (if c_AuthKeyMgmt c = [] then ''dot1x'' else c_AuthKeyMgmt c) m
      else m)"

definition device_clients :: "device \<Rightarrow> client list" where
  "device_clients d = concat (map ap_Clients (d_APs d))"

definition vlan_list :: "render_env \<Rightarrow> device \<Rightarrow> vlan_entry list" where
  "vlan_list env d =
     map (\<lambda>(i, n). \<lparr>v_ID = i, v_Name = n\<rparr>) (iter_vlans env (fold collect_vlan (device_clients d) []))"

fun number_wlans :: "int \<Rightarrow> (string \<times> string) list \<Rightarrow> wlan_entry list" where
  "number_wlans i [] = []"
| "number_wlans i ((ssid, akm) # m) = \<lparr>w_SSID = ssid, w_ID = i, w_AKM = akm\<rparr> # number_wlans (i + 1) m"

definition wlan_list :: "render_env \<Rightarrow> device \<Rightarrow> wlan_entry list" where
  "wlan_list env d =
     number_wlans 1 (iter_ssids env (fold collect_ssid (device_clients d) []))"

definition template_data_of :: "render_env \<Rightarrow> device \<Rightarrow> template_data" where
  "template_data_of env d =
     \<lparr>t_Hostname = d_Hostname d, t_IP = d_IP d, t_Version = d_Version d, t_Serial = d_Serial d,
      t_SerialHash = itoa (uint (fnv32a (d_Serial d))), t_VLANs = vlan_list env d,
      t_WLANs = wlan_list env d, t_APs = d_APs d\<rparr>"

definition InitConfig :: "render_env \<Rightarrow> string \<Rightarrow> device \<Rightarrow> device" where
  "InitConfig env tmplText d =
     (let text = (if tmplText = [] then defaultConfigTemplate else tmplText)
      in d\<lparr>d_cachedConfig :=
             (case engine env text (template_data_of env d) of
                ParseError e \<Rightarrow> ''! template error: '' @ e @ [CHR 0x0A]
              | ExecError e \<Rightarrow> ''! template exec error: '' @ e @ [CHR 0x0A]
              | Rendered s \<Rightarrow> s)\<rparr>)"

definition RunningConfig :: "render_env \<Rightarrow> device \<Rightarrow> string \<times> device" where
  "RunningConfig env d =
     (let d1 = (if d_cachedConfig d = [] then InitConfig env [] d else d)
      in (d_cachedConfig d1, d1))"

definition StartupConfig :: "render_env \<Rightarrow> device \<Rightarrow> string \<times> device" where
  "StartupConfig env d = RunningConfig env d"

lemma InitConfig_fields [simp]:
  "d_Hostname (InitConfig env t d) = d_Hostname d"
  "d_IP (InitConfig env t d) = d_IP d"
  "d_HTTPSPort (InitConfig env t d) = d_HTTPSPort d"
  "d_SSHPort (InitConfig env t d) = d_SSHPort d"
  "d_SNMPPort (InitConfig env t d) = d_SNMPPort d"
  "d_TFTPPort (InitConfig env t d) = d_TFTPPort d"
  "d_Model (InitConfig env t d) = d_Model d"
  "d_Serial (InitConfig env t d) = d_Serial d"
  "d_Version (InitConfig env t d) = d_Version d"
  "d_APs (InitConfig env t d) = d_APs d"
  "d_StartTime (InitConfig env t d) = d_StartTime d"
  by (simp_all add: InitConfig_def Let_def)

lemma has_default_ap_InitConfig [simp]: "has_default_ap (InitConfig env t d) = has_default_ap d"
  by (simp add: has_default_ap_def)

lemma fst_fold_collect_vlan:
  "fst ` set (fold collect_vlan cs m) = fst ` set m \<union> {c_VLAN c | c. c \<in> set cs \<and> c_VLAN c > 0}"
  by (induction cs arbitrary: m) (auto simp: collect_vlan_def fst_set_upsert)

lemma distinct_fold_collect_vlan:
  "distinct (map fst m) \<Longrightarrow> distinct (map fst (fold collect_vlan cs m))"
  by (induction cs arbitrary: m) (auto simp: collect_vlan_def distinct_upsert)

lemma fst_fold_collect_ssid:
  "fst ` set (fold collect_ssid cs m) = fst ` set m \<union> {c_SSID c | c. c \<in> set cs \<and> c_SSID c \<noteq> []}"
  by (induction cs arbitrary: m) (auto simp: collect_ssid_def fst_set_upsert)

lemma distinct_fold_collect_ssid:
  "distinct (map fst m) \<Longrightarrow> distinct (map fst (fold collect_ssid cs m))"
  by (induction cs arbitrary: m) (auto simp: collect_ssid_def distinct_upsert)

lemma map_SSID_number_wlans: "map w_SSID (number_wlans i m) = map fst m"
  by (induction i m rule: number_wlans.induct) auto

lemma map_ID_number_wlans: "map w_ID (number_wlans i m) = map (\<lambda>k. i + int k) [0..<length m]"
proof (induction i m rule: number_wlans.induct)
  case (2 i ssid akm m)
  have "[0..<length ((ssid, akm) # m)] = 0 # map Suc [0..<length m]"
    by (simp add: upt_conv_Cons map_Suc_upt del: upt_Suc)
  with 2 show ?case by (simp add: algebra_simps o_def del: upt_Suc)
qed simp

text \<open>
  What the running-config lists, for every iteration order of the Go maps: one VLAN
  block for each positive VLAN id some client carries and no other, one WLAN block for
  each non-empty SSID some client carries and no other, and the WLAN ids of the blocks
  are 1, 2, ... in the order of the blocks.
\<close>

theorem template_data_lists:
  assumes "is_order (iter_vlans env)" and "is_order (iter_ssids env)"
  shows "distinct (map v_ID (vlan_list env d)) \<and>
    v_ID ` set (vlan_list env d) = {c_VLAN c | c. c \<in> set (device_clients d) \<and> c_VLAN c > 0} \<and>
    distinct (map w_SSID (wlan_list env d)) \<and>
    w_SSID ` set (wlan_list env d) = {c_SSID c | c. c \<in> set (device_clients d) \<and> c_SSID c \<noteq> []} \<and>
    map w_ID (wlan_list env d) = map (\<lambda>k. 1 + int k) [0..<length (wlan_list env d)]"
proof -
  let ?v = "fold collect_vlan (device_clients d) []" and ?w = "fold collect_ssid (device_clients d) []"
  have v: "map v_ID (vlan_list env d) = map fst (iter_vlans env ?v)"
    by (simp add: vlan_list_def o_def case_prod_unfold)
  have w: "map w_SSID (wlan_list env d) = map fst (iter_ssids env ?w)"
    by (simp add: wlan_list_def map_SSID_number_wlans)
  have "distinct (map fst (iter_vlans env ?v))" "distinct (map fst (iter_ssids env ?w))"
    using assms distinct_fold_collect_vlan [of "[]"] distinct_fold_collect_ssid [of "[]"]
    by (simp_all add: is_order_distinct_map)
  moreover have "v_ID ` set (vlan_list env d) = fst ` set ?v"
    using arg_cong [OF v, of set] assms(1) by (simp add: is_order_set)
  moreover have "w_SSID ` set (wlan_list env d) = fst ` set ?w"
    using arg_cong [OF w, of set] assms(2) by (simp add: is_order_set)
  moreover have "map w_ID (wlan_list env d) = map (\<lambda>k. 1 + int k) [0..<length (wlan_list env d)]"
    using arg_cong [OF w, of length] by (simp add: wlan_list_def map_ID_number_wlans)
  ultimately show ?thesis
    by (simp add: v w fst_fold_collect_vlan fst_fold_collect_ssid)
qed

definition plain_env :: render_env where
  \<comment> \<open>a concrete engine and iteration order for the examples\<close>
  "plain_env = \<lparr>engine = (\<lambda>text d. Rendered (text @ t_Hostname d @ t_IP d)),
     iter_vlans = (\<lambda>m. m), iter_ssids = rev\<rparr>"

theorem template_data_lists_witness:
  "map w_ID (wlan_list plain_env (empty_device\<lparr>d_APs := [empty_ap\<lparr>ap_Clients :=
     [empty_client\<lparr>c_SSID := ''corp''\<rparr>, empty_client\<lparr>c_SSID := ''guest''\<rparr>]\<rparr>]\<rparr>)) = [1, 2]"
  (is "map w_ID (wlan_list _ ?d) = _")
proof -
  have "length (wlan_list plain_env ?d) = 2"
    by (simp add: wlan_list_def plain_env_def device_clients_def collect_ssid_def empty_client_def)
  moreover have "is_order (iter_vlans plain_env)" "is_order (iter_ssids plain_env)"
    by (simp_all add: plain_env_def)
  ultimately show ?thesis
    using template_data_lists [of plain_env ?d] by (simp add: upt_rec)
qed

end
