(* ===== verification/FileSystem.thy ===== *)
theory FileSystem
  imports GoStrings
begin

text \<open>
  The file operations of package \<^verbatim>\<open>os\<close> the program uses, on a map from paths
  to contents. Every call consults a fault script, so that the theorems about the callers
  quantify over all the ways their calls can fail: refused, failed half-way through a
  write (the file is left truncated), or the process dying before, during or right after
  the call. Directories, modes and concurrent writers of the same file are not part of
  the state.
\<close>

section \<open>State\<close>

datatype fault =
    Refuse            \<comment> \<open>the call returns an error and has no effect\<close>
  | Partial nat       \<comment> \<open>a write stores that many bytes, then returns an error\<close>
  | CrashBefore       \<comment> \<open>the process dies before the call has an effect\<close>
  | CrashDuring nat   \<comment> \<open>a write stores that many bytes, a rename takes effect, then the process dies\<close>

datatype fs_error = IOFault | NotExist

record fs =
  files :: "string \<Rightarrow> string option"
  fault_at :: "nat \<Rightarrow> fault option"
  op_no :: nat
  crashed :: bool

definition next_fault :: "fs \<Rightarrow> fault option" where
  "next_fault s = (if crashed s then Some CrashBefore else fault_at s (op_no s))"

definition tick :: "fs \<Rightarrow> fs" where
  "tick s = s\<lparr>op_no := Suc (op_no s)\<rparr>"

section \<open>Operations\<close>

definition WriteFile :: "string \<Rightarrow> string \<Rightarrow> fs \<Rightarrow> fs_error option \<times> fs" where
  "WriteFile p d s =
     (case next_fault s of
        None \<Rightarrow> (None, (tick s)\<lparr>files := (files s)(p \<mapsto> d)\<rparr>)
      | Some Refuse \<Rightarrow> (Some IOFault, tick s)
      | Some (Partial k) \<Rightarrow> (Some IOFault, (tick s)\<lparr>files := (files s)(p \<mapsto> take k d)\<rparr>)
      | Some CrashBefore \<Rightarrow> (Some IOFault, (tick s)\<lparr>crashed := True\<rparr>)
      | Some (CrashDuring k) \<Rightarrow>
          (Some IOFault, (tick s)\<lparr>files := (files s)(p \<mapsto> take k d), crashed := True\<rparr>))"

definition Rename :: "string \<Rightarrow> string \<Rightarrow> fs \<Rightarrow> fs_error option \<times> fs" where
  "Rename a b s =
     (case files s a of
        None \<Rightarrow> (Some (if next_fault s = None then NotExist else IOFault),
                 if next_fault s = Some CrashBefore then (tick s)\<lparr>crashed := True\<rparr> else tick s)
      | Some d \<Rightarrow>
          (let moved = (if a = b then files s else (files s)(b \<mapsto> d, a := None))
           in case next_fault s of
                None \<Rightarrow> (None, (tick s)\<lparr>files := moved\<rparr>)
              | Some CrashBefore \<Rightarrow> (Some IOFault, (tick s)\<lparr>crashed := True\<rparr>)
              | Some (CrashDuring k) \<Rightarrow> (Some IOFault, (tick s)\<lparr>files := moved, crashed := True\<rparr>)
              | Some _ \<Rightarrow> (Some IOFault, tick s)))"

definition Remove :: "string \<Rightarrow> fs \<Rightarrow> fs_error option \<times> fs" where
  "Remove p s =
     (case next_fault s of
        None \<Rightarrow> (if files s p = None then (Some NotExist, tick s)
                 else (None, (tick s)\<lparr>files := (files s)(p := None)\<rparr>))
      | Some CrashBefore \<Rightarrow> (Some IOFault, (tick s)\<lparr>crashed := True\<rparr>)
      | Some (CrashDuring k) \<Rightarrow>
          (Some IOFault, (tick s)\<lparr>files := (files s)(p := None), crashed := True\<rparr>)
      | Some _ \<Rightarrow> (Some IOFault, tick s))"

definition MkdirAll :: "fs \<Rightarrow> fs_error option \<times> fs" where
  \<comment> \<open>directories carry no state here; the call can still fail\<close>
  "MkdirAll s =
     (case next_fault s of
        None \<Rightarrow> (None, tick s)
      | Some CrashBefore \<Rightarrow> (Some IOFault, (tick s)\<lparr>crashed := True\<rparr>)
      | Some (CrashDuring k) \<Rightarrow> (Some IOFault, (tick s)\<lparr>crashed := True\<rparr>)
      | Some _ \<Rightarrow> (Some IOFault, tick s))"

definition ReadFile :: "string \<Rightarrow> fs \<Rightarrow> fs_error + string" where
  "ReadFile p s = (case files s p of None \<Rightarrow> Inl NotExist | Some d \<Rightarrow> Inr d)"

definition no_faults :: "fs \<Rightarrow> bool" where
  "no_faults s \<longleftrightarrow> fault_at s = (\<lambda>_. None) \<and> \<not> crashed s"

definition empty_fs :: fs where
  "empty_fs = \<lparr>files = Map.empty, fault_at = (\<lambda>_. None), op_no = 0, crashed = False\<rparr>"

section \<open>The contract of a store with atomic replacement\<close>

text \<open>
  What the writers of the program (the state file, the update result, the helper
  configuration) need from the file system: a write touches one path only, a rename
  either moves the whole content or changes nothing, and a call that reports success has
  taken effect.
\<close>

locale replace_store =
  fixes put :: "'p \<Rightarrow> 'd \<Rightarrow> 's \<Rightarrow> 'e option \<times> 's"
    and rename :: "'p \<Rightarrow> 'p \<Rightarrow> 's \<Rightarrow> 'e option \<times> 's"
    and content :: "'s \<Rightarrow> 'p \<Rightarrow> 'd option"
  assumes put_frame: "put p d s = (e, s') \<Longrightarrow> q \<noteq> p \<Longrightarrow> content s' q = content s q"
    and put_success: "put p d s = (None, s') \<Longrightarrow> content s' p = Some d"
    and rename_frame: "rename a b s = (e, s') \<Longrightarrow> q \<noteq> a \<Longrightarrow> q \<noteq> b \<Longrightarrow> content s' q = content s q"
    and rename_all_or_nothing: "rename a b s = (e, s') \<Longrightarrow> a \<noteq> b \<Longrightarrow>
      (content s' a = content s a \<and> content s' b = content s b) \<or>
      (content s a \<noteq> None \<and> content s' b = content s a \<and> content s' a = None)"
    and rename_success: "rename a b s = (None, s') \<Longrightarrow> a \<noteq> b \<Longrightarrow>
      content s a \<noteq> None \<and> content s' b = content s a \<and> content s' a = None"
begin

lemma replace_path:
  assumes "put tmp d s = (None, s1)" and "rename tmp path s1 = (e, s2)" and "tmp \<noteq> path"
  shows "content s2 path = content s path \<or> content s2 path = Some d"
  using rename_all_or_nothing [OF assms(2,3)] put_success [OF assms(1)]
    put_frame [OF assms(1), of path] assms(3) by auto

lemma replace_success:
  assumes "put tmp d s = (None, s1)" and "rename tmp path s1 = (None, s2)" and "tmp \<noteq> path"
  shows "content s2 path = Some d"
  using rename_success [OF assms(2,3)] put_success [OF assms(1)] by simp

lemma replace_frame:
  assumes "put tmp d s = (e, s1)" and "rename tmp path s1 = (e', s2)" and "q \<noteq> tmp" and "q \<noteq> path"
  shows "content s2 q = content s q"
  using rename_frame [OF assms(2)] put_frame [OF assms(1)] assms(3,4) by simp

lemma rename_target:
  assumes "rename a b s = (e, s')" and "a \<noteq> b"
  shows "content s' b = content s b \<or> content s' b = content s a"
  using rename_all_or_nothing [OF assms] by blast

end

lemma files_tick [simp]: "files (tick s) = files s"
  by (simp add: tick_def)

interpretation osfs: replace_store WriteFile Rename files
proof (unfold_locales, goal_cases)
  case (1 p d s e s' q)
  then show ?case by (auto simp: WriteFile_def split: option.splits fault.splits)
next
  case (2 p d s s')
  then show ?case by (auto simp: WriteFile_def split: option.splits fault.splits)
next
  case (3 a b s e s' q)
  then show ?case by (auto simp: Rename_def Let_def split: option.splits fault.splits if_splits)
next
  case (4 a b s e s')
  then show ?case by (auto simp: Rename_def Let_def split: option.splits fault.splits if_splits)
next
  case (5 a b s s')
  then show ?case by (auto simp: Rename_def Let_def split: option.splits fault.splits if_splits)
qed

section \<open>Frame and success lemmas\<close>

lemma Remove_frame [state_frame]: "q \<noteq> p \<Longrightarrow> files (snd (Remove p s)) q = files s q"
  by (auto simp: Remove_def split: option.splits fault.splits)

lemma Remove_target: "files (snd (Remove p s)) p = files s p \<or> files (snd (Remove p s)) p = None"
  by (auto simp: Remove_def split: option.splits fault.splits)

lemma Remove_success: "Remove p s = (None, s') \<Longrightarrow> files s' p = None"
  by (auto simp: Remove_def split: option.splits fault.splits if_splits)

lemma MkdirAll_frame [state_frame]: "files (snd (MkdirAll s)) = files s"
  by (auto simp: MkdirAll_def split: option.splits fault.splits)

lemma no_faults_simps [simp]:
  "no_faults s \<Longrightarrow> next_fault s = None"
  "no_faults s \<Longrightarrow> no_faults (tick s)"
  "no_faults (s\<lparr>files := f\<rparr>) = no_faults s"
  by (simp_all add: no_faults_def next_fault_def tick_def)

lemma no_faults_WriteFile:
  "no_faults s \<Longrightarrow> WriteFile p d s = (None, (tick s)\<lparr>files := (files s)(p \<mapsto> d)\<rparr>)"
  by (simp add: WriteFile_def)

lemma no_faults_Rename:
  "no_faults s \<Longrightarrow> files s a = Some d \<Longrightarrow> a \<noteq> b \<Longrightarrow>
     Rename a b s = (None, (tick s)\<lparr>files := (files s)(b \<mapsto> d, a := None)\<rparr>)"
  by (simp add: Rename_def)

lemma no_faults_Remove:
  "no_faults s \<Longrightarrow> Remove p s = (if files s p = None then (Some NotExist, tick s)
     else (None, (tick s)\<lparr>files := (files s)(p := None)\<rparr>))"
  by (simp add: Remove_def)

lemma no_faults_MkdirAll: "no_faults s \<Longrightarrow> MkdirAll s = (None, tick s)"
  by (simp add: MkdirAll_def)

lemma no_faults_preserved:
  assumes "no_faults s"
  shows "no_faults (snd (WriteFile p d s))" "no_faults (snd (Rename a b s))"
    "no_faults (snd (Remove p s))" "no_faults (snd (MkdirAll s))"
  using assms
  by (simp_all add: no_faults_WriteFile no_faults_Remove no_faults_MkdirAll Rename_def Let_def split: option.split)

lemma no_faults_empty [simp]: "no_faults empty_fs"
  by (simp add: no_faults_def empty_fs_def)

end
