(* ===== verification/Config.thy ===== *)
theory Config
  imports Device FileSystem
begin

text \<open>
  \<^verbatim>\<open>internal/config/config.go\<close>: the configuration file (credentials and
  devices), its defaults, and the state file that persists it. The YAML package is an
  argument (a record with its two functions); the file system is the one of
  \<open>FileSystem\<close>.
\<close>

section \<open>Configuration and defaults\<close>

record auth =
  a_Username :: string
  a_Password :: string
  a_SNMPCommunity :: string

record config =
  cfg_Auth :: auth
  cfg_Devices :: "device list"
  cfg_TmplText :: string

definition or_str :: "string \<Rightarrow> string \<Rightarrow> string" where
  "or_str v def = (if v = [] then def else v)"

definition or_int :: "int \<Rightarrow> int \<Rightarrow> int" where
  "or_int v def = (if v = 0 then def else v)"

definition client_defaults :: "client \<Rightarrow> client" where
  "client_defaults c =
     (let c1 = c\<lparr>c_RadioType := or_str (c_RadioType c) ''client-radio-type-11ax-5ghz'',
                 c_SecurityMode := or_str (c_SecurityMode c) ''ewlc-assoc-mode-wpa2'',
                 c_EncryptionType := or_str (c_EncryptionType c) ''encryp-policy-aes-ccm128'',
                 c_AuthKeyMgmt := or_str (c_AuthKeyMgmt c) ''8021x'',
                 c_State := or_str (c_State c) ''co-client-run'',
                 c_Channel := or_int (c_Channel c) 36,
                 c_RSSI := or_int (c_RSSI c) (-55),
                 c_SNR := or_int (c_SNR c) 35,
                 c_Speed := or_int (c_Speed c) 573,
                 c_SpatialStreams := or_int (c_SpatialStreams c) 2,
                 c_VLAN := or_int (c_VLAN c) 50\<rparr>
      in c1\<lparr>c_VLANName := or_str (c_VLANName c1) (''VLAN'' @ fmt_04d (c_VLAN c1)),
            c_WLANId := or_int (c_WLANId c1) 1,
            c_PolicyProfile := or_str (c_PolicyProfile c1) ''default-policy-profile''\<rparr>)"

fun collect_new_ssids :: "string list \<Rightarrow> client list \<Rightarrow> string list" where
  "collect_new_ssids acc [] = acc"
| "collect_new_ssids acc (c # cs) =
     collect_new_ssids (if c_SSID c \<noteq> [] \<and> c_SSID c \<notin> set acc then acc @ [c_SSID c] else acc) cs"

definition ap_defaults :: "ap \<Rightarrow> ap" where
  "ap_defaults a =
     (let a1 = a\<lparr>ap_Clients := map client_defaults (ap_Clients a)\<rparr>
      in if ap_SSIDs a1 = [] then a1\<lparr>ap_SSIDs := collect_new_ssids [] (ap_Clients a1)\<rparr> else a1)"

definition port_defaults :: "device \<Rightarrow> device" where
  "port_defaults d =
     d\<lparr>d_HTTPSPort := or_int (d_HTTPSPort d) 443,
       d_SSHPort := or_int (d_SSHPort d) 22,
       d_SNMPPort := or_int (d_SNMPPort d) 161,
       d_Model := or_str (d_Model d) ''C9800-CL-K9'',
       d_Version := or_str (d_Version d) ''17.12.1''\<rparr>"

definition device_defaults :: "device \<Rightarrow> device" where
  "device_defaults d =
     (let d1 = EnsureDefaultAP (port_defaults d)
      in d1\<lparr>d_APs := map ap_defaults (d_APs d1)\<rparr>)"

definition auth_defaults :: "auth \<Rightarrow> auth" where
  "auth_defaults a =
     a\<lparr>a_Username := or_str (a_Username a) ''admin'',
       a_Password := or_str (a_Password a) ''admin'',
       a_SNMPCommunity := or_str (a_SNMPCommunity a) ''public''\<rparr>"

definition applyDefaults :: "config \<Rightarrow> config" where
  "applyDefaults cfg =
     cfg\<lparr>cfg_Devices := map device_defaults (cfg_Devices cfg),
         cfg_Auth := auth_defaults (cfg_Auth cfg)\<rparr>"

lemma or_str_simps [simp]: "or_str (or_str v d) d' = or_str v d \<or> d = []"
  "d \<noteq> [] \<Longrightarrow> or_str (or_str v d) d' = or_str v d"
  "(or_str v d = []) = (v = [] \<and> d = [])"
  by (auto simp: or_str_def)

lemma or_int_simps [simp]: "d \<noteq> 0 \<Longrightarrow> or_int (or_int v d) d' = or_int v d"
  "(or_int v d = 0) = (v = 0 \<and> d = 0)"
  by (auto simp: or_int_def)

lemma client_defaults_fields [simp]:
  "c_MAC (client_defaults c) = c_MAC c"
  "c_SSID (client_defaults c) = c_SSID c"
  by (simp_all add: client_defaults_def Let_def)

lemma client_defaults_idem [simp]: "client_defaults (client_defaults c) = client_defaults c"
  by (simp add: client_defaults_def Let_def)

lemma collect_new_ssids_map:
  "collect_new_ssids acc (map client_defaults cs) = collect_new_ssids acc cs"
  by (induction acc cs rule: collect_new_ssids.induct) auto

lemma ap_defaults_fields [simp]:
  "ap_Name (ap_defaults a) = ap_Name a"
  "ap_MAC (ap_defaults a) = ap_MAC a"
  "ap_Model (ap_defaults a) = ap_Model a"
  "ap_Default (ap_defaults a) = ap_Default a"
  "ap_Clients (ap_defaults a) = map client_defaults (ap_Clients a)"
  by (simp_all add: ap_defaults_def Let_def)

lemma ap_defaults_idem [simp]: "ap_defaults (ap_defaults a) = ap_defaults a"
  by (simp add: ap_defaults_def Let_def collect_new_ssids_map o_def)

lemma fillDefaultAP_ap_defaults:
  "fillDefaultAP h (ap_defaults a) = ap_defaults (fillDefaultAP h a)"
  by (simp add: fillDefaultAP_def ap_defaults_def Let_def)

lemma update_first_map:
  assumes "\<And>x. P (f x) = P x" and "\<And>x. g (f x) = f (g x)"
  shows "update_first P g (map f xs) = map f (update_first P g xs)"
  using assms by (induction xs) auto

lemma list_ex_map_same: "(\<And>x. P (f x) = P x) \<Longrightarrow> list_ex P (map f xs) = list_ex P xs"
  by (induction xs) auto

lemma ap_defaults_mark: "(ap_defaults a)\<lparr>ap_Default := True\<rparr> = ap_defaults (a\<lparr>ap_Default := True\<rparr>)"
  by (simp add: ap_defaults_def Let_def)

lemma ap_defaults_fresh:
  "ap_defaults (fillDefaultAP h (empty_ap\<lparr>ap_Default := True\<rparr>)) = fillDefaultAP h (empty_ap\<lparr>ap_Default := True\<rparr>)"
  by (simp add: ap_defaults_def fillDefaultAP_def empty_ap_def Let_def)

lemma EnsureDefaultAP_map_defaults:
  "EnsureDefaultAP (d\<lparr>d_APs := map ap_defaults (d_APs d)\<rparr>) =
     (let d1 = EnsureDefaultAP d in d1\<lparr>d_APs := map ap_defaults (d_APs d1)\<rparr>)"
  by (simp add: EnsureDefaultAP_def Let_def list_ex_map_same update_first_map
      fillDefaultAP_ap_defaults ap_defaults_mark ap_defaults_fresh)

lemma port_defaults_idem [simp]: "port_defaults (port_defaults d) = port_defaults d"
  by (simp add: port_defaults_def)

lemma port_defaults_APs_update: "port_defaults (d\<lparr>d_APs := x\<rparr>) = (port_defaults d)\<lparr>d_APs := x\<rparr>"
  by (simp add: port_defaults_def)

lemma port_defaults_Ensure: "port_defaults (EnsureDefaultAP d) = EnsureDefaultAP (port_defaults d)"
  by (simp add: port_defaults_def EnsureDefaultAP_def Let_def)

lemma device_defaults_idem [simp]: "device_defaults (device_defaults d) = device_defaults d"
proof -
  let ?e = "EnsureDefaultAP (port_defaults d)"
  have "port_defaults (device_defaults d) = ?e\<lparr>d_APs := map ap_defaults (d_APs ?e)\<rparr>"
    by (simp add: device_defaults_def Let_def port_defaults_APs_update port_defaults_Ensure)
  then show ?thesis
    by (simp add: device_defaults_def Let_def EnsureDefaultAP_map_defaults EnsureDefaultAP_idem o_def)
qed

lemma auth_defaults_idem [simp]: "auth_defaults (auth_defaults a) = auth_defaults a"
  by (simp add: auth_defaults_def)

lemma device_defaults_fields [simp]:
  "d_Hostname (device_defaults d) = d_Hostname d"
  "d_IP (device_defaults d) = d_IP d"
  by (simp_all add: device_defaults_def Let_def EnsureDefaultAP_fields port_defaults_def)

lemma has_default_ap_device_defaults:
  assumes "d_Hostname d \<noteq> []"
  shows "has_default_ap (device_defaults d)"
proof -
  have "has_default_ap (EnsureDefaultAP (port_defaults d))"
    using assms by (simp add: has_default_ap_Ensure port_defaults_def)
  then show ?thesis
    by (auto simp: device_defaults_def Let_def has_default_ap_def list_ex_iff EnsureDefaultAP_fields)
qed

text \<open>
  \<^verbatim>\<open>applyDefaults\<close> is idempotent, as its comment promises: a persisted
  configuration, which already contains the expanded defaults, is not changed by being
  loaded again.
\<close>

theorem applyDefaults_idempotent: "applyDefaults (applyDefaults cfg) = applyDefaults cfg"
  by (simp add: applyDefaults_def o_def)

definition client_complete :: "client \<Rightarrow> bool" where
  "client_complete c \<longleftrightarrow>
     c_RadioType c \<noteq> [] \<and> c_SecurityMode c \<noteq> [] \<and> c_EncryptionType c \<noteq> [] \<and>
     c_AuthKeyMgmt c \<noteq> [] \<and> c_State c \<noteq> [] \<and> c_Channel c \<noteq> 0 \<and> c_RSSI c \<noteq> 0 \<and> c_SNR c \<noteq> 0 \<and>
     c_Speed c \<noteq> 0 \<and> c_SpatialStreams c \<noteq> 0 \<and> c_VLAN c \<noteq> 0 \<and> c_VLANName c \<noteq> [] \<and>
     c_WLANId c \<noteq> 0 \<and> c_PolicyProfile c \<noteq> []"

definition device_complete :: "device \<Rightarrow> bool" where
  "device_complete d \<longleftrightarrow>
     d_HTTPSPort d \<noteq> 0 \<and> d_SSHPort d \<noteq> 0 \<and> d_SNMPPort d \<noteq> 0 \<and> d_Model d \<noteq> [] \<and> d_Version d \<noteq> [] \<and>
     (d_Hostname d \<noteq> [] \<longrightarrow> has_default_ap d) \<and>
     (\<forall>a \<in> set (d_APs d). (\<forall>c \<in> set (ap_Clients a). client_complete c) \<and>
        (ap_SSIDs a = [] \<longrightarrow> (\<forall>c \<in> set (ap_Clients a). c_SSID c = [])))"

lemma client_defaults_complete: "client_complete (client_defaults c)"
  by (simp add: client_complete_def client_defaults_def Let_def)

lemma collect_new_ssids_set:
  "set (collect_new_ssids acc cs) = set acc \<union> {c_SSID c | c. c \<in> set cs \<and> c_SSID c \<noteq> []}"
  by (induction acc cs rule: collect_new_ssids.induct) auto

lemma ap_defaults_ssids_empty:
  "ap_SSIDs (ap_defaults a) = [] \<Longrightarrow> c \<in> set (ap_Clients (ap_defaults a)) \<Longrightarrow> c_SSID c = []"
proof -
  assume e: "ap_SSIDs (ap_defaults a) = []" and c: "c \<in> set (ap_Clients (ap_defaults a))"
  then have "collect_new_ssids [] (map client_defaults (ap_Clients a)) = []"
    by (simp add: ap_defaults_def Let_def split: if_splits)
  then have "set (collect_new_ssids [] (map client_defaults (ap_Clients a))) = {}"
    by simp
  with c show ?thesis
    unfolding collect_new_ssids_set by auto
qed

lemma ap_defaults_clients_complete: "c \<in> set (ap_Clients (ap_defaults a)) \<Longrightarrow> client_complete c"
  by (auto simp: client_defaults_complete)

lemma device_defaults_complete: "device_complete (device_defaults d)"
proof -
  have "d_HTTPSPort (device_defaults d) \<noteq> 0 \<and> d_SSHPort (device_defaults d) \<noteq> 0 \<and>
      d_SNMPPort (device_defaults d) \<noteq> 0 \<and> d_Model (device_defaults d) \<noteq> [] \<and> d_Version (device_defaults d) \<noteq> []"
    by (simp add: device_defaults_def Let_def EnsureDefaultAP_fields port_defaults_def)
  moreover have "\<forall>a \<in> set (d_APs (device_defaults d)). \<exists>b. a = ap_defaults b"
    by (auto simp: device_defaults_def Let_def)
  ultimately show ?thesis
    using has_default_ap_device_defaults [of d]
    by (fastforce simp: device_complete_def intro: ap_defaults_clients_complete ap_defaults_ssids_empty)
qed

text \<open>
  Every configuration that has gone through \<^verbatim>\<open>applyDefaults\<close> (so every
  loaded or imported one) is complete: ports, model and version of every device are set,
  every named site has its default access point, every client has all fields the protocol
  handlers read, and an access point without SSIDs has only clients without one;
  credentials are never empty.
\<close>

theorem applyDefaults_complete:
  "(\<forall>d \<in> set (cfg_Devices (applyDefaults cfg)). device_complete d) \<and>
   a_Username (cfg_Auth (applyDefaults cfg)) \<noteq> [] \<and> a_Password (cfg_Auth (applyDefaults cfg)) \<noteq> [] \<and>
   a_SNMPCommunity (cfg_Auth (applyDefaults cfg)) \<noteq> []"
  by (auto simp: applyDefaults_def device_defaults_complete auth_defaults_def)

definition empty_auth :: auth where
  "empty_auth = \<lparr>a_Username = [], a_Password = [], a_SNMPCommunity = []\<rparr>"

theorem applyDefaults_complete_witness:
  "\<exists>d. device_complete d \<and> d_Hostname d = ''WLC'' \<and> has_default_ap d"
proof -
  let ?cfg = "\<lparr>cfg_Auth = empty_auth, cfg_Devices = [empty_device\<lparr>d_Hostname := ''WLC''\<rparr>], cfg_TmplText = []\<rparr>"
  let ?d = "device_defaults (empty_device\<lparr>d_Hostname := ''WLC''\<rparr>)"
  have "?d \<in> set (cfg_Devices (applyDefaults ?cfg))" by (simp add: applyDefaults_def)
  then have "device_complete ?d" using applyDefaults_complete [of ?cfg] by blast
  moreover have "d_Hostname ?d = ''WLC''" by simp
  ultimately show ?thesis by (auto simp: device_complete_def)
qed

section \<open>The YAML form and the state file\<close>

record yaml =
  unmarshal :: "string \<Rightarrow> string + config"
  marshal :: "config \<Rightarrow> string + string"

datatype conf_error =
    ReadConfig fs_error | ParseConfig string | MarshalConfig string
  | CreateStateDir | WriteState | ReplaceState

definition stateHeader :: string where
  "stateHeader = unlines [
    ''# Cisco 9800-CL WLC Simulator configuration.'',
    ''# When saved as the runtime state file this is auto-generated on every change;'',
    ''# delete it (or use Factory Reset in the dashboard) to revert to the seed devices.yaml.'']"

definition ParseYAML :: "yaml \<Rightarrow> string \<Rightarrow> conf_error + config" where
  "ParseYAML y data =
     (case unmarshal y data of
        Inl e \<Rightarrow> Inl (ParseConfig e)
      | Inr cfg \<Rightarrow> Inr (applyDefaults cfg))"

definition Marshal :: "yaml \<Rightarrow> config \<Rightarrow> conf_error + string" where
  "Marshal y cfg =
     (case marshal y cfg of
        Inl e \<Rightarrow> Inl (MarshalConfig e)
      | Inr body \<Rightarrow> Inr (stateHeader @ body))"

definition sibling :: "string \<Rightarrow> string \<Rightarrow> string" where
  \<comment> \<open>\<^verbatim>\<open>filepath.Join(filepath.Dir(path), name)\<close> on a clean path\<close>
  "sibling path name = rev (dropWhile (\<lambda>c. c \<noteq> CHR ''/'') (rev path)) @ name"

definition Load :: "render_env \<Rightarrow> yaml \<Rightarrow> string \<Rightarrow> fs \<Rightarrow> conf_error + config" where
  "Load env y path s =
     (case ReadFile path s of
        Inl e \<Rightarrow> Inl (ReadConfig e)
      | Inr data \<Rightarrow>
          (case ParseYAML y data of
             Inl e \<Rightarrow> Inl e
           | Inr cfg \<Rightarrow>
               (let cfg1 = (case ReadFile (sibling path ''running-config.tmpl'') s of
                              Inl _ \<Rightarrow> cfg
                            | Inr t \<Rightarrow> cfg\<lparr>cfg_TmplText := t\<rparr>)
                in Inr (cfg1\<lparr>cfg_Devices := map (InitConfig env (cfg_TmplText cfg1)) (cfg_Devices cfg1)\<rparr>))))"

definition tmp_path :: "string \<Rightarrow> string" where
  "tmp_path path = path @ ''.tmp''"

definition Save :: "yaml \<Rightarrow> string \<Rightarrow> config \<Rightarrow> fs \<Rightarrow> conf_error option \<times> fs" where
  "Save y path cfg s =
     (case Marshal y cfg of
        Inl e \<Rightarrow> (Some e, s)
      | Inr data \<Rightarrow>
          (case MkdirAll s of
             (Some _, s1) \<Rightarrow> (Some CreateStateDir, s1)
           | (None, s1) \<Rightarrow>
               (case WriteFile (tmp_path path) data s1 of
                  (Some _, s2) \<Rightarrow> (Some WriteState, s2)
                | (None, s2) \<Rightarrow>
                    (case Rename (tmp_path path) path s2 of
                       (Some _, s3) \<Rightarrow> (Some ReplaceState, snd (Remove (tmp_path path) s3))
                     | (None, s3) \<Rightarrow> (None, s3)))))"

lemma tmp_path_neq [simp]: "tmp_path p \<noteq> p" "p \<noteq> tmp_path p"
  by (simp_all add: tmp_path_def)

lemma Save_cases:
  assumes "Save y path cfg s = (e, s')"
  shows "(\<exists>err. e = Some err) \<and> files s' path = files s path \<and> (\<forall>q. q \<noteq> tmp_path path \<longrightarrow> files s' q = files s q)
    \<or> (\<exists>data. Marshal y cfg = Inr data \<and> files s' path = Some data \<and>
        (\<forall>q. q \<noteq> tmp_path path \<and> q \<noteq> path \<longrightarrow> files s' q = files s q))"
proof (cases "Marshal y cfg")
  case (Inl err)
  with assms show ?thesis by (auto simp: Save_def)
next
  case (Inr data)
  let ?t = "tmp_path path"
  obtain e1 s1 where m: "MkdirAll s = (e1, s1)" by (cases "MkdirAll s") auto
  obtain e2 s2 where w: "WriteFile ?t data s1 = (e2, s2)" by (cases "WriteFile ?t data s1") auto
  obtain e3 s3 where r: "Rename ?t path s2 = (e3, s3)" by (cases "Rename ?t path s2") auto
  have f1: "files s1 = files s" using MkdirAll_frame [of s] m by simp
  have f2: "files s2 q = files s q" if "q \<noteq> ?t" for q
    using osfs.put_frame [OF w that] f1 by simp
  have f3: "files s3 q = files s q" if "q \<noteq> ?t" "q \<noteq> path" for q
    using osfs.rename_frame [OF r that] f2 that by simp
  note rm = Remove_frame [of _ ?t s3]
  show ?thesis
  proof (cases "e1 = None \<and> e2 = None")
    case True
    with w have w': "WriteFile ?t data s1 = (None, s2)" by simp
    have path3: "files s3 path = files s path \<or> files s3 path = Some data"
      using osfs.replace_path [OF w' r tmp_path_neq(1)] f1 by simp
    show ?thesis
    proof (cases e3)
      case None
      with osfs.replace_success [OF w'] r have "files s3 path = Some data" by simp
      with None True assms m w r f3 Inr show ?thesis by (auto simp: Save_def)
    next
      case (Some err)
      with True assms m w r Inr have "e = Some ReplaceState" "s' = snd (Remove ?t s3)"
        by (auto simp: Save_def)
      then show ?thesis using path3 f3 rm Inr by (metis tmp_path_neq(2))
    qed
  next
    case False
    with assms m w f1 f2 Inr show ?thesis by (auto simp: Save_def split: option.splits)
  qed
qed

text \<open>
  C12. \<^verbatim>\<open>Save\<close> is atomic under every fault script: whichever of its calls fails,
  writes half of its data or is cut short by the death of the process, the file at the
  path holds afterwards either exactly what it held before or the complete new document,
  never a truncated one; a nil error means the new document; and no file other than
  the temporary one is touched.
\<close>

theorem Save_atomic:
  assumes "Save y path cfg s = (e, s')"
  shows "(files s' path = files s path \<or> (\<exists>data. Marshal y cfg = Inr data \<and> files s' path = Some data)) \<and>
    (e = None \<longrightarrow> (\<exists>data. Marshal y cfg = Inr data \<and> files s' path = Some data)) \<and>
    (\<forall>q. q \<noteq> path \<and> q \<noteq> tmp_path path \<longrightarrow> files s' q = files s q)"
  using Save_cases [OF assms] by auto

definition toy_yaml :: "config \<Rightarrow> yaml" where
  \<comment> \<open>a concrete codec for the examples: it knows one document\<close>
  "toy_yaml cfg = \<lparr>unmarshal = (\<lambda>s. if s = stateHeader @ ''doc'' then Inr cfg else Inl ''syntax''),
     marshal = (\<lambda>_. Inr ''doc'')\<rparr>"

definition empty_config :: config where
  "empty_config = \<lparr>cfg_Auth = empty_auth, cfg_Devices = [], cfg_TmplText = []\<rparr>"

theorem Save_atomic_witness:
  "files (snd (Save (toy_yaml empty_config) ''state.yaml'' empty_config
     (empty_fs\<lparr>files := [''state.yaml'' \<mapsto> ''old''], fault_at := [1 \<mapsto> CrashDuring 2]\<rparr>))) ''state.yaml''
   \<in> {Some ''old'', Some (stateHeader @ ''doc'')}"
  (is "files (snd (Save ?y ?p ?c ?s)) _ \<in> _")
  using Save_atomic [of ?y ?p ?c ?s "fst (Save ?y ?p ?c ?s)" "snd (Save ?y ?p ?c ?s)"]
  by (auto simp: Marshal_def toy_yaml_def)

lemma Save_no_faults:
  assumes "no_faults s" and "Marshal y cfg = Inr data"
  shows "\<exists>s'. Save y path cfg s = (None, s') \<and> files s' = (files s)(tmp_path path := None, path \<mapsto> data) \<and> no_faults s'"
  using assms
  by (simp add: Save_def no_faults_MkdirAll no_faults_WriteFile no_faults_Rename fun_eq_iff no_faults_def tick_def)

end
