(* ===== verification/Network.thy ===== *)
theory Network
  imports Device "HOL-Library.Sublist"
begin

text \<open>
  \<^verbatim>\<open>internal/network\<close>: IP aliases on the loopback or a physical interface
  (\<^verbatim>\<open>setup.go\<close>), detection of the primary interface
  (\<^verbatim>\<open>detect.go\<close>) and the search for unused addresses
  (\<^verbatim>\<open>arp.go\<close>). The commands the code runs (\<^verbatim>\<open>ip\<close>,
  \<^verbatim>\<open>ifconfig\<close>, \<^verbatim>\<open>arping\<close>), the interface table and the
  ARP traffic are the fields of \<open>net_env\<close>, over an operating system state of any
  type.
\<close>

section \<open>Addresses\<close>

datatype ipv4 = IPv4 (oct_a: "8 word") (oct_b: "8 word") (oct_c: "8 word") (oct_d: "8 word")

datatype ip = V4 ipv4 | V6 string

definition show_ipv4 :: "ipv4 \<Rightarrow> string" where
  "show_ipv4 a = nat_digits (unat (oct_a a)) @ ''.'' @ nat_digits (unat (oct_b a)) @ ''.'' @
     nat_digits (unat (oct_c a)) @ ''.'' @ nat_digits (unat (oct_d a))"

definition parse_octet :: "string \<Rightarrow> 8 word option" where
  "parse_octet s =
     (if s = [] \<or> \<not> list_all is_digit s \<or> (length s > 1 \<and> hd s = CHR ''0'') \<or> dec_value s > 255
      then None else Some (word_of_nat (dec_value s)))"

definition parse_ipv4 :: "string \<Rightarrow> ipv4 option" where
  "parse_ipv4 s =
     (case map parse_octet (split_char (CHR ''.'') s) of
        [Some a, Some b, Some c, Some d] \<Rightarrow> Some (IPv4 a b c d)
      | _ \<Rightarrow> None)"

definition ParseIP :: "(string \<Rightarrow> ip option) \<Rightarrow> string \<Rightarrow> ip option" where
  \<comment> \<open>\<^verbatim>\<open>net.ParseIP\<close>: the first separator decides; the argument parses the IPv6 forms\<close>
  "ParseIP v6 s =
     (case find (\<lambda>c. c = CHR ''.'' \<or> c = CHR '':'' \<or> c = CHR ''%'') s of
        None \<Rightarrow> None
      | Some c \<Rightarrow> if c = CHR ''.'' then map_option V4 (parse_ipv4 s)
                  else if c = CHR '':'' then v6 s else None)"

record ipnet =
  net_ip :: ipv4
  net_mask :: ipv4

definition subnet_contains :: "ipnet \<Rightarrow> ipv4 \<Rightarrow> bool" where
  "subnet_contains n a \<longleftrightarrow>
     and (oct_a (net_ip n)) (oct_a (net_mask n)) = and (oct_a a) (oct_a (net_mask n)) \<and>
     and (oct_b (net_ip n)) (oct_b (net_mask n)) = and (oct_b a) (oct_b (net_mask n)) \<and>
     and (oct_c (net_ip n)) (oct_c (net_mask n)) = and (oct_c a) (oct_c (net_mask n)) \<and>
     and (oct_d (net_ip n)) (oct_d (net_mask n)) = and (oct_d a) (oct_d (net_mask n))"

fun mask_byte :: "nat \<Rightarrow> 8 word" where
  "mask_byte n = (if n \<ge> 8 then 255 else word_of_nat (256 - 2 ^ (8 - n)))"

definition cidr_mask :: "nat \<Rightarrow> ipv4" where
  "cidr_mask n = IPv4 (mask_byte n) (mask_byte (n - 8)) (mask_byte (n - 16)) (mask_byte (n - 24))"

definition mask_ones :: "ipv4 \<Rightarrow> nat" where
  \<comment> \<open>\<^verbatim>\<open>Mask.Size()\<close>: 0 for a mask that is not a run of ones\<close>
  "mask_ones m = (case find (\<lambda>n. cidr_mask n = m) [0..<33] of None \<Rightarrow> 0 | Some n \<Rightarrow> n)"

section \<open>The environment\<close>

datatype goos = Darwin | Linux | OtherOS string

datatype ifaddr = IfNet ipv4 ipv4 | IfAddr ipv4 | IfV6 string

datatype arp_read = ReadError | ArpPacket bool ipv4

datatype arp_dial = NoInterface | DialError | RequestError | ArpStream "arp_read list"

record 'os net_env =
  goos :: goos
  run_cmd :: "string \<Rightarrow> string list \<Rightarrow> 'os \<Rightarrow> bool \<times> 'os"
  output_cmd :: "string \<Rightarrow> string list \<Rightarrow> 'os \<Rightarrow> string option"
  if_addrs :: "'os \<Rightarrow> ifaddr list option"
  iface_addrs :: "string \<Rightarrow> 'os \<Rightarrow> ifaddr list option"
  route_polls :: "'os \<Rightarrow> string option list"
  arp_dial_of :: "string \<Rightarrow> ipv4 \<Rightarrow> arp_dial"
  parse_v6 :: "string \<Rightarrow> ip option"

datatype net_error =
    UnsupportedOS string | CommandFailed string | AddIPFailed string
  | DetectFailed | InterfaceMissing string | NoIPv4 string
  | OnlyFound nat nat | IndexPanic

section \<open>IP aliases\<close>

definition ifaddr_string :: "ifaddr \<Rightarrow> string" where
  "ifaddr_string a = (case a of IfNet i m \<Rightarrow> show_ipv4 i | IfAddr i \<Rightarrow> show_ipv4 i | IfV6 s \<Rightarrow> s)"

definition isLocalIP :: "'os net_env \<Rightarrow> string \<Rightarrow> 'os \<Rightarrow> bool" where
  "isLocalIP env ip os =
     (case if_addrs env os of None \<Rightarrow> False | Some as \<Rightarrow> ip \<in> set (map ifaddr_string as))"

definition run :: "'os net_env \<Rightarrow> string \<Rightarrow> string list \<Rightarrow> 'os \<Rightarrow> net_error option \<times> 'os" where
  "run env cmd args os =
     (let (ok, os') = run_cmd env cmd args os in (if ok then None else Some (CommandFailed cmd), os'))"

definition AddIP :: "'os net_env \<Rightarrow> string \<Rightarrow> 'os \<Rightarrow> net_error option \<times> 'os" where
  "AddIP env ip os =
     (case goos env of
        Darwin \<Rightarrow> run env ''ifconfig'' [''lo0'', ''alias'', ip] os
      | Linux \<Rightarrow> run env ''ip'' [''addr'', ''add'', ip @ ''/32'', ''dev'', ''lo''] os
      | OtherOS g \<Rightarrow> (Some (UnsupportedOS g), os))"

definition RemoveIP :: "'os net_env \<Rightarrow> string \<Rightarrow> 'os \<Rightarrow> net_error option \<times> 'os" where
  "RemoveIP env ip os =
     (case goos env of
        Darwin \<Rightarrow> run env ''ifconfig'' [''lo0'', ''-alias'', ip] os
      | Linux \<Rightarrow> run env ''ip'' [''addr'', ''del'', ip @ ''/32'', ''dev'', ''lo''] os
      | OtherOS g \<Rightarrow> (Some (UnsupportedOS g), os))"

definition AddIPToInterface :: "'os net_env \<Rightarrow> string \<Rightarrow> string \<Rightarrow> nat \<Rightarrow> 'os \<Rightarrow> net_error option \<times> 'os" where
  "AddIPToInterface env iface ip prefixLen os =
     (let n = (if prefixLen = 0 then 24 else prefixLen)
      in case goos env of
           Darwin \<Rightarrow> run env ''ifconfig'' [iface, ''alias'', ip] os
         | Linux \<Rightarrow> run env ''ip'' [''addr'', ''add'', ip @ ''/'' @ nat_digits n, ''dev'', iface] os
         | OtherOS g \<Rightarrow> (Some (UnsupportedOS g), os))"

definition RemoveIPFromInterface :: "'os net_env \<Rightarrow> string \<Rightarrow> string \<Rightarrow> 'os \<Rightarrow> net_error option \<times> 'os" where
  "RemoveIPFromInterface env iface ip os =
     (case goos env of
        Darwin \<Rightarrow> run env ''ifconfig'' [iface, ''-alias'', ip] os
      | Linux \<Rightarrow> run env ''ip'' [''addr'', ''del'', ip @ ''/32'', ''dev'', iface] os
      | OtherOS g \<Rightarrow> (Some (UnsupportedOS g), os))"

fun SetupIPs :: "'os net_env \<Rightarrow> device list \<Rightarrow> 'os \<Rightarrow> net_error option \<times> 'os" where
  "SetupIPs env [] os = (None, os)"
| "SetupIPs env (d # ds) os =
     (if isLocalIP env (d_IP d) os then SetupIPs env ds os
      else (case AddIP env (d_IP d) os of
              (Some e, os1) \<Rightarrow> (Some (AddIPFailed (d_IP d)), os1)
            | (None, os1) \<Rightarrow> SetupIPs env ds os1))"

fun TeardownIPs :: "'os net_env \<Rightarrow> device list \<Rightarrow> 'os \<Rightarrow> 'os" where
  "TeardownIPs env [] os = os"
| "TeardownIPs env (d # ds) os = TeardownIPs env ds (snd (RemoveIP env (d_IP d) os))"

fun TeardownLANIPs :: "'os net_env \<Rightarrow> string \<Rightarrow> device list \<Rightarrow> 'os \<Rightarrow> 'os" where
  "TeardownLANIPs env iface [] os = os"
| "TeardownLANIPs env iface (d # ds) os =
     (let os1 = snd (RemoveIPFromInterface env iface (d_IP d) os);
          os2 = (if goos env = Darwin then snd (run_cmd env ''ifconfig'' [''lo0'', ''-alias'', d_IP d] os1) else os1)
      in TeardownLANIPs env iface ds os2)"

section \<open>Detecting the primary interface\<close>

record iface_info =
  info_Name :: string
  info_IP :: ipv4
  info_Subnet :: ipnet

definition detectDarwin :: "string \<Rightarrow> string option" where
  \<comment> \<open>the line \<^verbatim>\<open>interface: en0\<close> of \<^verbatim>\<open>route -n get default\<close>\<close>
  "detectDarwin out =
     (case find (\<lambda>l. HasPrefix (TrimSpace l) ''interface:'') (split_char (CHR 0x0A) out) of
        None \<Rightarrow> None
      | Some l \<Rightarrow> Some (TrimSpace (TrimPrefix (TrimSpace l) ''interface:'')))"

fun after_dev :: "string list \<Rightarrow> string option" where
  "after_dev (f # g # fs) = (if f = ''dev'' then Some g else after_dev (g # fs))"
| "after_dev _ = None"

definition detectLinux :: "string \<Rightarrow> string option" where
  \<comment> \<open>the word after \<^verbatim>\<open>dev\<close> in \<^verbatim>\<open>ip route show default\<close>\<close>
  "detectLinux out = after_dev (Fields out)"

definition detectDefaultInterface :: "goos \<Rightarrow> string option \<Rightarrow> string option" where
  "detectDefaultInterface g out =
     (case g of
        Darwin \<Rightarrow> Option.bind out detectDarwin
      | Linux \<Rightarrow> Option.bind out detectLinux
      | OtherOS _ \<Rightarrow> None)"

fun poll_interface :: "goos \<Rightarrow> string option list \<Rightarrow> string option" where
  \<comment> \<open>one attempt every two seconds until the 60 second deadline; the list holds the command's outputs\<close>
  "poll_interface g [] = None"
| "poll_interface g (out # outs) =
     (case detectDefaultInterface g out of Some i \<Rightarrow> Some i | None \<Rightarrow> poll_interface g outs)"

fun first_ipv4 :: "string \<Rightarrow> ifaddr list \<Rightarrow> iface_info option" where
  "first_ipv4 name [] = None"
| "first_ipv4 name (IfNet i m # as) =
     Some \<lparr>info_Name = name, info_IP = i, info_Subnet = \<lparr>net_ip = i, net_mask = m\<rparr>\<rparr>"
| "first_ipv4 name (_ # as) = first_ipv4 name as"

definition DetectPrimaryInterface :: "'os net_env \<Rightarrow> string \<Rightarrow> 'os \<Rightarrow> net_error + iface_info" where
  "DetectPrimaryInterface env name os =
     (case (if name = [] then poll_interface (goos env) (route_polls env os) else Some name) of
        None \<Rightarrow> Inl DetectFailed
      | Some n \<Rightarrow>
          (case iface_addrs env n os of
             None \<Rightarrow> Inl (InterfaceMissing n)
           | Some as \<Rightarrow> (case first_ipv4 n as of None \<Rightarrow> Inl (NoIPv4 n) | Some i \<Rightarrow> Inr i)))"

section \<open>Unused addresses\<close>

fun probe_loop :: "ipv4 \<Rightarrow> arp_read list \<Rightarrow> bool" where
  "probe_loop a [] = False"
| "probe_loop a (ReadError # ps) = False"
| "probe_loop a (ArpPacket reply sender # ps) = (if reply \<and> sender = a then True else probe_loop a ps)"

definition ProbeIP :: "'os net_env \<Rightarrow> string \<Rightarrow> ipv4 \<Rightarrow> bool \<Rightarrow> bool \<times> bool" where
  \<comment> \<open>the last argument and result are the package variable \<^verbatim>\<open>probeAvailable\<close>\<close>
  "ProbeIP env iface a avail =
     (if \<not> avail then (False, avail)
      else case arp_dial_of env iface a of
             NoInterface \<Rightarrow> (True, avail)
           | DialError \<Rightarrow> (False, False)
           | RequestError \<Rightarrow> (False, avail)
           | ArpStream ps \<Rightarrow> (probe_loop a ps, avail))"

definition arp_line_darwin :: "string \<Rightarrow> string option" where
  "arp_line_darwin line =
     (if Contains line ''(incomplete)'' then None
      else case str_index line ''('' of
             None \<Rightarrow> None
           | Some i \<Rightarrow> (case str_index (drop i line) '')'' of
                None \<Rightarrow> None
              | Some j \<Rightarrow> Some (take (j - 1) (drop (i + 1) line))))"

definition arp_line_linux :: "(string \<Rightarrow> ip option) \<Rightarrow> string \<Rightarrow> string option" where
  "arp_line_linux v6 line =
     (case Fields line of
        [] \<Rightarrow> None
      | f # fs \<Rightarrow> if ParseIP v6 f \<noteq> None then Some f else None)"

definition readARPCache :: "'os net_env \<Rightarrow> 'os \<Rightarrow> string list" where
  "readARPCache env os =
     (case goos env of
        Darwin \<Rightarrow> (case output_cmd env ''arp'' [''-a''] os of
                      None \<Rightarrow> []
                    | Some out \<Rightarrow> List.map_filter arp_line_darwin (split_char (CHR 0x0A) out))
      | Linux \<Rightarrow> (case output_cmd env ''ip'' [''neigh''] os of
                      None \<Rightarrow> []
                    | Some out \<Rightarrow> List.map_filter (arp_line_linux (parse_v6 env)) (split_char (CHR 0x0A) out))
      | OtherOS _ \<Rightarrow> [])"

definition local_ipv4s :: "ifaddr list \<Rightarrow> string list" where
  "local_ipv4s as = List.map_filter (\<lambda>a. case a of IfNet i m \<Rightarrow> Some (show_ipv4 i) | _ \<Rightarrow> None) as"

definition getKnownUsedIPs :: "'os net_env \<Rightarrow> 'os \<Rightarrow> string list" where
  "getKnownUsedIPs env os =
     (case if_addrs env os of None \<Rightarrow> [] | Some as \<Rightarrow> local_ipv4s as) @
     readARPCache env os @ [''0.0.0.0'']"

definition candidate :: "ipv4 \<Rightarrow> nat \<Rightarrow> ipv4" where
  "candidate base c = IPv4 (oct_a base) (oct_b base) (oct_c base) (word_of_nat c)"

fun scan_range :: "'os net_env \<Rightarrow> string \<Rightarrow> ipnet \<Rightarrow> string list \<Rightarrow> nat \<Rightarrow> nat list \<Rightarrow>
    ipv4 list \<times> bool \<Rightarrow> ipv4 list \<times> bool" where
  "scan_range env iface net used n [] (res, av) = (res, av)"
| "scan_range env iface net used n (c # cs) (res, av) =
     (if length res < n then
        (let a = candidate (net_ip net) c
         in if \<not> subnet_contains net a then scan_range env iface net used n cs (res, av)
            else if show_ipv4 a \<in> set used then scan_range env iface net used n cs (res, av)
            else (let (taken, av') = ProbeIP env iface a av
                  in scan_range env iface net used n cs (if taken then res else res @ [a], av')))
      else (res, av))"

definition FindUnusedIPs :: "'os net_env \<Rightarrow> string \<Rightarrow> ipnet \<Rightarrow> nat \<Rightarrow> 'os \<Rightarrow> bool \<Rightarrow> (net_error + ipv4 list) \<times> bool" where
  "FindUnusedIPs env iface net n os av =
     (let used = getKnownUsedIPs env os;
          (res, av1) = scan_range env iface net used n [200..<255] ([], av);
          (res2, av2) = scan_range env iface net used n [150..<200] (res, av1)
      in (if length res2 < n then Inl (OnlyFound (length res2) n) else Inr res2, av2))"

section \<open>LAN mode\<close>

definition needsAutoIP :: "'os net_env \<Rightarrow> string \<Rightarrow> ipnet \<Rightarrow> bool" where
  "needsAutoIP env ip net =
     (if ip = [] \<or> ip = ''auto'' then True
      else case ParseIP (parse_v6 env) ip of
             None \<Rightarrow> True
           | Some (V4 a) \<Rightarrow> \<not> subnet_contains net a
           | Some (V6 _) \<Rightarrow> True)"

definition last_dot_prefix :: "string \<Rightarrow> string" where
  "last_dot_prefix s = rev (tl (dropWhile (\<lambda>c. c \<noteq> CHR ''.'') (rev s)))"

definition AnnounceIP :: "'os net_env \<Rightarrow> string \<Rightarrow> string \<Rightarrow> 'os \<Rightarrow> 'os" where
  \<comment> \<open>the commands it runs; the packets it then sends change no local state\<close>
  "AnnounceIP env iface ip os =
     (case goos env of
        Darwin \<Rightarrow>
          (let os1 = snd (run_cmd env ''ping'' [''-c'', ''1'', ''-S'', ip, ''-t'', ''1'', ''255.255.255.255''] os)
           in snd (run_cmd env ''ping'' [''-c'', ''1'', ''-S'', ip, ''-t'', ''1'', last_dot_prefix ip @ ''.255''] os1))
      | Linux \<Rightarrow> snd (run_cmd env ''arping'' [''-A'', ''-c'', ''3'', ''-I'', iface, ip] os)
      | OtherOS _ \<Rightarrow> os)"

record arp_reply =
  ar_SenderMAC :: string
  ar_SenderIP :: ipv4
  ar_TargetMAC :: string
  ar_TargetIP :: ipv4

definition ethernet_broadcast :: string where
  "ethernet_broadcast = ''ff:ff:ff:ff:ff:ff''"

definition gratuitous_reply :: "string \<Rightarrow> ipv4 \<Rightarrow> arp_reply" where
  "gratuitous_reply mac a =
     \<lparr>ar_SenderMAC = mac, ar_SenderIP = a, ar_TargetMAC = ethernet_broadcast, ar_TargetIP = a\<rparr>"

definition announce_packets :: "string option \<Rightarrow> bool \<Rightarrow> (string \<Rightarrow> bool) \<Rightarrow> ip \<Rightarrow> arp_reply list" where
  \<comment> \<open>the packets \<^verbatim>\<open>AnnounceIP\<close> broadcasts: the hardware address of the interface if there is one,
     whether the raw socket can be opened, and which hardware addresses make a packet\<close>
  "announce_packets iface dial valid ip =
     (case iface of
        None \<Rightarrow> []
      | Some mac \<Rightarrow>
          if \<not> dial then []
          else (case ip of
                  V6 _ \<Rightarrow> []
                | V4 a \<Rightarrow> concat (replicate 3 (if valid mac then [gratuitous_reply mac a] else []))))"

lemma announced_is_own_address:
  "p \<in> set (announce_packets iface dial valid ip) \<Longrightarrow>
     \<exists>mac a. iface = Some mac \<and> ip = V4 a \<and> ar_SenderIP p = a \<and> ar_TargetIP p = a \<and> ar_SenderMAC p = mac"
  by (cases iface; cases ip) (auto simp: announce_packets_def gratuitous_reply_def split: if_splits)

fun lan_loop :: "'os net_env \<Rightarrow> iface_info \<Rightarrow> ipv4 list \<Rightarrow> device list \<Rightarrow> 'os \<Rightarrow>
    (net_error + device list) \<times> 'os" where
  "lan_loop env info autos [] os = (Inr [], os)"
| "lan_loop env info autos (d # ds) os =
     (let need = needsAutoIP env (d_IP d) (info_Subnet info)
      in if need \<and> autos = [] then (Inl IndexPanic, os)
         else
           let d1 = (if need then d\<lparr>d_IP := show_ipv4 (hd autos)\<rparr> else d);
               rest = (if need then tl autos else autos);
               continue_with = (\<lambda>os'. case lan_loop env info rest ds os' of
                  (Inl e, os2) \<Rightarrow> (Inl e, os2) | (Inr ds', os2) \<Rightarrow> (Inr (d1 # ds'), os2))
           in if isLocalIP env (d_IP d1) os then continue_with os
              else case AddIPToInterface env (info_Name info) (d_IP d1) (mask_ones (net_mask (info_Subnet info))) os of
                     (Some e, os1) \<Rightarrow> (Inl (AddIPFailed (d_IP d1)), os1)
                   | (None, os1) \<Rightarrow>
                       (let os2 = (if goos env = Darwin
                                   then snd (run_cmd env ''ifconfig'' [''lo0'', ''alias'', d_IP d1] os1) else os1)
                        in continue_with (AnnounceIP env (info_Name info) (d_IP d1) os2)))"

definition SetupLANIPs :: "'os net_env \<Rightarrow> device list \<Rightarrow> string \<Rightarrow> 'os \<Rightarrow> bool \<Rightarrow>
    (net_error + (iface_info \<times> device list)) \<times> 'os \<times> bool" where
  "SetupLANIPs env ds iface os av =
     (case DetectPrimaryInterface env iface os of
        Inl e \<Rightarrow> (Inl e, os, av)
      | Inr info \<Rightarrow>
          (let need = length (filter (\<lambda>d. needsAutoIP env (d_IP d) (info_Subnet info)) ds);
               (autos, av1) = (if need > 0 then FindUnusedIPs env (info_Name info) (info_Subnet info) need os av
                               else (Inr [], av))
           in case autos of
                Inl e \<Rightarrow> (Inl e, os, av1)
              | Inr ips \<Rightarrow>
                  (case lan_loop env info ips ds os of
                     (Inl e, os1) \<Rightarrow> (Inl e, os1, av1)
                   | (Inr ds', os1) \<Rightarrow> (Inr (info, ds'), os1, av1))))"

section \<open>Addresses: parsing and printing\<close>

lemma parse_octet_nat_digits [simp]: "n \<le> 255 \<Longrightarrow> parse_octet (nat_digits n) = Some (word_of_nat n)"
proof -
  assume n: "n \<le> 255"
  have "\<not> (length (nat_digits n) > 1 \<and> hd (nat_digits n) = CHR ''0'')"
  proof (cases "n = 0")
    case True
    then show ?thesis by (simp add: length_nat_digits_1)
  next
    case False
    then show ?thesis using hd_nat_digits [of n] by simp
  qed
  with n show ?thesis by (simp add: parse_octet_def nat_digits_all_digits)
qed

lemma unat_octet_le: "unat (w :: 8 word) \<le> 255"
proof -
  have "unat w < 2 ^ LENGTH(8)" by (rule unsigned_less)
  then show ?thesis by simp
qed

lemma split_show_ipv4:
  "split_char (CHR ''.'') (show_ipv4 (IPv4 a b c d)) =
     [nat_digits (unat a), nat_digits (unat b), nat_digits (unat c), nat_digits (unat d)]"
  by (simp add: show_ipv4_def split_char_append split_char_no)

lemma parse_show_ipv4 [simp]: "parse_ipv4 (show_ipv4 a) = Some a"
  by (cases a) (simp add: parse_ipv4_def split_show_ipv4 unat_octet_le)

lemma show_ipv4_inj: "show_ipv4 a = show_ipv4 b \<longleftrightarrow> a = b"
  by (metis option.inject parse_show_ipv4)

lemma find_sep_digits:
  "list_all is_digit ds \<Longrightarrow> find (\<lambda>c. c = CHR ''.'' \<or> c = CHR '':'' \<or> c = CHR ''%'') (ds @ CHR ''.'' # s) = Some (CHR ''.'')"
proof (induction ds)
  case (Cons c ds)
  moreover have "\<not> is_digit (CHR ''%'')" by (simp add: is_digit_def char_code_def)
  ultimately show ?case by auto
qed simp

lemma ParseIP_show_ipv4 [simp]: "ParseIP v6 (show_ipv4 a) = Some (V4 a)"
proof -
  have "find (\<lambda>c. c = CHR ''.'' \<or> c = CHR '':'' \<or> c = CHR ''%'') (show_ipv4 a) = Some (CHR ''.'')"
    unfolding show_ipv4_def using find_sep_digits [OF nat_digits_all_digits] by simp
  then show ?thesis by (simp add: ParseIP_def)
qed

lemma show_ipv4_not_auto [simp]: "show_ipv4 a \<noteq> []" "show_ipv4 a \<noteq> ''auto''"
proof -
  show "show_ipv4 a \<noteq> []" by (simp add: show_ipv4_def)
  have "CHR ''.'' \<in> set (show_ipv4 a)" by (simp add: show_ipv4_def)
  then show "show_ipv4 a \<noteq> ''auto''" by auto
qed

lemma needsAutoIP_show [simp]: "needsAutoIP env (show_ipv4 a) net \<longleftrightarrow> \<not> subnet_contains net a"
  by (simp add: needsAutoIP_def)

section \<open>The search for unused addresses\<close>

definition acceptable :: "'os net_env \<Rightarrow> string \<Rightarrow> ipnet \<Rightarrow> string list \<Rightarrow> nat \<Rightarrow> bool" where
  "acceptable env iface net used c \<longleftrightarrow>
     subnet_contains net (candidate (net_ip net) c) \<and> show_ipv4 (candidate (net_ip net) c) \<notin> set used"

lemma scan_range_append:
  "scan_range env iface net used n (cs @ cs') r =
     scan_range env iface net used n cs' (scan_range env iface net used n cs r)"
proof (induction env iface net used n cs r rule: scan_range.induct)
  case (2 env iface net used n c cs res av)
  show ?case
  proof (cases "length res < n")
    case True
    with 2 show ?thesis by (simp add: Let_def split: prod.splits)
  next
    case False
    then have "scan_range env iface net used n cs' (res, av) = (res, av)"
      by (cases cs') simp_all
    with False show ?thesis by simp
  qed
qed simp

lemma ProbeIP_avail: "ProbeIP env iface a av = (t, av') \<Longrightarrow> av' \<Longrightarrow> av"
  by (auto simp: ProbeIP_def split: if_splits arp_dial.splits)

lemma scan_range_result:
  assumes "scan_range env iface net used n cs (res, av) = (res', av')" and "length res \<le> n"
  shows "\<exists>ks. subseq ks cs \<and> res' = res @ map (candidate (net_ip net)) ks \<and> length res' \<le> n \<and> (av' \<longrightarrow> av) \<and>
    (\<forall>c \<in> set ks. acceptable env iface net used c \<and>
       (av' \<longrightarrow> \<not> fst (ProbeIP env iface (candidate (net_ip net) c) True)))"
  using assms
proof (induction cs arbitrary: res av)
  case Nil
  then show ?case by auto
next
  case (Cons c cs)
  let ?a = "candidate (net_ip net) c"
  show ?case
  proof (cases "length res < n \<and> acceptable env iface net used c")
    case False
    then have "length res < n \<Longrightarrow> scan_range env iface net used n cs (res, av) = (res', av')"
      using Cons.prems(1) by (simp add: acceptable_def Let_def split: if_splits)
    then consider "res' = res" "av' = av" | "scan_range env iface net used n cs (res, av) = (res', av')"
      using Cons.prems(1) by (cases "length res < n") auto
    then show ?thesis
    proof cases
      case 1
      then show ?thesis using Cons.prems(2) by (auto intro: exI [of _ "[]"])
    next
      case 2
      from Cons.IH [OF this Cons.prems(2)] show ?thesis by blast
    qed
  next
    case True
    obtain t av1 where p: "ProbeIP env iface ?a av = (t, av1)" by (cases "ProbeIP env iface ?a av")
    with True Cons.prems
    have s: "scan_range env iface net used n cs (if t then res else res @ [?a], av1) = (res', av')"
      by (simp add: acceptable_def Let_def)
    have l: "length (if t then res else res @ [?a]) \<le> n" using True by simp
    from Cons.IH [OF s l] obtain ks where ks: "subseq ks cs"
        "res' = (if t then res else res @ [?a]) @ map (candidate (net_ip net)) ks" "length res' \<le> n"
        "av' \<longrightarrow> av1"
        "\<forall>c \<in> set ks. acceptable env iface net used c \<and>
           (av' \<longrightarrow> \<not> fst (ProbeIP env iface (candidate (net_ip net) c) True))" by blast
    have av: "av' \<longrightarrow> av" using ks(4) ProbeIP_avail [OF p] by blast
    show ?thesis
    proof (cases t)
      case True
      with ks av show ?thesis by (intro exI [of _ ks]) auto
    next
      case False
      have "av' \<longrightarrow> \<not> fst (ProbeIP env iface ?a True)"
        using p False av by auto
      with ks av False True show ?thesis by (intro exI [of _ "c # ks"]) auto
    qed
  qed
qed

lemma scan_range_free:
  assumes "\<And>a. \<not> fst (ProbeIP env iface a av)" and "\<And>a. snd (ProbeIP env iface a av) = av"
    and "length res \<le> n"
  shows "scan_range env iface net used n cs (res, av) =
     (res @ take (n - length res) (map (candidate (net_ip net)) (filter (acceptable env iface net used) cs)), av)"
  using assms(3)
proof (induction cs arbitrary: res)
  case Nil
  then show ?case by simp
next
  case (Cons c cs)
  have p: "ProbeIP env iface a av = (False, av)" for a
    using assms(1,2) [of a] by (cases "ProbeIP env iface a av") auto
  show ?case
  proof (cases "length res < n \<and> acceptable env iface net used c")
    case False
    then show ?thesis
      using Cons by (cases "length res < n") (auto simp: acceptable_def Let_def)
  next
    case True
    then have "n - length res = Suc (n - Suc (length res))" by linarith
    with True Cons.IH [of "res @ [candidate (net_ip net) c]"] show ?thesis
      by (auto simp: acceptable_def Let_def p)
  qed
qed

definition scan_order :: "nat list" where
  "scan_order = [200..<255] @ [150..<200]"

lemma scan_order_facts: "distinct scan_order" "set scan_order = {150..<255}"
proof -
  show "set scan_order = {150..<255}"
    unfolding scan_order_def set_append set_upt by auto
  have "{200::nat..<255} \<inter> {150..<200} = {}" by auto
  then show "distinct scan_order"
    unfolding scan_order_def distinct_append set_upt by (simp del: upt_rec_numeral)
qed

lemma FindUnusedIPs_scan:
  "FindUnusedIPs env iface net n os av =
     (let (res, av') = scan_range env iface net (getKnownUsedIPs env os) n scan_order ([], av)
      in (if length res < n then Inl (OnlyFound (length res) n) else Inr res, av'))"
  by (simp only: FindUnusedIPs_def scan_order_def scan_range_append Let_def split: prod.splits) simp

lemma candidate_inj: "inj_on (candidate base) {..<256}"
proof (rule inj_onI)
  fix x y :: nat
  assume "x \<in> {..<256}" "y \<in> {..<256}" "candidate base x = candidate base y"
  then have "unat (word_of_nat x :: 8 word) = unat (word_of_nat y :: 8 word)" "x < 256" "y < 256"
    by (simp_all add: candidate_def)
  then show "x = y" by (simp add: unat_of_nat)
qed

lemma subseq_distinct_lemma: "subseq xs ys \<Longrightarrow> distinct ys \<Longrightarrow> distinct xs"
  by (metis distinct_nthsI subseq_conv_nths)

lemma FindUnusedIPs_sound:
  assumes "FindUnusedIPs env iface net n os av = (Inr ips, av')"
  shows "length ips = n" and "distinct ips"
    and "\<forall>a \<in> set ips. subnet_contains net a \<and> show_ipv4 a \<notin> set (getKnownUsedIPs env os) \<and>
      (av' \<longrightarrow> \<not> fst (ProbeIP env iface a True)) \<and> (\<exists>c. 150 \<le> c \<and> c < 255 \<and> a = candidate (net_ip net) c)"
proof -
  obtain res where r: "scan_range env iface net (getKnownUsedIPs env os) n scan_order ([], av) = (res, av')"
    and i: "\<not> length res < n" "ips = res"
    using assms by (auto simp: FindUnusedIPs_scan split: prod.splits if_splits)
  from scan_range_result [OF r] i obtain ks where ks: "subseq ks scan_order"
      "ips = map (candidate (net_ip net)) ks" "length ips \<le> n"
      "\<forall>c \<in> set ks. acceptable env iface net (getKnownUsedIPs env os) c \<and>
         (av' \<longrightarrow> \<not> fst (ProbeIP env iface (candidate (net_ip net) c) True))" by auto
  show "length ips = n" using ks(3) i by simp
  have sub: "set ks \<subseteq> {150..<255}" and d: "distinct ks"
    using ks(1) [THEN subseq_conv_nths [THEN iffD1]] set_nths_subset subseq_distinct_lemma [OF ks(1)] scan_order_facts by auto
  have "inj_on (candidate (net_ip net)) (set ks)"
    by (rule inj_on_subset [OF candidate_inj]) (use sub in auto)
  with d ks(2) show "distinct ips" by (simp add: distinct_map)
  show "\<forall>a \<in> set ips. subnet_contains net a \<and> show_ipv4 a \<notin> set (getKnownUsedIPs env os) \<and>
      (av' \<longrightarrow> \<not> fst (ProbeIP env iface a True)) \<and> (\<exists>c. 150 \<le> c \<and> c < 255 \<and> a = candidate (net_ip net) c)"
    using ks(2,4) sub by (fastforce simp: acceptable_def)
qed


section \<open>LAN mode\<close>

definition n_auto :: "'os net_env \<Rightarrow> ipnet \<Rightarrow> device list \<Rightarrow> nat" where
  "n_auto env net ds = length (filter (\<lambda>d. needsAutoIP env (d_IP d) net) ds)"

fun assign_ips :: "'os net_env \<Rightarrow> ipnet \<Rightarrow> ipv4 list \<Rightarrow> device list \<Rightarrow> device list" where
  \<comment> \<open>what the loop does to the devices: the n-th device in need gets the n-th address\<close>
  "assign_ips env net autos [] = []"
| "assign_ips env net autos (d # ds) =
     (if needsAutoIP env (d_IP d) net
      then d\<lparr>d_IP := show_ipv4 (hd autos)\<rparr> # assign_ips env net (tl autos) ds
      else d # assign_ips env net autos ds)"

lemma lan_loop_result:
  assumes "lan_loop env info autos ds os = (r, os')" and "n_auto env (info_Subnet info) ds \<le> length autos"
  shows "case r of Inl e \<Rightarrow> (\<exists>ip. e = AddIPFailed ip) | Inr ds' \<Rightarrow> ds' = assign_ips env (info_Subnet info) autos ds"
  using assms
proof (induction ds arbitrary: autos os r os')
  case Nil
  then show ?case by auto
next
  case (Cons d ds)
  let ?need = "needsAutoIP env (d_IP d) (info_Subnet info)"
  let ?d1 = "if ?need then d\<lparr>d_IP := show_ipv4 (hd autos)\<rparr> else d"
  let ?rest = "if ?need then tl autos else autos"
  have np: "\<not> (?need \<and> autos = [])" and n: "n_auto env (info_Subnet info) ds \<le> length ?rest"
    using Cons.prems(2) by (auto simp: n_auto_def split: if_splits)
  have "(\<exists>ip os1. (r, os') = (Inl (AddIPFailed ip), os1)) \<or>
      (\<exists>os1. (r, os') = (case lan_loop env info ?rest ds os1 of
         (Inl e, os2) \<Rightarrow> (Inl e, os2) | (Inr ds', os2) \<Rightarrow> (Inr (?d1 # ds'), os2)))"
  proof (cases "isLocalIP env (d_IP ?d1) os")
    case True
    then show ?thesis
      using Cons.prems(1) np by (intro disjI2 exI [of _ os]) (simp add: Let_def)
  next
    case False
    show ?thesis
    proof (cases "AddIPToInterface env (info_Name info) (d_IP ?d1) (mask_ones (net_mask (info_Subnet info))) os")
      case (Pair e os1)
      show ?thesis
      proof (cases e)
        case None
        let ?os2 = "AnnounceIP env (info_Name info) (d_IP ?d1) (if goos env = Darwin
          then snd (run_cmd env ''ifconfig'' [''lo0'', ''alias'', d_IP ?d1] os1) else os1)"
        show ?thesis
          using Cons.prems(1) np False Pair None
          by (intro disjI2 exI [of _ ?os2]) (simp add: Let_def)
      next
        case (Some err)
        then show ?thesis
          using Cons.prems(1) np False Pair
          by (intro disjI1 exI [of _ "d_IP ?d1"] exI [of _ os1]) (simp add: Let_def)
      qed
    qed
  qed
  then show ?case
  proof (elim disjE exE)
    fix os1
    assume r: "(r, os') = (case lan_loop env info ?rest ds os1 of
         (Inl e, os2) \<Rightarrow> (Inl e, os2) | (Inr ds', os2) \<Rightarrow> (Inr (?d1 # ds'), os2))"
    obtain r1 os2 where l: "lan_loop env info ?rest ds os1 = (r1, os2)" by fastforce
    from Cons.IH [OF l n] r l show ?thesis by (auto split: sum.splits)
  qed auto
qed

lemma length_assign_ips [simp]: "length (assign_ips env net autos ds) = length ds"
  by (induction env net autos ds rule: assign_ips.induct) auto

lemma assign_ips_nth:
  assumes "n_auto env net ds \<le> length autos" and "i < length ds"
  shows "\<exists>ip. assign_ips env net autos ds ! i = (ds ! i)\<lparr>d_IP := ip\<rparr> \<and>
     (if needsAutoIP env (d_IP (ds ! i)) net then \<exists>a \<in> set autos. ip = show_ipv4 a else ip = d_IP (ds ! i))"
  using assms
proof (induction env net autos ds arbitrary: i rule: assign_ips.induct)
  case (2 env net autos d ds)
  show ?case
  proof (cases "needsAutoIP env (d_IP d) net")
    case True
    then have a: "autos \<noteq> []" "n_auto env net ds \<le> length (tl autos)" using 2 by (auto simp: n_auto_def)
    show ?thesis
    proof (cases i)
      case 0
      with True a show ?thesis by (auto intro!: exI [of _ "show_ipv4 (hd autos)"])
    next
      case (Suc j)
      with 2 True a show ?thesis by (fastforce dest: list.set_sel(2))
    qed
  next
    case False
    then have "n_auto env net ds \<le> length autos" using 2 by (auto simp: n_auto_def)
    show ?thesis
    proof (cases i)
      case (Suc j)
      with 2(2) [OF False _ , of j] 2(4) \<open>n_auto env net ds \<le> length autos\<close> False
      show ?thesis unfolding Suc nth_Cons_Suc by (simp split del: if_split)
    qed (use False in auto)
  qed
qed simp

lemma assign_ips_auto:
  assumes "n_auto env net ds = length autos" 
  shows "map d_IP (map fst (filter (\<lambda>(d', d). needsAutoIP env (d_IP d) net) (zip (assign_ips env net autos ds) ds)))
     = map show_ipv4 autos"
  using assms
proof (induction env net autos ds rule: assign_ips.induct)
  case (2 env net autos d ds)
  then show ?case by (cases autos) (auto simp: n_auto_def)
qed (simp add: n_auto_def)

lemma SetupLANIPs_sound:
  assumes "SetupLANIPs env ds iface os av = (Inr (info, ds'), os', av')"
  shows "\<exists>autos. length autos = n_auto env (info_Subnet info) ds \<and> distinct autos \<and>
      ds' = assign_ips env (info_Subnet info) autos ds \<and>
      (\<forall>a \<in> set autos. subnet_contains (info_Subnet info) a \<and> show_ipv4 a \<notin> set (getKnownUsedIPs env os))"
proof -
  have det: "DetectPrimaryInterface env iface os = Inr info"
    using assms by (auto simp: SetupLANIPs_def Let_def split: sum.splits prod.splits)
  let ?n = "n_auto env (info_Subnet info) ds"
  obtain autos os1 where a: "if ?n > 0 then \<exists>av1. FindUnusedIPs env (info_Name info) (info_Subnet info) ?n os av = (Inr autos, av1)
        else autos = []"
    and l: "lan_loop env info autos ds os = (Inr ds', os1)"
    using assms det
    by (auto simp: SetupLANIPs_def Let_def n_auto_def split: sum.splits prod.splits if_splits)
  have "length autos = ?n \<and> distinct autos \<and>
     (\<forall>a \<in> set autos. subnet_contains (info_Subnet info) a \<and> show_ipv4 a \<notin> set (getKnownUsedIPs env os))"
    using a FindUnusedIPs_sound by (fastforce split: if_splits)
  with lan_loop_result [OF l] show ?thesis by auto
qed

lemma SetupLANIPs_no_panic: "fst (SetupLANIPs env ds iface os av) \<noteq> Inl IndexPanic"
proof
  assume "fst (SetupLANIPs env ds iface os av) = Inl IndexPanic"
  then obtain os' av' where s: "SetupLANIPs env ds iface os av = (Inl IndexPanic, os', av')"
    by (cases "SetupLANIPs env ds iface os av") auto
  obtain info where det: "DetectPrimaryInterface env iface os = Inr info"
    using s by (auto simp: SetupLANIPs_def DetectPrimaryInterface_def split: sum.splits option.splits)
  let ?n = "n_auto env (info_Subnet info) ds"
  obtain autos os1 where a: "if ?n > 0 then \<exists>av1. FindUnusedIPs env (info_Name info) (info_Subnet info) ?n os av = (Inr autos, av1)
        else autos = []"
    and l: "lan_loop env info autos ds os = (Inl IndexPanic, os1)"
    using s det
    by (auto simp: SetupLANIPs_def Let_def n_auto_def FindUnusedIPs_scan split: sum.splits prod.splits if_splits)
  have "?n \<le> length autos"
    using a FindUnusedIPs_sound(1) by (fastforce split: if_splits)
  with lan_loop_result [OF l] show False by simp
qed


section \<open>A concrete host\<close>

text \<open>
  A Linux host with one interface, \<^verbatim>\<open>eth0\<close> at 192.168.1.5/24, no raw sockets and
  an empty ARP cache: its state is the list of addresses it holds; \<^verbatim>\<open>ip addr add\<close>
  refuses an address that is there and \<^verbatim>\<open>ip addr del\<close> one that is not (the prefix
  is part of the address there).
\<close>

definition lan_net :: ipnet where
  "lan_net = \<lparr>net_ip = IPv4 192 168 1 5, net_mask = IPv4 255 255 255 0\<rparr>"

definition host_run :: "string \<Rightarrow> string list \<Rightarrow> (string \<times> string) list \<Rightarrow> bool \<times> (string \<times> string) list" where
  "host_run cmd args os =
     (case args of
        [a, op, cidr, d, dev] \<Rightarrow>
          (if op = ''add'' then (if (cidr, dev) \<in> set os then (False, os) else (True, os @ [(cidr, dev)]))
           else if op = ''del'' then (if (cidr, dev) \<in> set os then (True, remove_first (\<lambda>x. x = (cidr, dev)) os)
                                      else (False, os))
           else (True, os))
      | _ \<Rightarrow> (True, os))"

definition host_addrs :: "(string \<times> string) list \<Rightarrow> ifaddr list" where
  "host_addrs os = IfNet (net_ip lan_net) (net_mask lan_net) #
     List.map_filter (\<lambda>(cidr, dev).
       map_option (\<lambda>a. IfNet a (cidr_mask (dec_value (tl (dropWhile (\<lambda>c. c \<noteq> CHR ''/'') cidr)))))
         (parse_ipv4 (takeWhile (\<lambda>c. c \<noteq> CHR ''/'') cidr))) os"

definition linux_host :: "(string \<times> string) list net_env" where
  "linux_host = \<lparr>goos = Linux, run_cmd = host_run, output_cmd = (\<lambda>_ _ _. None),
     if_addrs = (\<lambda>os. Some (host_addrs os)),
     iface_addrs = (\<lambda>n os. if n = ''eth0'' then Some [IfNet (net_ip lan_net) (net_mask lan_net)] else None),
     route_polls = (\<lambda>_. []), arp_dial_of = (\<lambda>_ _. DialError), parse_v6 = (\<lambda>_. None)\<rparr>"

definition dev_at :: "string \<Rightarrow> string \<Rightarrow> device" where
  "dev_at h ip = empty_device\<lparr>d_Hostname := h, d_IP := ip\<rparr>"


section \<open>Properties\<close>

text \<open>
  A successful \<^verbatim>\<open>FindUnusedIPs\<close> returns exactly the number of addresses asked
  for, without repetition, all inside the subnet with a last octet between 150 and 254, none of
  them known to be used (a local address or in the ARP cache) and, when probing was available
  throughout, none of them answering an ARP probe.
\<close>

theorem FindUnusedIPs_spec:
  assumes "FindUnusedIPs env iface net n os av = (Inr ips, av')"
  shows "length ips = n \<and> distinct ips \<and>
    (\<forall>a \<in> set ips. subnet_contains net a \<and> show_ipv4 a \<notin> set (getKnownUsedIPs env os) \<and>
      (av' \<longrightarrow> \<not> fst (ProbeIP env iface a True)) \<and> 150 \<le> unat (oct_d a) \<and> unat (oct_d a) < 255)"
proof -
  have "unat (oct_d (candidate b c)) = c" if "c < 255" for b c
    using that by (simp add: candidate_def unat_of_nat)
  with FindUnusedIPs_sound [OF assms] show ?thesis by fastforce
qed

theorem FindUnusedIPs_spec_witness:
  "show_ipv4 (IPv4 192 168 1 201) \<notin> set (getKnownUsedIPs linux_host [(''192.168.1.200/24'', ''eth0'')])"
proof -
  have "FindUnusedIPs linux_host ''eth0'' lan_net 1 [(''192.168.1.200/24'', ''eth0'')] True =
      (Inr [IPv4 192 168 1 201], False)" by code_simp
  from FindUnusedIPs_spec [OF this] show ?thesis by simp
qed

text \<open>
  Without raw sockets the search is exact: it returns the first addresses, in the order
  200 to 254 and then 150 to 199, that lie in the subnet and are not known to be used, and
  fails, saying how many there are, only when there are fewer than asked for.
\<close>

theorem FindUnusedIPs_without_raw_sockets:
  "FindUnusedIPs env iface net n os False =
     (let free = map (candidate (net_ip net)) (filter (acceptable env iface net (getKnownUsedIPs env os)) scan_order)
      in (if length free < n then Inl (OnlyFound (length free) n) else Inr (take n free), False))"
  by (simp add: FindUnusedIPs_scan scan_range_free ProbeIP_def Let_def)



text \<open>
  \<^verbatim>\<open>SetupLANIPs\<close> never indexes past the addresses it found, whatever the
  commands, the interface table and the ARP traffic do: the run-time panic of
  \<^verbatim>\<open>autoIPs[autoIdx]\<close> is no possible outcome.
\<close>

theorem SetupLANIPs_index_in_range: "fst (SetupLANIPs env ds iface os av) \<noteq> Inl IndexPanic"
  by (rule SetupLANIPs_no_panic)

text \<open>
  The address search does not know the addresses the other devices of the same run are
  configured with: on a fresh host, a device without address and a second one configured with
  192.168.1.200 both end up with 192.168.1.200, and the second is reported as
  already existing.
\<close>

theorem SetupLANIPs_same_address_twice:
  "SetupLANIPs linux_host [dev_at ''A'' ''auto'', dev_at ''B'' ''192.168.1.200''] ''eth0'' [] True =
     (Inr (\<lparr>info_Name = ''eth0'', info_IP = IPv4 192 168 1 5, info_Subnet = lan_net\<rparr>,
       [dev_at ''A'' ''192.168.1.200'', dev_at ''B'' ''192.168.1.200'']),
      [(''192.168.1.200/24'', ''eth0'')], False)"
  by code_simp

text \<open>
  On Linux the aliases of a physical interface are added with the prefix length of the
  subnet and removed with prefix 32: on a host that takes the prefix as part of the
  address (as the kernel does when it looks for the address to delete) \<^verbatim>\<open>TeardownLANIPs\<close> leaves what \<^verbatim>\<open>SetupLANIPs\<close> added.
\<close>

theorem LAN_teardown_leaves_alias:
  "TeardownLANIPs linux_host ''eth0'' [dev_at ''A'' ''192.168.1.200'']
     (fst (snd (SetupLANIPs linux_host [dev_at ''A'' ''192.168.1.200''] ''eth0'' [] True)))
   = [(''192.168.1.200/24'', ''eth0'')]"
  by code_simp

end
