(* ===== verification/Simulator.thy ===== *)
theory Simulator
  imports Config Network
begin

text \<open>
  \<^verbatim>\<open>internal/simulator/simulator.go\<close>: the set of running sites, their protocol
  servers, and the operations that change them, with the persistence of every change. The
  state is one record: the fields of \<^verbatim>\<open>Simulator\<close>, the file system, the operating
  system's addresses and the server groups that are listening. Each operation is the
  code's critical section (or sequence of them) as a state transformer.
\<close>

section \<open>State\<close>

record 'os machine =
  m_devices :: "device list"
  m_handles :: "(string \<times> nat) list"      \<comment> \<open>the map keyed by device address\<close>
  m_auth :: auth
  m_tmplText :: string
  m_statePath :: string
  m_seedPath :: string
  m_lan :: bool
  m_iface :: string
  m_servers :: "(nat \<times> string) list"      \<comment> \<open>handles not stopped yet, with the address they serve\<close>
  m_next :: nat                          \<comment> \<open>the next handle\<close>
  m_panic :: "panic option"
  m_fs :: fs
  m_os :: 'os
  m_probe :: bool                        \<comment> \<open>\<^verbatim>\<open>network.probeAvailable\<close>\<close>

record 'os sim_env =
  e_net :: "'os net_env"
  e_render :: render_env
  e_yaml :: yaml

record options =
  o_StatePath :: string
  o_SeedPath :: string
  o_LAN :: bool
  o_Iface :: string

datatype sim_error =
    HostnameRequired | IPRequired | DeviceExists string | DeviceNotFound string
  | AliasFailed string net_error | APNotFound string string | DefaultAPLocked string
  | ClientNotFound string string | TargetAPNotFound string string
  | NoSeed | SeedFailed conf_error | SetupFailed net_error | ConfigFailed conf_error | DeleteFailed fs_error

definition NewSimulator :: "config \<Rightarrow> string \<Rightarrow> options \<Rightarrow> fs \<Rightarrow> 'os \<Rightarrow> bool \<Rightarrow> 'os machine" where
  "NewSimulator cfg tmplText opts s os probe =
     \<lparr>m_devices = cfg_Devices cfg, m_handles = [], m_auth = cfg_Auth cfg, m_tmplText = tmplText,
      m_statePath = o_StatePath opts, m_seedPath = o_SeedPath opts, m_lan = o_LAN opts,
      m_iface = o_Iface opts, m_servers = [], m_next = 0, m_panic = None, m_fs = s, m_os = os,
      m_probe = probe\<rparr>"

definition Devices :: "'os machine \<Rightarrow> device list" where
  "Devices m = m_devices m"

definition Auth :: "'os machine \<Rightarrow> auth" where
  "Auth m = m_auth m"

section \<open>Server handles\<close>

definition startDeviceServers :: "device \<Rightarrow> 'os machine \<Rightarrow> nat \<times> 'os machine" where
  "startDeviceServers d m =
     (m_next m, m\<lparr>m_servers := (m_next m, d_IP d) # m_servers m, m_next := Suc (m_next m)\<rparr>)"

definition stopHandle :: "nat \<Rightarrow> 'os machine \<Rightarrow> 'os machine" where
  \<comment> \<open>closing the stop channel twice panics; otherwise the three servers return\<close>
  "stopHandle h m =
     (if h \<in> fst ` set (m_servers m)
      then m\<lparr>m_servers := filter (\<lambda>s. fst s \<noteq> h) (m_servers m)\<rparr>
      else m\<lparr>m_panic := Some CloseOfClosedChannel\<rparr>)"

definition start_device :: "device \<Rightarrow> 'os machine \<Rightarrow> 'os machine" where
  \<comment> \<open>\<^verbatim>\<open>s.handles[dev.IP] = s.startDeviceServers(dev)\<close>\<close>
  "start_device d m = (let (h, m1) = startDeviceServers d m in m1\<lparr>m_handles := upsert (d_IP d) h (m_handles m1)\<rparr>)"

definition StartAll :: "'os machine \<Rightarrow> 'os machine" where
  "StartAll m = fold start_device (m_devices m) m"

section \<open>Persistence\<close>

definition snapshotLocked :: "'os machine \<Rightarrow> config" where
  "snapshotLocked m = \<lparr>cfg_Auth = m_auth m, cfg_Devices = m_devices m, cfg_TmplText = m_tmplText m\<rparr>"

definition Snapshot :: "'os machine \<Rightarrow> config" where
  "Snapshot m = snapshotLocked m"

definition ExportYAML :: "'os sim_env \<Rightarrow> 'os machine \<Rightarrow> conf_error + string" where
  "ExportYAML env m = Marshal (e_yaml env) (Snapshot m)"

definition save :: "'os sim_env \<Rightarrow> 'os machine \<Rightarrow> sim_error option \<times> 'os machine" where
  "save env m =
     (if m_statePath m = [] then (None, m)
      else (let (e, s) = Save (e_yaml env) (m_statePath m) (Snapshot m) (m_fs m)
            in (map_option ConfigFailed e, m\<lparr>m_fs := s\<rparr>)))"

definition saveLocked :: "'os sim_env \<Rightarrow> 'os machine \<Rightarrow> 'os machine" where
  "saveLocked env m =
     (if m_statePath m = [] then m
      else m\<lparr>m_fs := snd (Save (e_yaml env) (m_statePath m) (snapshotLocked m) (m_fs m))\<rparr>)"

definition deleteState :: "'os machine \<Rightarrow> sim_error option \<times> 'os machine" where
  "deleteState m =
     (if m_statePath m = [] then (None, m)
      else (let (e, s) = Remove (m_statePath m) (m_fs m)
            in (case e of
                  Some NotExist \<Rightarrow> None
                | Some IOFault \<Rightarrow> Some (DeleteFailed IOFault)
                | None \<Rightarrow> None, m\<lparr>m_fs := s\<rparr>)))"

section \<open>Operations on one site\<close>

definition named :: "string \<Rightarrow> ap \<Rightarrow> bool" where
  "named n a \<longleftrightarrow> ap_Name a = n"

definition at :: "string \<Rightarrow> device \<Rightarrow> bool" where
  "at ip d \<longleftrightarrow> d_IP d = ip"

definition has_mac :: "string \<Rightarrow> client \<Rightarrow> bool" where
  "has_mac mac c \<longleftrightarrow> c_MAC c = mac"

definition carries :: "string \<Rightarrow> ap \<Rightarrow> bool" where
  "carries mac a \<longleftrightarrow> list_ex (has_mac mac) (ap_Clients a)"

definition init_config :: "'os sim_env \<Rightarrow> 'os machine \<Rightarrow> device \<Rightarrow> device" where
  "init_config env m d = InitConfig (e_render env) (m_tmplText m) d"

definition on_device :: "'os sim_env \<Rightarrow> string \<Rightarrow> (device \<Rightarrow> sim_error option \<times> device) \<Rightarrow> 'os machine \<Rightarrow>
    sim_error option \<times> 'os machine" where
  \<comment> \<open>the frame of the site operations: the first device with the address is changed in place;
     on success its configuration is rendered again and the state saved, on an error
     whatever the body did to it stays\<close>
  "on_device env ip body m =
     (case find (at ip) (m_devices m) of
        None \<Rightarrow> (Some (DeviceNotFound ip), m)
      | Some d \<Rightarrow>
          (case body d of
             (Some e, d') \<Rightarrow> (Some e, m\<lparr>m_devices := update_first (at ip) (\<lambda>_. d') (m_devices m)\<rparr>)
           | (None, d') \<Rightarrow>
               (None, saveLocked env
                  (m\<lparr>m_devices := update_first (at ip) (\<lambda>_. init_config env m d') (m_devices m)\<rparr>))))"

definition add_ap :: "ap \<Rightarrow> device \<Rightarrow> sim_error option \<times> device" where
  "add_ap a d = (None, d\<lparr>d_APs := d_APs d @ [a]\<rparr>)"

definition AddAP :: "'os sim_env \<Rightarrow> string \<Rightarrow> ap \<Rightarrow> 'os machine \<Rightarrow> sim_error option \<times> 'os machine" where
  "AddAP env ip a = on_device env ip (add_ap a)"

definition remove_ap :: "string \<Rightarrow> string \<Rightarrow> device \<Rightarrow> sim_error option \<times> device" where
  "remove_ap ip name d =
     (case find (named name) (d_APs d) of
        None \<Rightarrow> (Some (APNotFound name ip), d)
      | Some a \<Rightarrow> if ap_Default a then (Some (DefaultAPLocked name), d)
                  else (None, d\<lparr>d_APs := remove_first (named name) (d_APs d)\<rparr>))"

definition RemoveAP :: "'os sim_env \<Rightarrow> string \<Rightarrow> string \<Rightarrow> 'os machine \<Rightarrow> sim_error option \<times> 'os machine" where
  "RemoveAP env ip name = on_device env ip (remove_ap ip name)"

definition drop_client :: "string \<Rightarrow> ap \<Rightarrow> ap" where
  "drop_client mac a = a\<lparr>ap_Clients := remove_first (has_mac mac) (ap_Clients a)\<rparr>"

definition remove_client :: "string \<Rightarrow> string \<Rightarrow> device \<Rightarrow> sim_error option \<times> device" where
  "remove_client ip mac d =
     (if list_ex (carries mac) (d_APs d)
      then (None, d\<lparr>d_APs := update_first (carries mac) (drop_client mac) (d_APs d)\<rparr>)
      else (Some (ClientNotFound mac ip), d))"

definition RemoveClient :: "'os sim_env \<Rightarrow> string \<Rightarrow> string \<Rightarrow> 'os machine \<Rightarrow> sim_error option \<times> 'os machine" where
  "RemoveClient env ip mac = on_device env ip (remove_client ip mac)"

definition append_client :: "client \<Rightarrow> ap \<Rightarrow> ap" where
  "append_client c a = a\<lparr>ap_Clients := ap_Clients a @ [c]\<rparr>"

definition add_client :: "string \<Rightarrow> string \<Rightarrow> client \<Rightarrow> device \<Rightarrow> sim_error option \<times> device" where
  "add_client ip name c d =
     (if list_ex (named name) (d_APs d)
      then (None, d\<lparr>d_APs := update_first (named name) (append_client c) (d_APs d)\<rparr>)
      else (Some (APNotFound name ip), d))"

definition AddClient :: "'os sim_env \<Rightarrow> string \<Rightarrow> string \<Rightarrow> client \<Rightarrow> 'os machine \<Rightarrow> sim_error option \<times> 'os machine" where
  "AddClient env ip name c = on_device env ip (add_client ip name c)"

definition set_ssids :: "string \<Rightarrow> string \<Rightarrow> string list \<Rightarrow> device \<Rightarrow> sim_error option \<times> device" where
  "set_ssids ip name ssids d =
     (if list_ex (named name) (d_APs d)
      then (None, d\<lparr>d_APs := update_first (named name) (\<lambda>a. a\<lparr>ap_SSIDs := ssids\<rparr>) (d_APs d)\<rparr>)
      else (Some (APNotFound name ip), d))"

definition UpdateAPSSIDs :: "'os sim_env \<Rightarrow> string \<Rightarrow> string \<Rightarrow> string list \<Rightarrow> 'os machine \<Rightarrow> sim_error option \<times> 'os machine" where
  "UpdateAPSSIDs env ip name ssids = on_device env ip (set_ssids ip name ssids)"

fun take_client :: "string \<Rightarrow> ap list \<Rightarrow> client option \<times> ap list" where
  \<comment> \<open>the first loop of \<^verbatim>\<open>UpdateClient\<close>: the client is taken out of its access point\<close>
  "take_client mac [] = (None, [])"
| "take_client mac (a # as) =
     (case find (has_mac mac) (ap_Clients a) of
        Some c \<Rightarrow> (Some c, drop_client mac a # as)
      | None \<Rightarrow> (let (r, as') = take_client mac as in (r, a # as')))"

definition move_client :: "string \<Rightarrow> string \<Rightarrow> string \<Rightarrow> string \<Rightarrow> device \<Rightarrow> sim_error option \<times> device" where
  "move_client ip mac newAP newSSID d =
     (case take_client mac (d_APs d) of
        (None, as) \<Rightarrow> (Some (ClientNotFound mac ip), d)
      | (Some c, as) \<Rightarrow>
          (let c1 = (if newSSID \<noteq> [] then c\<lparr>c_SSID := newSSID\<rparr> else c)
           in if list_ex (named newAP) as
              then (None, d\<lparr>d_APs := update_first (named newAP) (append_client c1) as\<rparr>)
              else (Some (TargetAPNotFound newAP ip), d\<lparr>d_APs := as\<rparr>)))"

definition UpdateClient :: "'os sim_env \<Rightarrow> string \<Rightarrow> string \<Rightarrow> string \<Rightarrow> string \<Rightarrow> 'os machine \<Rightarrow> sim_error option \<times> 'os machine" where
  "UpdateClient env ip mac newAP newSSID = on_device env ip (move_client ip mac newAP newSSID)"

section \<open>Adding and removing a site\<close>

text \<open>
  \<^verbatim>\<open>AddDevice\<close> checks for a duplicate under the read lock, adds the alias
  without a lock and publishes the device under the write lock: three steps, that another
  operation can come between. \<^verbatim>\<open>RemoveDevice\<close> unpublishes under the lock, then
  stops the servers and removes the alias.
\<close>

definition add_check :: "'os sim_env \<Rightarrow> int \<Rightarrow> device \<Rightarrow> 'os machine \<Rightarrow> sim_error + device" where
  "add_check env now dev m =
     (let d = port_defaults dev
      in if d_Hostname d = [] then Inl HostnameRequired
         else if d_IP d = [] then Inl IPRequired
         else if list_ex (at (d_IP d)) (m_devices m) then Inl (DeviceExists (d_IP d))
         else Inr (init_config env m ((EnsureDefaultAP d)\<lparr>d_StartTime := now\<rparr>)))"

definition add_alias :: "'os sim_env \<Rightarrow> device \<Rightarrow> 'os machine \<Rightarrow> sim_error option \<times> 'os machine" where
  "add_alias env d m =
     (let (e, os) = AddIP (e_net env) (d_IP d) (m_os m)
      in (map_option (AliasFailed (d_IP d)) e, m\<lparr>m_os := os\<rparr>))"

definition add_publish :: "'os sim_env \<Rightarrow> device \<Rightarrow> 'os machine \<Rightarrow> 'os machine" where
  "add_publish env d m = saveLocked env (start_device d (m\<lparr>m_devices := m_devices m @ [d]\<rparr>))"

definition AddDevice :: "'os sim_env \<Rightarrow> int \<Rightarrow> device \<Rightarrow> 'os machine \<Rightarrow> sim_error option \<times> 'os machine" where
  "AddDevice env now dev m =
     (case add_check env now dev m of
        Inl e \<Rightarrow> (Some e, m)
      | Inr d \<Rightarrow>
          (case add_alias env d m of
             (Some e, m1) \<Rightarrow> (Some e, m1)
           | (None, m1) \<Rightarrow> (None, add_publish env d m1)))"

definition remove_unpublish :: "'os sim_env \<Rightarrow> string \<Rightarrow> 'os machine \<Rightarrow>
    (sim_error + (device \<times> nat option)) \<times> 'os machine" where
  "remove_unpublish env ip m =
     (case find (at ip) (m_devices m) of
        None \<Rightarrow> (Inl (DeviceNotFound ip), m)
      | Some d \<Rightarrow>
          (Inr (d, map_of (m_handles m) ip),
           saveLocked env
             (m\<lparr>m_devices := remove_first (at ip) (m_devices m),
                m_handles := remove_first (\<lambda>kv. fst kv = ip) (m_handles m)\<rparr>)))"

definition remove_cleanup :: "'os sim_env \<Rightarrow> device \<times> nat option \<Rightarrow> 'os machine \<Rightarrow> 'os machine" where
  "remove_cleanup env dh m =
     (let m1 = (case snd dh of None \<Rightarrow> m | Some h \<Rightarrow> stopHandle h m)
      in m1\<lparr>m_os := snd (RemoveIP (e_net env) (d_IP (fst dh)) (m_os m1))\<rparr>)"

definition RemoveDevice :: "'os sim_env \<Rightarrow> string \<Rightarrow> 'os machine \<Rightarrow> sim_error option \<times> 'os machine" where
  "RemoveDevice env ip m =
     (case remove_unpublish env ip m of
        (Inl e, m1) \<Rightarrow> (Some e, m1)
      | (Inr dh, m1) \<Rightarrow> (None, remove_cleanup env dh m1))"

section \<open>Replacing the whole set\<close>

definition setupIPs :: "'os sim_env \<Rightarrow> device list \<Rightarrow> 'os machine \<Rightarrow> (net_error + device list) \<times> 'os machine" where
  "setupIPs env ds m =
     (if m_lan m
      then (case SetupLANIPs (e_net env) ds (m_iface m) (m_os m) (m_probe m) of
              (Inl e, os, av) \<Rightarrow> (Inl e, m\<lparr>m_os := os, m_probe := av\<rparr>)
            | (Inr (info, ds'), os, av) \<Rightarrow> (Inr ds', m\<lparr>m_os := os, m_probe := av\<rparr>))
      else (case SetupIPs (e_net env) ds (m_os m) of
              (Some e, os) \<Rightarrow> (Inl e, m\<lparr>m_os := os\<rparr>)
            | (None, os) \<Rightarrow> (Inr ds, m\<lparr>m_os := os\<rparr>)))"

definition teardownIPs :: "'os sim_env \<Rightarrow> device list \<Rightarrow> 'os machine \<Rightarrow> 'os machine" where
  "teardownIPs env ds m =
     (if m_lan m then m\<lparr>m_os := TeardownLANIPs (e_net env) (m_iface m) ds (m_os m)\<rparr>
      else m\<lparr>m_os := TeardownIPs (e_net env) ds (m_os m)\<rparr>)"

definition publish :: "'os sim_env \<Rightarrow> int \<Rightarrow> device \<Rightarrow> 'os machine \<Rightarrow> 'os machine" where
  \<comment> \<open>one iteration of the loop that brings up the new set\<close>
  "publish env now dev m =
     (let d = init_config env m (dev\<lparr>d_StartTime := now\<rparr>)
      in start_device d (m\<lparr>m_devices := m_devices m @ [d]\<rparr>))"

definition tear_down :: "'os sim_env \<Rightarrow> auth \<Rightarrow> 'os machine \<Rightarrow> 'os machine" where
  "tear_down env newAuth m =
     (let m1 = fold stopHandle (map snd (m_handles m)) m;
          m2 = teardownIPs env (m_devices m1) m1
      in m2\<lparr>m_devices := [], m_handles := [], m_auth := newAuth\<rparr>)"

definition applyConfig :: "'os sim_env \<Rightarrow> int \<Rightarrow> auth \<Rightarrow> device list \<Rightarrow> 'os machine \<Rightarrow> sim_error option \<times> 'os machine" where
  "applyConfig env now newAuth newDevs m =
     (let m1 = tear_down env newAuth m
      in if newDevs = [] then (None, m1)
         else (case setupIPs env newDevs m1 of
                 (Inl e, m2) \<Rightarrow> (Some (SetupFailed e), m2)
               | (Inr ds, m2) \<Rightarrow> (None, fold (publish env now) ds m2)))"

definition ImportConfig :: "'os sim_env \<Rightarrow> int \<Rightarrow> string \<Rightarrow> 'os machine \<Rightarrow> sim_error option \<times> 'os machine" where
  "ImportConfig env now data m =
     (case ParseYAML (e_yaml env) data of
        Inl e \<Rightarrow> (Some (ConfigFailed e), m)
      | Inr cfg \<Rightarrow>
          (case applyConfig env now (cfg_Auth cfg) (cfg_Devices cfg) m of
             (Some e, m1) \<Rightarrow> (Some e, m1)
           | (None, m1) \<Rightarrow> save env m1))"

definition FactoryReset :: "'os sim_env \<Rightarrow> int \<Rightarrow> 'os machine \<Rightarrow> sim_error option \<times> 'os machine" where
  "FactoryReset env now m =
     (if m_seedPath m = [] then (Some NoSeed, m)
      else (case Load (e_render env) (e_yaml env) (m_seedPath m) (m_fs m) of
              Inl e \<Rightarrow> (Some (SeedFailed e), m)
            | Inr cfg \<Rightarrow>
                (case applyConfig env now (cfg_Auth cfg) (cfg_Devices cfg) m of
                   (Some e, m1) \<Rightarrow> (Some e, m1)
                 | (None, m1) \<Rightarrow> deleteState m1)))"

definition ClearAll :: "'os sim_env \<Rightarrow> int \<Rightarrow> 'os machine \<Rightarrow> sim_error option \<times> 'os machine" where
  "ClearAll env now m =
     (case applyConfig env now (Auth m) [] m of
        (Some e, m1) \<Rightarrow> (Some e, m1)
      | (None, m1) \<Rightarrow> save env m1)"

section \<open>Collections with a key\<close>

text \<open>
  The simulator looks things up by scanning a slice for a key three times over: sites by
  address, access points by name, clients by MAC. The interface says what those scans
  promise: under distinct keys an update changes the entry of that key and no other.
\<close>

locale keyed_items =
  fixes key :: "'a \<Rightarrow> 'k" and items :: "'s \<Rightarrow> 'a list" and put_items :: "'a list \<Rightarrow> 's \<Rightarrow> 's"
  assumes items_put: "items (put_items xs s) = xs"
begin

lemma find_update_first:
  assumes "find (\<lambda>x. key x = k) xs = Some x" and "key y = k"
  shows "find (\<lambda>x. key x = j) (update_first (\<lambda>x. key x = k) (\<lambda>_. y) xs) =
     (if j = k then Some y else find (\<lambda>x. key x = j) xs)"
  using assms by (induction xs) (auto split: if_splits)

lemma lookup_update:
  assumes "find (\<lambda>x. key x = k) (items s) = Some x" and "key y = k"
  shows "find (\<lambda>x. key x = j) (items (put_items (update_first (\<lambda>x. key x = k) (\<lambda>_. y) (items s)) s)) =
     (if j = k then Some y else find (\<lambda>x. key x = j) (items s))"
  using assms by (simp add: items_put find_update_first)

lemma find_remove_first:
  assumes "distinct (map key xs)"
  shows "find (\<lambda>x. key x = j) (remove_first (\<lambda>x. key x = k) xs) =
     (if j = k then None else find (\<lambda>x. key x = j) xs)"
  using assms by (induction xs) (auto simp: find_None_iff image_iff dest: set_remove_first_subset [THEN subsetD])

lemma lookup_remove:
  assumes "distinct (map key (items s))"
  shows "find (\<lambda>x. key x = j) (items (put_items (remove_first (\<lambda>x. key x = k) (items s)) s)) =
     (if j = k then None else find (\<lambda>x. key x = j) (items s))"
  using assms by (simp add: items_put find_remove_first)

lemma lookup_append:
  assumes "key y \<notin> key ` set (items s)"
  shows "find (\<lambda>x. key x = j) (items (put_items (items s @ [y]) s)) =
     (if j = key y then Some y else find (\<lambda>x. key x = j) (items s))"
proof (cases "j = key y")
  case True
  then have "find (\<lambda>x. key x = j) (items s) = None"
    using assms by (auto simp: find_None_iff image_iff)
  with True show ?thesis by (simp add: items_put find_append)
next
  case False
  then show ?thesis by (simp add: items_put find_append split: option.split)
qed

lemma distinct_update:
  assumes "distinct (map key (items s))" and "key y = k"
  shows "distinct (map key (items (put_items (update_first (\<lambda>x. key x = k) (\<lambda>_. y) (items s)) s)))"
proof -
  have "map key (update_first (\<lambda>x. key x = k) (\<lambda>_. y) (items s)) = map key (items s)"
    using assms(2) by (intro map_update_first) auto
  with assms(1) show ?thesis by (simp add: items_put)
qed

end

interpretation sites: keyed_items d_IP m_devices "\<lambda>ds m. m\<lparr>m_devices := ds\<rparr>"
  by unfold_locales simp

interpretation aps: keyed_items ap_Name d_APs "\<lambda>as d. d\<lparr>d_APs := as\<rparr>"
  by unfold_locales simp

interpretation clients: keyed_items c_MAC ap_Clients "\<lambda>cs a. a\<lparr>ap_Clients := cs\<rparr>"
  by unfold_locales simp

section \<open>Frame lemmas\<close>

lemma saveLocked_simps [simp]:
  "m_devices (saveLocked env m) = m_devices m"
  "m_handles (saveLocked env m) = m_handles m"
  "m_auth (saveLocked env m) = m_auth m"
  "m_tmplText (saveLocked env m) = m_tmplText m"
  "m_statePath (saveLocked env m) = m_statePath m"
  "m_seedPath (saveLocked env m) = m_seedPath m"
  "m_lan (saveLocked env m) = m_lan m"
  "m_iface (saveLocked env m) = m_iface m"
  "m_servers (saveLocked env m) = m_servers m"
  "m_next (saveLocked env m) = m_next m"
  "m_panic (saveLocked env m) = m_panic m"
  "m_os (saveLocked env m) = m_os m"
  "m_probe (saveLocked env m) = m_probe m"
  by (simp_all add: saveLocked_def)

lemma init_config_fields [simp]:
  "d_IP (init_config env m d) = d_IP d"
  "d_Hostname (init_config env m d) = d_Hostname d"
  "d_APs (init_config env m d) = d_APs d"
  "d_StartTime (init_config env m d) = d_StartTime d"
  "has_default_ap (init_config env m d) = has_default_ap d"
  by (simp_all add: init_config_def)

lemma start_device_simps [simp]:
  "m_devices (start_device d m) = m_devices m"
  "m_auth (start_device d m) = m_auth m"
  "m_tmplText (start_device d m) = m_tmplText m"
  "m_statePath (start_device d m) = m_statePath m"
  "m_seedPath (start_device d m) = m_seedPath m"
  "m_lan (start_device d m) = m_lan m"
  "m_iface (start_device d m) = m_iface m"
  "m_panic (start_device d m) = m_panic m"
  "m_fs (start_device d m) = m_fs m"
  "m_os (start_device d m) = m_os m"
  "m_probe (start_device d m) = m_probe m"
  "m_handles (start_device d m) = upsert (d_IP d) (m_next m) (m_handles m)"
  "m_servers (start_device d m) = (m_next m, d_IP d) # m_servers m"
  "m_next (start_device d m) = Suc (m_next m)"
  by (simp_all add: start_device_def startDeviceServers_def)

lemma at_eq: "at ip = (\<lambda>d. d_IP d = ip)"
  by (simp add: at_def fun_eq_iff)

lemma named_eq: "named n = (\<lambda>a. ap_Name a = n)"
  by (simp add: named_def fun_eq_iff)

lemma has_mac_eq: "has_mac mac = (\<lambda>c. c_MAC c = mac)"
  by (simp add: has_mac_def fun_eq_iff)

section \<open>The invariant\<close>

definition site_ok :: "device \<Rightarrow> bool" where
  "site_ok d \<longleftrightarrow> d_Hostname d \<noteq> [] \<longrightarrow> has_default_ap d"

definition sim_wf :: "'os machine \<Rightarrow> bool" where
  "sim_wf m \<longleftrightarrow>
     distinct (map d_IP (m_devices m)) \<and>
     map fst (m_handles m) = map d_IP (m_devices m) \<and>
     set (m_servers m) = (\<lambda>(ip, h). (h, ip)) ` set (m_handles m) \<and>
     distinct (map snd (m_handles m)) \<and>
     (\<forall>s \<in> set (m_servers m). fst s < m_next m) \<and>
     m_panic m = None \<and>
     (\<forall>d \<in> set (m_devices m). site_ok d)"

lemma sim_wf_saveLocked [simp]: "sim_wf (saveLocked env m) = sim_wf m"
  by (simp add: sim_wf_def)

lemma sim_wf_cong:
  "sim_wf (m\<lparr>m_os := x\<rparr>) = sim_wf m" "sim_wf (m\<lparr>m_fs := y\<rparr>) = sim_wf m"
  "sim_wf (m\<lparr>m_probe := z\<rparr>) = sim_wf m"
  by (simp_all add: sim_wf_def)

definition keeps_site :: "(device \<Rightarrow> sim_error option \<times> device) \<Rightarrow> bool" where
  "keeps_site body \<longleftrightarrow>
     (\<forall>d. d_IP (snd (body d)) = d_IP d \<and> (site_ok d \<longrightarrow> site_ok (snd (body d))))"

lemma sim_wf_update_device:
  assumes "sim_wf m" and "d_IP d' = ip" and "site_ok d'"
  shows "sim_wf (m\<lparr>m_devices := update_first (at ip) (\<lambda>_. d') (m_devices m)\<rparr>)"
proof -
  have "map d_IP (update_first (at ip) (\<lambda>_. d') (m_devices m)) = map d_IP (m_devices m)"
    using assms(2) by (intro map_update_first) (simp add: at_def)
  with assms show ?thesis
    by (auto simp: sim_wf_def dest: update_first_memD)
qed

lemma sim_wf_on_device:
  assumes "sim_wf m" and "keeps_site body"
  shows "sim_wf (snd (on_device env ip body m))"
proof (cases "find (at ip) (m_devices m)")
  case None
  with assms show ?thesis by (simp add: on_device_def)
next
  case (Some d)
  then have d: "d \<in> set (m_devices m)" "d_IP d = ip"
    by (auto dest!: find_Some_memD simp: at_def)
  with assms have ok: "d_IP (snd (body d)) = ip" "site_ok (snd (body d))"
    by (auto simp: keeps_site_def sim_wf_def)
  then have ok': "d_IP (init_config env m (snd (body d))) = ip" "site_ok (init_config env m (snd (body d)))"
    by (auto simp: site_ok_def)
  show ?thesis
    using Some sim_wf_update_device [OF assms(1) ok] sim_wf_update_device [OF assms(1) ok']
    by (auto simp: on_device_def split: prod.splits option.splits)
qed

lemma site_ok_APs:
  assumes "site_ok d" and "\<And>a. a \<in> set (d_APs d) \<Longrightarrow> ap_Default a \<Longrightarrow>
     \<exists>a' \<in> set as. ap_Default a' \<and> ap_Name a' = ap_Name a"
  shows "site_ok (d\<lparr>d_APs := as\<rparr>)"
  using assms by (fastforce simp: site_ok_def has_default_ap_def list_ex_iff)

lemma update_first_keeps:
  assumes "\<And>a. ap_Default (f a) = ap_Default a \<and> ap_Name (f a) = ap_Name a"
    and "a \<in> set as" and "ap_Default a"
  shows "\<exists>a' \<in> set (update_first P f as). ap_Default a' \<and> ap_Name a' = ap_Name a"
  using assms(2,3) by (induction as) (auto simp: assms(1))

lemma append_client_fields [simp]:
  "ap_Default (append_client c a) = ap_Default a" "ap_Name (append_client c a) = ap_Name a"
  "ap_Clients (append_client c a) = ap_Clients a @ [c]"
  by (simp_all add: append_client_def)

lemma drop_client_fields [simp]:
  "ap_Default (drop_client mac a) = ap_Default a" "ap_Name (drop_client mac a) = ap_Name a"
  "ap_Clients (drop_client mac a) = remove_first (has_mac mac) (ap_Clients a)"
  by (simp_all add: drop_client_def)

lemma take_client_keeps:
  assumes "take_client mac as = (r, as')" and "a \<in> set as" and "ap_Default a"
  shows "\<exists>a' \<in> set as'. ap_Default a' \<and> ap_Name a' = ap_Name a"
  using assms by (induction as arbitrary: as' r) (fastforce split: option.splits prod.splits)+

lemma remove_first_keeps:
  assumes "find P as = Some x" and "\<not> ap_Default x" and "a \<in> set as" and "ap_Default a"
  shows "a \<in> set (remove_first P as)"
  using assms by (induction as) (auto split: if_splits)

lemma keeps_add_ap: "keeps_site (add_ap a)"
  by (auto simp: keeps_site_def add_ap_def intro!: site_ok_APs)

lemma keeps_remove_ap: "keeps_site (remove_ap ip name)"
  by (auto simp: keeps_site_def remove_ap_def split: option.splits
      intro!: site_ok_APs dest: remove_first_keeps)

lemma keeps_remove_client: "keeps_site (remove_client ip mac)"
  by (auto simp: keeps_site_def remove_client_def intro!: site_ok_APs update_first_keeps)

lemma keeps_add_client: "keeps_site (add_client ip name c)"
  by (auto simp: keeps_site_def add_client_def intro!: site_ok_APs update_first_keeps)

lemma keeps_set_ssids: "keeps_site (set_ssids ip name ssids)"
  by (auto simp: keeps_site_def set_ssids_def intro!: site_ok_APs update_first_keeps)

lemma keeps_move_client: "keeps_site (move_client ip mac newAP newSSID)"
proof -
  have "site_ok (d\<lparr>d_APs := as\<rparr>) \<and> site_ok (d\<lparr>d_APs := update_first P (append_client c) as\<rparr>)"
    if take: "take_client mac (d_APs d) = (r, as)" and ok: "site_ok d" for d r as P c
  proof
    show "site_ok (d\<lparr>d_APs := as\<rparr>)"
      using ok take by (auto intro!: site_ok_APs dest: take_client_keeps)
    show "site_ok (d\<lparr>d_APs := update_first P (append_client c) as\<rparr>)"
    proof (rule site_ok_APs [OF ok])
      fix a assume "a \<in> set (d_APs d)" "ap_Default a"
      then obtain a' where "a' \<in> set as" "ap_Default a'" "ap_Name a' = ap_Name a"
        using take_client_keeps [OF take] by blast
      then show "\<exists>b \<in> set (update_first P (append_client c) as). ap_Default b \<and> ap_Name b = ap_Name a"
        using update_first_keeps [of "append_client c" a' as P] by auto
    qed
  qed
  then show ?thesis
    by (auto simp: keeps_site_def move_client_def Let_def split: prod.splits option.splits)
qed

section \<open>Servers and the invariant\<close>

lemma sim_wf_handles_live:
  assumes "sim_wf m"
  shows "fst ` set (m_servers m) = set (map snd (m_handles m))"
proof -
  have "fst ` (\<lambda>(ip, h). (h, ip)) ` S = snd ` S" for S :: "(string \<times> nat) set" by force
  with assms show ?thesis by (simp add: sim_wf_def)
qed

lemma sim_wf_start_device:
  assumes wf: "sim_wf m" and fresh: "d_IP d \<notin> d_IP ` set (m_devices m)" and ok: "site_ok d"
  shows "sim_wf (start_device d (m\<lparr>m_devices := m_devices m @ [d]\<rparr>))"
proof -
  have k: "fst ` set (m_handles m) = d_IP ` set (m_devices m)"
    using wf by (metis list.set_map sim_wf_def)
  have u: "upsert (d_IP d) (m_next m) (m_handles m) = m_handles m @ [(d_IP d, m_next m)]"
    using fresh k by (intro upsert_fresh) auto
  have "m_next m \<notin> set (map snd (m_handles m))"
  proof
    assume "m_next m \<in> set (map snd (m_handles m))"
    then obtain s where "s \<in> set (m_servers m)" "fst s = m_next m"
      using sim_wf_handles_live [OF wf] by (metis imageE)
    then have "fst s < m_next m" using wf unfolding sim_wf_def by blast
    with \<open>fst s = m_next m\<close> show False by simp
  qed
  moreover have "fst s < Suc (m_next m)" if "s \<in> set (m_servers m)" for s
    using wf that by (force simp: sim_wf_def)
  ultimately show ?thesis
    using wf fresh ok by (auto simp: sim_wf_def u)
qed

lemma stopHandle_simps [simp]:
  "m_devices (stopHandle h m) = m_devices m"
  "m_handles (stopHandle h m) = m_handles m"
  "m_auth (stopHandle h m) = m_auth m"
  "m_tmplText (stopHandle h m) = m_tmplText m"
  "m_statePath (stopHandle h m) = m_statePath m"
  "m_seedPath (stopHandle h m) = m_seedPath m"
  "m_lan (stopHandle h m) = m_lan m"
  "m_iface (stopHandle h m) = m_iface m"
  "m_next (stopHandle h m) = m_next m"
  "m_fs (stopHandle h m) = m_fs m"
  "m_os (stopHandle h m) = m_os m"
  "m_probe (stopHandle h m) = m_probe m"
  by (simp_all add: stopHandle_def)

lemma fold_stop_simps [simp]:
  "m_devices (fold stopHandle hs m) = m_devices m"
  "m_handles (fold stopHandle hs m) = m_handles m"
  "m_auth (fold stopHandle hs m) = m_auth m"
  "m_tmplText (fold stopHandle hs m) = m_tmplText m"
  "m_statePath (fold stopHandle hs m) = m_statePath m"
  "m_seedPath (fold stopHandle hs m) = m_seedPath m"
  "m_lan (fold stopHandle hs m) = m_lan m"
  "m_iface (fold stopHandle hs m) = m_iface m"
  "m_next (fold stopHandle hs m) = m_next m"
  "m_fs (fold stopHandle hs m) = m_fs m"
  "m_os (fold stopHandle hs m) = m_os m"
  "m_probe (fold stopHandle hs m) = m_probe m"
  by (simp_all add: fold_frame)

lemma fold_stop_live:
  assumes "distinct hs" and "set hs \<subseteq> fst ` set (m_servers m)"
  shows "m_servers (fold stopHandle hs m) = filter (\<lambda>s. fst s \<notin> set hs) (m_servers m) \<and>
     m_panic (fold stopHandle hs m) = m_panic m"
  using assms
proof (induction hs arbitrary: m)
  case (Cons h hs)
  let ?m = "stopHandle h m"
  have s: "m_servers ?m = filter (\<lambda>s. fst s \<noteq> h) (m_servers m)" "m_panic ?m = m_panic m"
    using Cons.prems by (auto simp: stopHandle_def)
  have "set hs \<subseteq> fst ` set (m_servers ?m)"
    using Cons.prems by (force simp: s)
  with Cons show ?case by (simp add: s conj_commute)
qed simp

lemma fold_stop_order:
  \<comment> \<open>the order in which Go ranges over the handles makes no difference\<close>
  assumes "distinct hs" and "set hs \<subseteq> fst ` set (m_servers m)" and "mset hs = mset hs'"
  shows "fold stopHandle hs' m = fold stopHandle hs m"
proof -
  have d: "distinct hs'" "set hs' = set hs"
    using assms(1,3) by (metis distinct_count_atmost_1 mset_eq_imp_distinct_iff, metis mset_eq_setD)
  then have "set hs' \<subseteq> fst ` set (m_servers m)" using assms(2) by simp
  with fold_stop_live [OF assms(1,2)] fold_stop_live [OF d(1), of m] d(2) show ?thesis
    by (intro machine.equality) simp_all
qed

lemma tear_down_simps [simp]:
  "m_devices (tear_down env a m) = []"
  "m_handles (tear_down env a m) = []"
  "m_auth (tear_down env a m) = a"
  "m_tmplText (tear_down env a m) = m_tmplText m"
  "m_statePath (tear_down env a m) = m_statePath m"
  "m_seedPath (tear_down env a m) = m_seedPath m"
  "m_lan (tear_down env a m) = m_lan m"
  "m_iface (tear_down env a m) = m_iface m"
  "m_next (tear_down env a m) = m_next m"
  "m_fs (tear_down env a m) = m_fs m"
  "m_probe (tear_down env a m) = m_probe m"
  by (simp_all add: tear_down_def Let_def teardownIPs_def)

lemma tear_down_wf:
  assumes wf: "sim_wf m"
  shows "sim_wf (tear_down env a m) \<and> m_servers (tear_down env a m) = []"
proof -
  have "filter (\<lambda>s. fst s \<notin> snd ` set (m_handles m)) (m_servers m) = []"
    using sim_wf_handles_live [OF wf] by (auto simp: filter_empty_conv)
  then have "m_servers (fold stopHandle (map snd (m_handles m)) m) = []"
      "m_panic (fold stopHandle (map snd (m_handles m)) m) = None"
    using fold_stop_live [of "map snd (m_handles m)" m] sim_wf_handles_live [OF wf] wf
    by (simp_all add: sim_wf_def)
  then show ?thesis
    by (simp add: sim_wf_def tear_down_def Let_def teardownIPs_def)
qed

lemma publish_simps [simp]:
  "m_auth (publish env now d m) = m_auth m"
  "m_tmplText (publish env now d m) = m_tmplText m"
  "m_statePath (publish env now d m) = m_statePath m"
  "m_seedPath (publish env now d m) = m_seedPath m"
  "m_fs (publish env now d m) = m_fs m"
  "m_lan (publish env now d m) = m_lan m"
  "m_os (publish env now d m) = m_os m"
  "m_devices (publish env now d m) = m_devices m @ [init_config env m (d\<lparr>d_StartTime := now\<rparr>)]"
  by (simp_all add: publish_def Let_def)

lemma fold_publish_simps [simp]:
  "m_auth (fold (publish env now) ds m) = m_auth m"
  "m_tmplText (fold (publish env now) ds m) = m_tmplText m"
  "m_statePath (fold (publish env now) ds m) = m_statePath m"
  "m_seedPath (fold (publish env now) ds m) = m_seedPath m"
  "m_fs (fold (publish env now) ds m) = m_fs m"
  "m_lan (fold (publish env now) ds m) = m_lan m"
  "m_os (fold (publish env now) ds m) = m_os m"
  by (simp_all add: fold_frame)

lemma init_config_tmpl: "m_tmplText m' = m_tmplText m \<Longrightarrow> init_config env m' = init_config env m"
  by (simp add: init_config_def fun_eq_iff)

lemma fold_publish_devices:
  "m_devices (fold (publish env now) ds m) =
     m_devices m @ map (\<lambda>d. init_config env m (d\<lparr>d_StartTime := now\<rparr>)) ds"
proof (induction ds arbitrary: m)
  case (Cons d ds)
  have "init_config env (publish env now d m) = init_config env m"
    by (rule init_config_tmpl) simp
  with Cons show ?case by simp
qed simp

lemma site_ok_StartTime [simp]: "site_ok (d\<lparr>d_StartTime := t\<rparr>) = site_ok d"
  by (simp add: site_ok_def has_default_ap_def)

lemma site_ok_init_config [simp]: "site_ok (init_config env m d) = site_ok d"
  by (simp add: site_ok_def)

lemma sim_wf_publish:
  assumes "sim_wf m" and "d_IP d \<notin> d_IP ` set (m_devices m)" and "site_ok d"
  shows "sim_wf (publish env now d m)"
proof -
  have "sim_wf (start_device d' (m\<lparr>m_devices := m_devices m @ [d']\<rparr>))"
    if "d' = init_config env m (d\<lparr>d_StartTime := now\<rparr>)" for d'
    by (rule sim_wf_start_device) (use assms that in simp_all)
  then show ?thesis by (simp add: publish_def Let_def)
qed

lemma sim_wf_fold_publish:
  assumes "sim_wf m" and "distinct (map d_IP (m_devices m @ ds))" and "\<forall>d \<in> set ds. site_ok d"
  shows "sim_wf (fold (publish env now) ds m)"
  using assms
proof (induction ds arbitrary: m)
  case (Cons d ds)
  have "sim_wf (publish env now d m)"
    by (rule sim_wf_publish) (use Cons.prems in auto)
  moreover have "distinct (map d_IP (m_devices (publish env now d m) @ ds))"
    using Cons.prems by auto
  ultimately show ?case using Cons by simp
qed simp

lemma setupIPs_frame:
  assumes "setupIPs env ds m = (r, m')"
  shows "\<exists>os av. m' = m\<lparr>m_os := os, m_probe := av\<rparr>"
proof (cases "m_lan m")
  case True
  then show ?thesis
    using assms by (auto simp: setupIPs_def split: prod.splits sum.splits intro: exI)
next
  case False
  then have "\<exists>os. m' = m\<lparr>m_os := os\<rparr>"
    using assms by (auto simp: setupIPs_def split: prod.splits option.splits)
  then obtain os where "m' = m\<lparr>m_os := os\<rparr>" ..
  then have "m' = m\<lparr>m_os := os, m_probe := m_probe m\<rparr>" by simp
  then show ?thesis by blast
qed

lemma setupIPs_devices:
  assumes "setupIPs env ds m = (Inr ds', m')"
  shows "length ds' = length ds \<and> (\<forall>i < length ds. \<exists>ip. ds' ! i = (ds ! i)\<lparr>d_IP := ip\<rparr>) \<and> (\<not> m_lan m \<longrightarrow> ds' = ds)"
proof (cases "m_lan m")
  case True
  then obtain info os av where "SetupLANIPs (e_net env) ds (m_iface m) (m_os m) (m_probe m) = (Inr (info, ds'), os, av)"
    using assms by (auto simp: setupIPs_def split: prod.splits sum.splits)
  from SetupLANIPs_sound [OF this] obtain autos where
    "length autos = n_auto (e_net env) (info_Subnet info) ds" "ds' = assign_ips (e_net env) (info_Subnet info) autos ds"
    by blast
  then show ?thesis
    using assign_ips_nth [of "e_net env" "info_Subnet info" ds autos] True by (auto split: if_splits)
next
  case False
  then have "ds' = ds" using assms by (auto simp: setupIPs_def split: prod.splits option.splits)
  moreover have "ds ! i = (ds ! i)\<lparr>d_IP := d_IP (ds ! i)\<rparr>" for i by simp
  ultimately show ?thesis by blast
qed

lemma site_ok_IP [simp]: "site_ok (d\<lparr>d_IP := ip\<rparr>) = site_ok d"
  by (simp add: site_ok_def has_default_ap_def)

lemma setupIPs_site_ok:
  assumes "setupIPs env ds m = (Inr ds', m')" and "\<forall>d \<in> set ds. site_ok d"
  shows "\<forall>d \<in> set ds'. site_ok d"
proof
  fix d assume "d \<in> set ds'"
  then obtain i where "i < length ds'" "d = ds' ! i" by (auto simp: in_set_conv_nth)
  then obtain ip where "i < length ds" "d = (ds ! i)\<lparr>d_IP := ip\<rparr>"
    using setupIPs_devices [OF assms(1)] by metis
  with assms(2) show "site_ok d" by auto
qed

lemma applyConfig_cases:
  assumes "applyConfig env now a ds m = (e, m')"
  shows "(ds = [] \<and> e = None \<and> m' = tear_down env a m) \<or>
    (\<exists>err m2. ds \<noteq> [] \<and> setupIPs env ds (tear_down env a m) = (Inl err, m2) \<and> e = Some (SetupFailed err) \<and> m' = m2) \<or>
    (\<exists>ds' m2. ds \<noteq> [] \<and> setupIPs env ds (tear_down env a m) = (Inr ds', m2) \<and> e = None \<and>
       m' = fold (publish env now) ds' m2)"
  using assms by (auto simp: applyConfig_def Let_def split: if_splits prod.splits sum.splits)

lemma applyConfig_wf:
  assumes wf: "sim_wf m" and a: "applyConfig env now au ds m = (e, m')"
    and ok: "\<forall>d \<in> set ds. site_ok d" and dist: "distinct (map d_IP (m_devices m'))"
  shows "sim_wf m'"
proof -
  let ?t = "tear_down env au m"
  have t: "sim_wf ?t" using tear_down_wf [OF wf] by blast
  have frame: "sim_wf m2 \<and> m_devices m2 = []" if "setupIPs env ds ?t = (r, m2)" for r m2
    using setupIPs_frame [OF that] t by (auto simp: sim_wf_cong sim_wf_def)
  from applyConfig_cases [OF a] show ?thesis
  proof (elim disjE exE conjE)
    fix ds' m2
    assume s: "setupIPs env ds ?t = (Inr ds', m2)" and m': "m' = fold (publish env now) ds' m2"
    have m2: "sim_wf m2" "m_devices m2 = []" using frame [OF s] by auto
    have "map d_IP (m_devices m') = map d_IP ds'"
      by (simp add: m' fold_publish_devices m2 o_def)
    with dist have "distinct (map d_IP (m_devices m2 @ ds'))" by (simp add: m2)
    then show ?thesis
      unfolding m' using setupIPs_site_ok [OF s ok] m2 by (intro sim_wf_fold_publish) auto
  next
    assume "m' = ?t" with t show ?thesis by simp
  next
    fix err m2
    assume "setupIPs env ds ?t = (Inl err, m2)" "m' = m2"
    with frame show ?thesis by blast
  qed
qed


section \<open>Adding and removing keep the invariant\<close>

lemma port_defaults_fields [simp]:
  "d_IP (port_defaults d) = d_IP d" "d_Hostname (port_defaults d) = d_Hostname d"
  "d_APs (port_defaults d) = d_APs d"
  by (simp_all add: port_defaults_def)

lemma add_check_Inr:
  assumes "add_check env now dev m = Inr d"
  shows "d_IP d = d_IP dev \<and> d_Hostname d = d_Hostname dev \<and> d_IP dev \<noteq> [] \<and> d_Hostname dev \<noteq> [] \<and>
    d_IP d \<notin> d_IP ` set (m_devices m) \<and> site_ok d \<and> has_default_ap d \<and> d_StartTime d = now"
proof -
  have "d = init_config env m ((EnsureDefaultAP (port_defaults dev))\<lparr>d_StartTime := now\<rparr>)"
      "d_Hostname dev \<noteq> []" "d_IP dev \<noteq> []" "\<not> list_ex (at (d_IP dev)) (m_devices m)"
    using assms by (simp_all add: add_check_def Let_def split: if_splits)
  moreover have "d_IP dev \<notin> d_IP ` set (m_devices m)"
    using calculation(4) by (auto simp: list_ex_iff at_def)
  moreover have "has_default_ap (EnsureDefaultAP (port_defaults dev))"
    using calculation(2) by (simp add: has_default_ap_Ensure)
  ultimately show ?thesis
    by (auto simp: EnsureDefaultAP_fields list_ex_iff at_def site_ok_def has_default_ap_def image_iff)
qed

lemma add_alias_frame:
  "snd (add_alias env d m) = m\<lparr>m_os := snd (AddIP (e_net env) (d_IP d) (m_os m))\<rparr>"
  by (simp add: add_alias_def Let_def split: prod.splits)

lemma sim_wf_add_publish:
  assumes "sim_wf m" and "d_IP d \<notin> d_IP ` set (m_devices m)" and "site_ok d"
  shows "sim_wf (add_publish env d m)"
  using sim_wf_start_device [OF assms] by (simp add: add_publish_def)

lemma sim_wf_AddDevice:
  assumes "sim_wf m"
  shows "sim_wf (snd (AddDevice env now dev m))"
proof (cases "add_check env now dev m")
  case (Inl e)
  with assms show ?thesis by (simp add: AddDevice_def)
next
  case (Inr d)
  let ?m1 = "snd (add_alias env d m)"
  have "sim_wf ?m1" using assms by (simp add: add_alias_frame sim_wf_cong)
  moreover have "d_IP d \<notin> d_IP ` set (m_devices ?m1)" "site_ok d"
    using add_check_Inr [OF Inr] by (auto simp: add_alias_frame)
  ultimately have "sim_wf (add_publish env d ?m1)" "sim_wf ?m1"
    by (simp_all add: sim_wf_add_publish)
  with Inr show ?thesis by (auto simp: AddDevice_def split: prod.splits option.splits)
qed

lemma remove_first_map_eq:
  "map f xs = map g ys \<Longrightarrow> map f (remove_first (\<lambda>x. f x = k) xs) = map g (remove_first (\<lambda>y. g y = k) ys)"
  by (induction xs arbitrary: ys) auto

lemma remove_first_key_set:
  assumes "distinct (map f xs)"
  shows "set (remove_first (\<lambda>x. f x = k) xs) = {x \<in> set xs. f x \<noteq> k}"
  using assms by (induction xs) (auto simp: image_iff)

lemma sim_wf_RemoveDevice:
  assumes wf: "sim_wf m"
  shows "sim_wf (snd (RemoveDevice env ip m))"
proof (cases "find (at ip) (m_devices m)")
  case None
  with wf show ?thesis by (simp add: RemoveDevice_def remove_unpublish_def)
next
  case (Some d)
  then have d: "d \<in> set (m_devices m)" "d_IP d = ip" by (auto dest!: find_Some_memD simp: at_def)
  let ?H = "m_handles m" and ?hs = "remove_first (\<lambda>kv. fst kv = ip) (m_handles m)"
  let ?ds = "remove_first (at ip) (m_devices m)"
  have dH: "distinct (map fst ?H)" and dS: "distinct (map snd ?H)" and keys: "map fst ?H = map d_IP (m_devices m)"
    using wf by (simp_all add: sim_wf_def)
  have "ip \<in> set (map fst ?H)" using d keys by force
  then obtain h where h: "map_of ?H ip = Some h" by (metis list.set_map map_of_eq_None_iff not_None_eq)
  then have hin: "(ip, h) \<in> set ?H" by (rule map_of_SomeD)
  have hs: "set ?hs = {kv \<in> set ?H. fst kv \<noteq> ip}" using dH by (rule remove_first_key_set)
  have uniq: "fst kv \<noteq> ip \<longleftrightarrow> snd kv \<noteq> h" if "kv \<in> set ?H" for kv
    using that hin dH dS by (metis distinct_map fst_conv inj_onD prod.collapse snd_conv)
  let ?u = "saveLocked env (m\<lparr>m_devices := ?ds, m_handles := ?hs\<rparr>)"
  have live: "h \<in> fst ` set (m_servers m)"
    using sim_wf_handles_live [OF wf] hin by force
  have srv: "m_servers (stopHandle h ?u) = filter (\<lambda>s. fst s \<noteq> h) (m_servers m)" "m_panic (stopHandle h ?u) = None"
    using live wf by (simp_all add: stopHandle_def sim_wf_def)
  have "set (filter (\<lambda>s. fst s \<noteq> h) (m_servers m)) = (\<lambda>(ip, h). (h, ip)) ` set ?hs"
  proof -
    have "set (m_servers m) = (\<lambda>(ip, h). (h, ip)) ` set ?H" using wf by (simp add: sim_wf_def)
    moreover have "(b, a) \<in> (\<lambda>(ip, h). (h, ip)) ` {kv \<in> set ?H. fst kv \<noteq> ip}"
      if "(a, b) \<in> set ?H" "b \<noteq> h" for a b
      using uniq [OF that(1)] that by (intro image_eqI [of _ _ "(a, b)"]) auto
    ultimately show ?thesis unfolding hs using uniq by auto
  qed
  moreover have "map fst ?hs = map d_IP ?ds"
    using remove_first_map_eq [OF keys, of ip] by (simp add: at_eq)
  moreover have "distinct (map d_IP ?ds)" "distinct (map snd ?hs)"
    using dS dH keys by (simp_all add: distinct_map_remove_first)
  moreover have "\<forall>x \<in> set ?ds. site_ok x"
    using wf set_remove_first_subset [of "at ip" "m_devices m"] by (auto simp: sim_wf_def)
  moreover have "\<forall>s \<in> set (filter (\<lambda>s. fst s \<noteq> h) (m_servers m)). fst s < m_next m"
    using wf unfolding sim_wf_def by simp
  ultimately have "sim_wf (stopHandle h ?u)"
    unfolding sim_wf_def srv(1) srv(2) by (simp del: set_filter)
  then show ?thesis
    using Some h by (simp add: RemoveDevice_def remove_unpublish_def remove_cleanup_def Let_def sim_wf_cong)
qed

section \<open>Requests and reachable states\<close>

datatype request =
    ReqAddDevice device
  | ReqRemoveDevice string
  | ReqAddAP string ap
  | ReqRemoveAP string string
  | ReqAddClient string string client
  | ReqRemoveClient string string
  | ReqUpdateAPSSIDs string string "string list"
  | ReqUpdateClient string string string string
  | ReqImport string
  | ReqFactoryReset
  | ReqClear

fun perform :: "'os sim_env \<Rightarrow> int \<Rightarrow> request \<Rightarrow> 'os machine \<Rightarrow> sim_error option \<times> 'os machine" where
  "perform env now (ReqAddDevice d) m = AddDevice env now d m"
| "perform env now (ReqRemoveDevice ip) m = RemoveDevice env ip m"
| "perform env now (ReqAddAP ip a) m = AddAP env ip a m"
| "perform env now (ReqRemoveAP ip n) m = RemoveAP env ip n m"
| "perform env now (ReqAddClient ip n c) m = AddClient env ip n c m"
| "perform env now (ReqRemoveClient ip mac) m = RemoveClient env ip mac m"
| "perform env now (ReqUpdateAPSSIDs ip n ss) m = UpdateAPSSIDs env ip n ss m"
| "perform env now (ReqUpdateClient ip mac n ss) m = UpdateClient env ip mac n ss m"
| "perform env now (ReqImport data) m = ImportConfig env now data m"
| "perform env now ReqFactoryReset m = FactoryReset env now m"
| "perform env now ReqClear m = ClearAll env now m"

fun replaces_all :: "request \<Rightarrow> bool" where
  "replaces_all (ReqImport _) = True"
| "replaces_all ReqFactoryReset = True"
| "replaces_all ReqClear = True"
| "replaces_all _ = False"

inductive sim_step :: "'os sim_env \<Rightarrow> 'os machine \<Rightarrow> 'os machine \<Rightarrow> bool" for env where
  request: "perform env now req m = (r, m') \<Longrightarrow>
    replaces_all req \<longrightarrow> distinct (map d_IP (m_devices m')) \<Longrightarrow> sim_step env m m'"

inductive sim_reachable :: "'os sim_env \<Rightarrow> 'os machine \<Rightarrow> bool" for env where
  boot: "distinct (map d_IP (cfg_Devices cfg)) \<Longrightarrow> \<forall>d \<in> set (cfg_Devices cfg). site_ok d \<Longrightarrow>
    sim_reachable env (StartAll (NewSimulator cfg tmpl opts s os probe))"
| step: "sim_reachable env m \<Longrightarrow> sim_step env m m' \<Longrightarrow> sim_reachable env m'"

inductive_cases sim_stepE: "sim_step env m m'"

lemma fold_start_device:
  assumes "distinct (map d_IP ds)" and "d_IP ` set ds \<inter> fst ` set (m_handles m) = {}"
  shows "m_handles (fold start_device ds m) = m_handles m @ zip (map d_IP ds) [m_next m..<m_next m + length ds] \<and>
    set (m_servers (fold start_device ds m)) =
      set (m_servers m) \<union> (\<lambda>(ip, h). (h, ip)) ` set (zip (map d_IP ds) [m_next m..<m_next m + length ds]) \<and>
    m_next (fold start_device ds m) = m_next m + length ds \<and>
    m_devices (fold start_device ds m) = m_devices m \<and> m_panic (fold start_device ds m) = m_panic m"
  using assms
proof (induction ds arbitrary: m)
  case (Cons d ds)
  let ?m = "start_device d m"
  have h: "m_handles ?m = m_handles m @ [(d_IP d, m_next m)]"
    using Cons.prems(2) by (simp add: upsert_fresh)
  have dis: "d_IP ` set ds \<inter> fst ` set (m_handles ?m) = {}"
    using Cons.prems unfolding h by auto
  have up: "[m_next m..<m_next m + length (d # ds)] = m_next m # [Suc (m_next m)..<Suc (m_next m) + length ds]"
    by (subst upt_conv_Cons) (simp_all del: upt_Suc)
  note IH = Cons.IH [OF _ dis]
  show ?case
    using IH Cons.prems(1) unfolding up h by simp
qed simp

lemma sim_wf_boot:
  assumes "distinct (map d_IP (cfg_Devices cfg))" and "\<forall>d \<in> set (cfg_Devices cfg). site_ok d"
  shows "sim_wf (StartAll (NewSimulator cfg tmpl opts s os probe))"
proof -
  let ?m = "NewSimulator cfg tmpl opts s os probe" and ?ds = "cfg_Devices cfg"
  let ?z = "zip (map d_IP ?ds) [0..<length ?ds]"
  have f: "m_handles (fold start_device ?ds ?m) = ?z \<and>
      set (m_servers (fold start_device ?ds ?m)) = (\<lambda>(ip, h). (h, ip)) ` set ?z \<and>
      m_next (fold start_device ?ds ?m) = length ?ds \<and>
      m_devices (fold start_device ?ds ?m) = ?ds \<and> m_panic (fold start_device ?ds ?m) = None"
    using fold_start_device [of ?ds ?m] assms(1) by (simp add: NewSimulator_def)
  have "\<forall>s \<in> (\<lambda>(ip, h). (h, ip)) ` set ?z. fst s < length ?ds"
    by (auto dest: set_zip_rightD)
  moreover have "m_devices ?m = ?ds" by (simp add: NewSimulator_def)
  ultimately show ?thesis
    using f assms by (simp add: sim_wf_def StartAll_def)
qed

lemma parsed_site_ok: "d \<in> set (cfg_Devices (applyDefaults cfg)) \<Longrightarrow> site_ok d"
  using device_defaults_complete by (auto simp: applyDefaults_def site_ok_def device_complete_def)

lemma ParseYAML_site_ok: "ParseYAML y data = Inr cfg \<Longrightarrow> \<forall>d \<in> set (cfg_Devices cfg). site_ok d"
  by (auto simp: ParseYAML_def parsed_site_ok split: sum.splits)

lemma site_ok_InitConfig [simp]: "site_ok (InitConfig env t d) = site_ok d"
  by (simp add: site_ok_def)

lemma Load_site_ok: "Load renv y path s = Inr cfg \<Longrightarrow> \<forall>d \<in> set (cfg_Devices cfg). site_ok d"
  by (auto simp: Load_def Let_def dest!: ParseYAML_site_ok split: sum.splits)

lemma sim_wf_save: "sim_wf (snd (save env m)) = sim_wf m" "m_devices (snd (save env m)) = m_devices m"
  by (simp_all add: save_def Let_def sim_wf_cong split: prod.splits)

lemma sim_wf_deleteState: "sim_wf (snd (deleteState m)) = sim_wf m" "m_devices (snd (deleteState m)) = m_devices m"
  by (simp_all add: deleteState_def Let_def sim_wf_cong split: prod.splits)

lemma sim_wf_ImportConfig:
  assumes "sim_wf m" and "distinct (map d_IP (m_devices (snd (ImportConfig env now data m))))"
  shows "sim_wf (snd (ImportConfig env now data m))"
proof (cases "ParseYAML (e_yaml env) data")
  case (Inl e)
  with assms show ?thesis by (simp add: ImportConfig_def)
next
  case (Inr cfg)
  obtain e m1 where a: "applyConfig env now (cfg_Auth cfg) (cfg_Devices cfg) m = (e, m1)" by fastforce
  have "sim_wf m1"
    using applyConfig_wf [OF assms(1) a ParseYAML_site_ok [OF Inr]] assms(2) Inr a
    by (auto simp: ImportConfig_def sim_wf_save split: option.splits)
  with Inr a show ?thesis by (auto simp: ImportConfig_def sim_wf_save split: option.splits)
qed

lemma sim_wf_FactoryReset:
  assumes "sim_wf m" and "distinct (map d_IP (m_devices (snd (FactoryReset env now m))))"
  shows "sim_wf (snd (FactoryReset env now m))"
proof (cases "m_seedPath m = [] \<or> (\<exists>e. Load (e_render env) (e_yaml env) (m_seedPath m) (m_fs m) = Inl e)")
  case True
  with assms show ?thesis by (auto simp: FactoryReset_def)
next
  case False
  then obtain cfg where l: "Load (e_render env) (e_yaml env) (m_seedPath m) (m_fs m) = Inr cfg"
    by (metis sum.exhaust)
  obtain e m1 where a: "applyConfig env now (cfg_Auth cfg) (cfg_Devices cfg) m = (e, m1)" by fastforce
  have "sim_wf m1"
    using applyConfig_wf [OF assms(1) a Load_site_ok [OF l]] assms(2) False l a
    by (auto simp: FactoryReset_def sim_wf_deleteState split: option.splits)
  with False l a show ?thesis by (auto simp: FactoryReset_def sim_wf_deleteState split: option.splits)
qed

lemma sim_wf_ClearAll: "sim_wf m \<Longrightarrow> sim_wf (snd (ClearAll env now m))"
  by (simp add: ClearAll_def applyConfig_def Let_def sim_wf_save tear_down_wf)

lemmas sim_wf_ops =
  sim_wf_AddDevice sim_wf_RemoveDevice sim_wf_ImportConfig sim_wf_FactoryReset sim_wf_ClearAll
  sim_wf_on_device [OF _ keeps_add_ap] sim_wf_on_device [OF _ keeps_remove_ap]
  sim_wf_on_device [OF _ keeps_add_client] sim_wf_on_device [OF _ keeps_remove_client]
  sim_wf_on_device [OF _ keeps_set_ssids] sim_wf_on_device [OF _ keeps_move_client]

lemma sim_wf_perform:
  assumes "sim_wf m" and "replaces_all req \<longrightarrow> distinct (map d_IP (m_devices (snd (perform env now req m))))"
  shows "sim_wf (snd (perform env now req m))"
  using assms
  by (cases req) (simp_all add: AddAP_def RemoveAP_def AddClient_def RemoveClient_def UpdateAPSSIDs_def
      UpdateClient_def sim_wf_ops)

lemma sim_reachable_wf: "sim_reachable env m \<Longrightarrow> sim_wf m"
proof (induction rule: sim_reachable.induct)
  case (boot cfg tmpl opts s os probe)
  then show ?case by (rule sim_wf_boot)
next
  case (step m m')
  from step.hyps(2) show ?case
  proof (rule sim_stepE)
    fix now req r
    assume "perform env now req m = (r, m')" "replaces_all req \<longrightarrow> distinct (map d_IP (m_devices m'))"
    then show "sim_wf m'" using sim_wf_perform [OF step.IH, of req env now] by simp
  qed
qed

lemma sim_wf_one_server:
  assumes wf: "sim_wf m" and d: "d \<in> set (m_devices m)"
  shows "\<exists>!h. (h, d_IP d) \<in> set (m_servers m)"
proof -
  have keys: "map fst (m_handles m) = map d_IP (m_devices m)" and dist: "distinct (map fst (m_handles m))"
    and srv: "set (m_servers m) = (\<lambda>(ip, h). (h, ip)) ` set (m_handles m)"
    using wf by (simp_all add: sim_wf_def)
  have mem: "(h, d_IP d) \<in> set (m_servers m) \<longleftrightarrow> (d_IP d, h) \<in> set (m_handles m)" for h
    unfolding srv by force
  have "d_IP d \<in> set (map fst (m_handles m))" using d unfolding keys by simp
  then obtain h where "(d_IP d, h) \<in> set (m_handles m)" by force
  moreover have "h' = h" if "(d_IP d, h') \<in> set (m_handles m)" for h'
    using that calculation dist by (meson eq_key_imp_eq_value)
  ultimately show ?thesis unfolding mem by blast
qed


section \<open>Errors\<close>

text \<open>
  The errors after which part of the work has been done: a client taken out of its access
  point, an alias command that failed, an interrupted replacement, a failed write.
\<close>

fun partial_effect :: "sim_error \<Rightarrow> bool" where
  "partial_effect (TargetAPNotFound _ _) = True"
| "partial_effect (AliasFailed _ _) = True"
| "partial_effect (SetupFailed _) = True"
| "partial_effect (ConfigFailed (ParseConfig _)) = False"
| "partial_effect (ConfigFailed _) = True"
| "partial_effect (DeleteFailed _) = True"
| "partial_effect _ = False"

lemma update_first_self: "find P xs = Some x \<Longrightarrow> update_first P (\<lambda>_. x) xs = xs"
  by (induction xs) (auto split: if_splits)

lemma on_device_error:
  assumes "on_device env ip body m = (Some e, m')"
    and "\<And>d e d'. body d = (Some e, d') \<Longrightarrow> \<not> partial_effect e \<Longrightarrow> d' = d" and "\<not> partial_effect e"
  shows "m' = m"
proof (cases "find (at ip) (m_devices m)")
  case None
  with assms(1) show ?thesis by (auto simp: on_device_def)
next
  case (Some d)
  obtain r d' where b: "body d = (r, d')" by fastforce
  with Some assms(1) have r: "r = Some e" and m': "m' = m\<lparr>m_devices := update_first (at ip) (\<lambda>_. d') (m_devices m)\<rparr>"
    by (auto simp: on_device_def split: option.splits)
  have "d' = d" using assms(2,3) b r by blast
  with m' Some show ?thesis by (simp add: update_first_self)
qed

lemma take_client_None: "take_client mac as = (None, as') \<Longrightarrow> as' = as"
  by (induction as arbitrary: as') (auto split: option.splits prod.splits)

lemma body_errors:
  "add_ap a d = (Some e, d') \<Longrightarrow> d' = d"
  "remove_ap ip n d = (Some e, d') \<Longrightarrow> d' = d"
  "add_client ip n c d = (Some e, d') \<Longrightarrow> d' = d"
  "remove_client ip mac d = (Some e, d') \<Longrightarrow> d' = d"
  "set_ssids ip n ss d = (Some e, d') \<Longrightarrow> d' = d"
  "move_client ip mac n ssid d = (Some e, d') \<Longrightarrow> \<not> partial_effect e \<Longrightarrow> d' = d"
  by (auto simp: add_ap_def remove_ap_def add_client_def remove_client_def set_ssids_def move_client_def
      Let_def split: option.splits prod.splits if_splits)

lemma save_error: "save env m = (Some e, m') \<Longrightarrow> e \<noteq> ConfigFailed (ParseConfig s)"
  by (auto simp: save_def Save_def Marshal_def Let_def split: if_splits prod.splits sum.splits option.splits)

lemma applyConfig_error: "applyConfig env now a ds m = (Some e, m') \<Longrightarrow> partial_effect e"
  by (auto dest: applyConfig_cases)

lemma partial_save_error: "save env m = (Some e, m') \<Longrightarrow> partial_effect e"
  by (auto simp: save_def Save_def Marshal_def Let_def split: if_splits prod.splits sum.splits option.splits)

lemma perform_error_no_effect:
  assumes "perform env now req m = (Some e, m')" and "\<not> partial_effect e"
  shows "m' = m"
proof (cases req)
  case (ReqAddDevice d)
  with assms show ?thesis
    by (auto simp: AddDevice_def add_alias_def Let_def split: sum.splits prod.splits option.splits)
next
  case (ReqRemoveDevice ip)
  with assms show ?thesis
    by (auto simp: RemoveDevice_def remove_unpublish_def split: sum.splits prod.splits option.splits)
next
  case (ReqImport data)
  with assms show ?thesis
    by (auto simp: ImportConfig_def dest: applyConfig_error partial_save_error split: sum.splits prod.splits option.splits)
next
  case ReqFactoryReset
  with assms show ?thesis
    by (auto simp: FactoryReset_def deleteState_def Let_def dest: applyConfig_error
        split: if_splits sum.splits prod.splits option.splits fs_error.splits)
next
  case ReqClear
  with assms show ?thesis
    by (auto simp: ClearAll_def dest: applyConfig_error partial_save_error split: prod.splits option.splits)
qed (use assms in \<open>auto simp: AddAP_def RemoveAP_def AddClient_def RemoveClient_def UpdateAPSSIDs_def
      UpdateClient_def elim!: on_device_error dest: body_errors\<close>)

section \<open>Moving a client\<close>

lemma take_client_Some:
  assumes "take_client mac as = (Some c, as')"
  shows "c_MAC c = mac \<and>
    mset (concat (map ap_Clients as)) = add_mset c (mset (concat (map ap_Clients as')))"
  using assms
proof (induction as arbitrary: as')
  case (Cons a as)
  show ?case
  proof (cases "find (has_mac mac) (ap_Clients a)")
    case None
    with Cons show ?thesis by (auto split: prod.splits)
  next
    case (Some c')
    then have "mset (ap_Clients a) = add_mset c' (mset (remove_first (has_mac mac) (ap_Clients a)))" "c_MAC c' = mac"
      using remove_first_mset [OF Some] find_Some_memD [OF Some] by (simp_all add: has_mac_def)
    with Some Cons.prems show ?thesis by auto
  qed
qed simp

lemma append_client_mset:
  assumes "list_ex (named n) as"
  shows "mset (concat (map ap_Clients (update_first (named n) (append_client c) as))) =
    add_mset c (mset (concat (map ap_Clients as)))"
  using assms by (induction as) auto

lemma move_client_result:
  assumes "move_client ip mac ap ssid d = (r, d')"
  shows "(r = Some (ClientNotFound mac ip) \<and> d' = d) \<or>
    (\<exists>c. c_MAC c = mac \<and>
      (r = None \<and> add_mset c (mset (device_clients d')) =
          add_mset (if ssid \<noteq> [] then c\<lparr>c_SSID := ssid\<rparr> else c) (mset (device_clients d)) \<or>
       r = Some (TargetAPNotFound ap ip) \<and> mset (device_clients d) = add_mset c (mset (device_clients d'))))"
proof (cases "take_client mac (d_APs d)")
  case (Pair rc as)
  show ?thesis
  proof (cases rc)
    case None
    with Pair assms show ?thesis by (simp add: move_client_def)
  next
    case (Some c)
    with Pair have t: "take_client mac (d_APs d) = (Some c, as)" by simp
    from take_client_Some [OF t] have c: "c_MAC c = mac"
      "mset (device_clients d) = add_mset c (mset (concat (map ap_Clients as)))"
      by (simp_all add: device_clients_def)
    show ?thesis
    proof (cases "list_ex (named ap) as")
      case True
      then have "r = None" "mset (device_clients d') =
          add_mset (if ssid \<noteq> [] then c\<lparr>c_SSID := ssid\<rparr> else c) (mset (concat (map ap_Clients as)))"
        using assms t by (auto simp: move_client_def Let_def device_clients_def append_client_mset [simplified] split: if_splits)
      with c show ?thesis by (intro disjI2 exI [of _ c]) (simp add: add_mset_commute)
    next
      case False
      then have "r = Some (TargetAPNotFound ap ip)" "device_clients d' = concat (map ap_Clients as)"
        using assms t by (auto simp: move_client_def Let_def device_clients_def)
      with c show ?thesis by auto
    qed
  qed
qed

section \<open>The abstract view: access points by site and name\<close>

definition ap_view :: "'os machine \<Rightarrow> string \<Rightarrow> string \<Rightarrow> ap option" where
  "ap_view m ip name = Option.bind (find (at ip) (m_devices m)) (\<lambda>d. find (named name) (d_APs d))"

lemma update_first_const:
  "find P xs = Some x \<Longrightarrow> update_first P f xs = update_first P (\<lambda>_. f x) xs"
  by (induction xs) (auto split: if_splits)

lemma on_device_lookup:
  assumes "find (at ip) (m_devices m) = Some d" and "body d = (None, d')" and "d_IP d' = ip"
  shows "fst (on_device env ip body m) = None \<and>
     find (at j) (m_devices (snd (on_device env ip body m))) =
       (if j = ip then Some (init_config env m d') else find (at j) (m_devices m))"
  using assms sites.lookup_update [of ip m d "init_config env m d'" j]
  by (simp add: on_device_def at_eq)

lemma on_device_None:
  assumes "on_device env ip body m = (None, m')"
  obtains d d' where "find (at ip) (m_devices m) = Some d" "body d = (None, d')"
  using assms by (auto simp: on_device_def split: option.splits prod.splits)

lemma ap_view_update:
  assumes m': "on_device env ip body m = (None, m')"
    and body: "\<And>d d'. body d = (None, d') \<Longrightarrow>
      list_ex (named name) (d_APs d) \<and> d' = d\<lparr>d_APs := update_first (named name) f (d_APs d)\<rparr>"
    and f: "\<And>a. ap_Name (f a) = ap_Name a"
  shows "ap_view m' j k = (if j = ip \<and> k = name then map_option f (ap_view m ip name) else ap_view m j k)"
proof -
  obtain d d' where d: "find (at ip) (m_devices m) = Some d" "body d = (None, d')"
    using m' by (rule on_device_None)
  have ip: "d_IP d = ip" using find_Some_memD [OF d(1)] by (simp add: at_def)
  have b: "list_ex (named name) (d_APs d)" "d' = d\<lparr>d_APs := update_first (named name) f (d_APs d)\<rparr>"
    using body [OF d(2)] by auto
  obtain a where a: "find (named name) (d_APs d) = Some a"
    using b(1) find_None_list_ex [of "named name" "d_APs d"] by auto
  have na: "ap_Name (f a) = name" using find_Some_memD [OF a] f by (simp add: named_def)
  have "find (named k) (d_APs d') = (if k = name then Some (f a) else find (named k) (d_APs d))"
    using aps.lookup_update [of name d a "f a" k] a na update_first_const [OF a, of f]
    by (simp add: b(2) named_eq)
  moreover have "find (at j) (m_devices m') = (if j = ip then Some (init_config env m d') else find (at j) (m_devices m))"
    using on_device_lookup [of ip m d body d' env j] d m' b(2) ip by simp
  ultimately show ?thesis
    using d(1) a by (auto simp: ap_view_def)
qed

text \<open>
  C8. Refinement: seen as a map from (site address, access point name) to access points,
  \<^verbatim>\<open>AddClient\<close> and \<^verbatim>\<open>UpdateAPSSIDs\<close>, when they succeed, change
  exactly one entry, the one they were asked to change (the client is appended, the SSIDs are
  replaced); every other access point of every site stays what it was.
\<close>

theorem client_ops_refine_ap_map:
  "(AddClient env ip name c m = (None, m') \<longrightarrow>
      (\<forall>j k. ap_view m' j k = (if j = ip \<and> k = name then map_option (append_client c) (ap_view m ip name) else ap_view m j k))) \<and>
   (UpdateAPSSIDs env ip name ssids m = (None, m'') \<longrightarrow>
      (\<forall>j k. ap_view m'' j k = (if j = ip \<and> k = name then map_option (\<lambda>a. a\<lparr>ap_SSIDs := ssids\<rparr>) (ap_view m ip name)
         else ap_view m j k)))"
proof (intro conjI impI allI)
  fix j k
  assume "AddClient env ip name c m = (None, m')"
  then show "ap_view m' j k = (if j = ip \<and> k = name then map_option (append_client c) (ap_view m ip name) else ap_view m j k)"
    unfolding AddClient_def by (rule ap_view_update) (auto simp: add_client_def split: if_splits)
next
  fix j k
  assume "UpdateAPSSIDs env ip name ssids m = (None, m'')"
  then show "ap_view m'' j k = (if j = ip \<and> k = name then map_option (\<lambda>a. a\<lparr>ap_SSIDs := ssids\<rparr>) (ap_view m ip name)
       else ap_view m j k)"
    unfolding UpdateAPSSIDs_def by (rule ap_view_update) (auto simp: set_ssids_def split: if_splits)
qed

definition linux_sim :: "(string \<times> string) list sim_env" where
  "linux_sim = \<lparr>e_net = linux_host, e_render = plain_env, e_yaml = toy_yaml empty_config\<rparr>"

definition one_site :: config where
  "one_site = \<lparr>cfg_Auth = empty_auth, cfg_Devices = [device_defaults (dev_at ''A'' ''10.0.0.1'')], cfg_TmplText = []\<rparr>"

definition plain_options :: options where
  "plain_options = \<lparr>o_StatePath = ''s.yaml'', o_SeedPath = [], o_LAN = False, o_Iface = []\<rparr>"

definition running :: "(string \<times> string) list machine" where
  "running = StartAll (NewSimulator one_site ''t'' plain_options empty_fs [(''10.0.0.1/32'', ''lo'')] True)"

lemma running_reachable: "sim_reachable linux_sim running"
  unfolding running_def
  by (rule sim_reachable.boot) (simp_all add: one_site_def site_ok_def has_default_ap_device_defaults)

theorem client_ops_refine_ap_map_witness:
  "map_option ap_SSIDs (ap_view (snd (UpdateAPSSIDs linux_sim ''10.0.0.1'' ''A'' [''corp''] running)) ''10.0.0.1'' ''A'')
   = Some [''corp'']"
proof -
  let ?r = "UpdateAPSSIDs linux_sim ''10.0.0.1'' ''A'' [''corp''] running"
  have "fst ?r = None" by code_simp
  then have "?r = (None, snd ?r)" by (metis prod.collapse)
  moreover have "ap_view running ''10.0.0.1'' ''A'' \<noteq> None" by code_simp
  ultimately show ?thesis
    using client_ops_refine_ap_map [of linux_sim "''10.0.0.1''" "''A''" empty_client running undefined "[''corp'']" "snd ?r"]
    by auto
qed


section \<open>Persistence\<close>

definition saved :: "'os sim_env \<Rightarrow> 'os machine \<Rightarrow> bool" where
  \<comment> \<open>the state file holds the document of the current snapshot\<close>
  "saved env m \<longleftrightarrow>
     (case Marshal (e_yaml env) (Snapshot m) of
        Inl _ \<Rightarrow> True
      | Inr data \<Rightarrow> m_statePath m = [] \<or> files (m_fs m) (m_statePath m) = Some data)"

lemma saved_saveLocked:
  assumes "no_faults (m_fs m)"
  shows "saved env (saveLocked env m)"
proof (cases "Marshal (e_yaml env) (Snapshot m)")
  case (Inl e)
  then show ?thesis by (simp add: saved_def Snapshot_def snapshotLocked_def)
next
  case (Inr data)
  from Save_no_faults [OF assms Inr, of "m_statePath m"]
  have "m_statePath m \<noteq> [] \<Longrightarrow> files (m_fs (saveLocked env m)) (m_statePath m) = Some data"
    by (auto simp: saveLocked_def Snapshot_def)
  moreover have "Snapshot (saveLocked env m) = Snapshot m"
    by (simp add: Snapshot_def snapshotLocked_def)
  ultimately show ?thesis using Inr by (auto simp: saved_def)
qed

lemma saved_save:
  assumes "save env m = (None, m')" and "no_faults (m_fs m)"
  shows "saved env m'"
proof (cases "m_statePath m = []")
  case True
  with assms show ?thesis by (simp add: save_def saved_def split: sum.split)
next
  case False
  with assms have "m' = saveLocked env m"
    by (auto simp: save_def saveLocked_def Snapshot_def Let_def split: prod.splits)
  with saved_saveLocked [OF assms(2)] show ?thesis by simp
qed

lemma saved_frame:
  assumes "Snapshot m' = Snapshot m" and "m_statePath m' = m_statePath m" and "m_fs m' = m_fs m"
  shows "saved env m' = saved env m"
  unfolding saved_def assms ..

lemma saved_on_device:
  assumes "on_device env ip body m = (None, m')" and "no_faults (m_fs m)"
  shows "saved env m'"
  using assms by (auto simp: on_device_def intro!: saved_saveLocked split: option.splits prod.splits)

lemma saved_AddDevice:
  assumes "AddDevice env now d m = (None, m')" and "no_faults (m_fs m)"
  shows "saved env m'"
proof -
  obtain d' m1 where "add_alias env d' m = (None, m1)" and m': "m' = add_publish env d' m1"
    using assms(1) by (auto simp: AddDevice_def split: sum.splits prod.splits option.splits)
  then have "no_faults (m_fs m1)" using add_alias_frame [of env d' m] assms(2) by simp
  then show ?thesis unfolding m' add_publish_def by (intro saved_saveLocked) simp
qed

lemma remove_cleanup_frame:
  "Snapshot (remove_cleanup env dh m) = Snapshot m"
  "m_statePath (remove_cleanup env dh m) = m_statePath m" "m_fs (remove_cleanup env dh m) = m_fs m"
  by (simp_all add: remove_cleanup_def Let_def Snapshot_def snapshotLocked_def split: option.split)

lemma saved_RemoveDevice:
  assumes "RemoveDevice env ip m = (None, m')" and "no_faults (m_fs m)"
  shows "saved env m'"
proof -
  obtain dh m1 where "remove_unpublish env ip m = (Inr dh, m1)" and m': "m' = remove_cleanup env dh m1"
    using assms(1) by (auto simp: RemoveDevice_def split: sum.splits prod.splits)
  then have "saved env m1"
    using assms(2) by (auto simp: remove_unpublish_def intro!: saved_saveLocked split: option.splits)
  then show ?thesis by (simp add: m' saved_frame [OF remove_cleanup_frame])
qed

lemma applyConfig_frame:
  assumes "applyConfig env now a ds m = (e, m')"
  shows "m_fs m' = m_fs m \<and> m_auth m' = a \<and> m_statePath m' = m_statePath m \<and> m_tmplText m' = m_tmplText m \<and>
    m_seedPath m' = m_seedPath m"
  using applyConfig_cases [OF assms] by (auto dest!: setupIPs_frame)

lemma saved_ImportConfig:
  assumes "ImportConfig env now data m = (None, m')" and "no_faults (m_fs m)"
  shows "saved env m'"
  using assms by (auto simp: ImportConfig_def dest!: applyConfig_frame intro: saved_save
      split: sum.splits prod.splits option.splits)

lemma saved_ClearAll:
  assumes "ClearAll env now m = (None, m')" and "no_faults (m_fs m)"
  shows "saved env m'"
  using assms by (auto simp: ClearAll_def dest!: applyConfig_frame intro: saved_save split: prod.splits option.splits)

lemma deleteState_None:
  assumes "deleteState m = (None, m')" and "m_statePath m \<noteq> []"
  shows "files (m_fs m') (m_statePath m) = None"
  using assms
  by (auto simp: deleteState_def Let_def Remove_def split: prod.splits option.splits fs_error.splits fault.splits if_splits)

text \<open>
  C2. On a file system without faults, every request that reports success leaves the state
  file holding the document of the new running state; a successful factory reset leaves no
  state file.
\<close>

theorem successful_change_is_saved:
  assumes "perform env now req m = (None, m')" and "no_faults (m_fs m)" and "m_statePath m \<noteq> []"
  shows "if req = ReqFactoryReset then files (m_fs m') (m_statePath m) = None else saved env m'"
proof (cases req)
  case ReqFactoryReset
  then show ?thesis
    using assms by (auto simp: FactoryReset_def dest!: applyConfig_frame dest: deleteState_None
        split: if_splits sum.splits prod.splits option.splits)
qed (use assms in \<open>auto simp: AddAP_def RemoveAP_def AddClient_def RemoveClient_def UpdateAPSSIDs_def UpdateClient_def
      intro: saved_on_device saved_AddDevice saved_RemoveDevice saved_ImportConfig saved_ClearAll\<close>)

theorem successful_change_is_saved_witness:
  "files (m_fs (snd (AddAP linux_sim ''10.0.0.1'' (empty_ap\<lparr>ap_Name := ''AP2''\<rparr>) running))) ''s.yaml''
   = Some (stateHeader @ ''doc'')"
proof -
  let ?a = "empty_ap\<lparr>ap_Name := ''AP2''\<rparr>"
  let ?m = "snd (AddAP linux_sim ''10.0.0.1'' ?a running)"
  have "fst (AddAP linux_sim ''10.0.0.1'' ?a running) = None" by code_simp
  then have p: "perform linux_sim 0 (ReqAddAP ''10.0.0.1'' ?a) running = (None, ?m)"
    by (metis perform.simps(3) prod.collapse)
  have "m_fs running = empty_fs" "m_statePath running = ''s.yaml''"
    by (simp_all add: running_def StartAll_def fold_frame NewSimulator_def plain_options_def)
  with successful_change_is_saved [OF p] have "saved linux_sim ?m" by simp
  moreover have "m_statePath ?m = ''s.yaml''" by code_simp
  ultimately show ?thesis
    by (simp add: saved_def linux_sim_def toy_yaml_def Marshal_def)
qed

section \<open>Reachable states, errors, clients\<close>



text \<open>
  C17. A request that fails changes nothing at all (memory, servers, aliases, files), except
  in the listed cases of an error in the middle of the work: the target access point of a move is
  missing, an alias command or the bring-up of a replaced set fails, the state file cannot
  be written or deleted.
\<close>

theorem failed_request_has_no_effect:
  assumes "perform env now req m = (Some e, m')" and "\<not> partial_effect e"
  shows "m' = m"
  by (rule perform_error_no_effect) (fact assms)+

theorem failed_request_has_no_effect_witness:
  "snd (RemoveAP linux_sim ''10.0.0.1'' ''A'' running) = running"
proof -
  have "fst (RemoveAP linux_sim ''10.0.0.1'' ''A'' running) = Some (DefaultAPLocked ''A'')" by code_simp
  then have "perform linux_sim 0 (ReqRemoveAP ''10.0.0.1'' ''A'') running =
      (Some (DefaultAPLocked ''A''), snd (RemoveAP linux_sim ''10.0.0.1'' ''A'' running))"
    by (metis perform.simps(4) prod.collapse)
  then show ?thesis by (rule failed_request_has_no_effect) simp
qed



definition one_client :: config where
  "one_client = \<lparr>cfg_Auth = empty_auth, cfg_Devices = [device_defaults ((dev_at ''A'' ''10.0.0.1'')\<lparr>d_APs :=
     [empty_ap\<lparr>ap_Name := ''A'', ap_Clients := [empty_client\<lparr>c_MAC := ''m1''\<rparr>]\<rparr>]\<rparr>)], cfg_TmplText = []\<rparr>"

definition with_client :: "(string \<times> string) list machine" where
  "with_client = StartAll (NewSimulator one_client ''t'' plain_options empty_fs [(''10.0.0.1/32'', ''lo'')] True)"


section \<open>Adding a site and removing it\<close>

lemma remove_first_last:
  "k \<notin> f ` set xs \<Longrightarrow> f y = k \<Longrightarrow> remove_first (\<lambda>x. f x = k) (xs @ [y]) = xs"
  by (induction xs) auto

lemma find_last:
  "k \<notin> f ` set xs \<Longrightarrow> f y = k \<Longrightarrow> find (\<lambda>x. f x = k) (xs @ [y]) = Some y"
  by (induction xs) auto

lemma AddDevice_result:
  assumes "AddDevice env now dev m = (None, m1)"
  obtains d where "d_IP d = d_IP dev" "d_IP dev \<notin> d_IP ` set (m_devices m)"
    "m1 = add_publish env d (m\<lparr>m_os := snd (AddIP (e_net env) (d_IP dev) (m_os m))\<rparr>)"
proof -
  obtain d where d: "add_check env now dev m = Inr d" "m1 = add_publish env d (snd (add_alias env d m))"
    using assms by (auto simp: AddDevice_def split: sum.splits prod.splits option.splits)
  with add_check_Inr [OF d(1)] show thesis by (intro that [of d]) (auto simp: add_alias_frame)
qed

text \<open>
  Adding a site and removing it again (in a reachable state): the removal succeeds, and
  sites, handle map and listening servers are exactly what they were; the alias commands
  run are \<^verbatim>\<open>AddIP\<close> and then \<^verbatim>\<open>RemoveIP\<close> for its address.
\<close>

theorem AddDevice_RemoveDevice:
  assumes "sim_reachable env m" and "AddDevice env now dev m = (None, m1)"
    and "RemoveDevice env (d_IP dev) m1 = (r, m2)"
  shows "r = None \<and> m_devices m2 = m_devices m \<and> m_handles m2 = m_handles m \<and> m_servers m2 = m_servers m \<and>
    m_panic m2 = None \<and>
    m_os m2 = snd (RemoveIP (e_net env) (d_IP dev) (snd (AddIP (e_net env) (d_IP dev) (m_os m))))"
proof -
  have wf: "sim_wf m" using assms(1) by (rule sim_reachable_wf)
  obtain d where d: "d_IP d = d_IP dev" "d_IP dev \<notin> d_IP ` set (m_devices m)"
    and m1: "m1 = add_publish env d (m\<lparr>m_os := snd (AddIP (e_net env) (d_IP dev) (m_os m))\<rparr>)"
    using assms(2) by (rule AddDevice_result)
  have k: "d_IP dev \<notin> fst ` set (m_handles m)"
    using wf d(2) by (metis list.set_map sim_wf_def)
  then have nk: "map_of (m_handles m) (d_IP dev) = None" by (simp add: map_of_eq_None_iff)
  have nx: "m_next m \<notin> fst ` set (m_servers m)"
    using wf unfolding sim_wf_def by fastforce
  then have fl: "filter (\<lambda>s. fst s \<noteq> m_next m) (m_servers m) = m_servers m"
    by (intro filter_True) (metis imageI)
  have dv: "m_devices m1 = m_devices m @ [d]" and hd: "m_handles m1 = m_handles m @ [(d_IP dev, m_next m)]"
    and sv: "m_servers m1 = (m_next m, d_IP dev) # m_servers m" and pn: "m_panic m1 = None"
    and os: "m_os m1 = snd (AddIP (e_net env) (d_IP dev) (m_os m))"
    using wf by (simp_all add: m1 add_publish_def d(1) upsert_fresh [OF k] sim_wf_def)
  have fd: "find (at (d_IP dev)) (m_devices m1) = Some d"
      "remove_first (at (d_IP dev)) (m_devices m1) = m_devices m"
    using d by (simp_all add: dv at_eq find_last remove_first_last)
  have fh: "map_of (m_handles m1) (d_IP dev) = Some (m_next m)"
      "remove_first (\<lambda>kv. fst kv = d_IP dev) (m_handles m1) = m_handles m"
    using nk k by (simp_all add: hd map_add_def remove_first_last)
  from assms(3) show ?thesis
    by (auto simp: RemoveDevice_def remove_unpublish_def remove_cleanup_def Let_def fd fh d(1)
        stopHandle_def sv pn os fl)
qed

definition bare :: "(string \<times> string) list machine" where
  "bare = StartAll (NewSimulator empty_config ''t'' plain_options empty_fs [] True)"

lemma bare_reachable: "sim_reachable env bare"
  unfolding bare_def by (rule sim_reachable.boot) (simp_all add: empty_config_def)

lemmas bare_run_simps =
  bare_def StartAll_def NewSimulator_def empty_config_def dev_at_def empty_device_def port_defaults_def
  add_check_def add_alias_def AddIP_def linux_sim_def linux_host_def EnsureDefaultAP_fields run_def host_run_def Let_def

theorem AddDevice_RemoveDevice_witness:
  "m_servers (snd (RemoveDevice linux_sim ''10.0.0.2'' (snd (AddDevice linux_sim 0 (dev_at ''B'' ''10.0.0.2'') bare))))
   = m_servers bare"
proof -
  let ?r = "AddDevice linux_sim 0 (dev_at ''B'' ''10.0.0.2'') bare"
  have "fst ?r = None" by (simp add: AddDevice_def bare_run_simps)
  then have a: "?r = (None, snd ?r)" by (metis prod.collapse)
  have "d_IP (dev_at ''B'' ''10.0.0.2'') = ''10.0.0.2''" by (simp add: dev_at_def)
  with AddDevice_RemoveDevice [OF bare_reachable a prod.collapse [symmetric]]
  show ?thesis by simp
qed

section \<open>Findings\<close>

text \<open>
  C36. The comment calls \<^verbatim>\<open>applyConfig\<close> an atomic replacement. When the
  addresses of the new set cannot be brought up it is not: in every such case the call has
  already stopped all servers and forgotten all sites, the credentials are the new ones, and
  the file system is untouched, so the state file still describes the old set.
\<close>

theorem applyConfig_failure_leaves_nothing_running:
  assumes "sim_wf m" and "applyConfig env now a ds m = (Some e, m')"
  shows "m_devices m' = [] \<and> m_handles m' = [] \<and> m_servers m' = [] \<and> m_auth m' = a \<and> m_fs m' = m_fs m"
proof -
  obtain err where "setupIPs env ds (tear_down env a m) = (Inl err, m')"
    using applyConfig_cases [OF assms(2)] by auto
  from setupIPs_frame [OF this] tear_down_wf [OF assms(1)] show ?thesis by auto
qed

theorem applyConfig_failure_leaves_nothing_running_witness:
  "m_devices (snd (applyConfig (linux_sim\<lparr>e_net := linux_host\<lparr>goos := OtherOS ''plan9''\<rparr>\<rparr>) 0 empty_auth
     [dev_at ''B'' ''10.0.0.2''] running)) = []"
proof -
  let ?env = "linux_sim\<lparr>e_net := linux_host\<lparr>goos := OtherOS ''plan9''\<rparr>\<rparr>"
  let ?r = "applyConfig ?env 0 empty_auth [dev_at ''B'' ''10.0.0.2''] running"
  have "fst ?r \<noteq> None" by code_simp
  then obtain e where "?r = (Some e, snd ?r)" by (metis option.exhaust prod.collapse)
  from applyConfig_failure_leaves_nothing_running [OF sim_reachable_wf [OF running_reachable] this]
  show ?thesis by simp
qed

text \<open>
  \<^verbatim>\<open>AddDevice\<close> and \<^verbatim>\<open>RemoveDevice\<close> do not look at the LAN
  mode: with it switched on they run exactly the same commands, on the loopback interface,
  and do everything else identically, while the sites of a loaded configuration are on
  the physical interface.
\<close>

theorem AddDevice_ignores_LAN_mode:
  "AddDevice env now dev (m\<lparr>m_lan := b, m_iface := i\<rparr>) =
     (fst (AddDevice env now dev m), (snd (AddDevice env now dev m))\<lparr>m_lan := b, m_iface := i\<rparr>)"
proof -
  have c: "add_check env now dev (m\<lparr>m_lan := b, m_iface := i\<rparr>) = add_check env now dev m"
    by (simp add: add_check_def init_config_def cong: if_cong)
  have a: "add_alias env d (m\<lparr>m_lan := b, m_iface := i\<rparr>) =
      (fst (add_alias env d m), (snd (add_alias env d m))\<lparr>m_lan := b, m_iface := i\<rparr>)" for d
    by (simp add: add_alias_def Let_def split: prod.split)
  have p: "add_publish env d (m'\<lparr>m_lan := b, m_iface := i\<rparr>) = (add_publish env d m')\<lparr>m_lan := b, m_iface := i\<rparr>" for d m'
    by (simp add: add_publish_def saveLocked_def start_device_def startDeviceServers_def snapshotLocked_def)
  show ?thesis
    unfolding AddDevice_def c
    by (simp add: a p split: sum.split prod.split option.split)
qed

definition two_adds :: "'os sim_env \<Rightarrow> int \<Rightarrow> device \<Rightarrow> device \<Rightarrow> 'os machine \<Rightarrow> sim_error option \<times> 'os machine" where
  \<comment> \<open>the interleaving in which both check, then both add the alias, then both publish\<close>
  "two_adds env now a b m =
     (case (add_check env now a m, add_check env now b m) of
        (Inl e, _) \<Rightarrow> (Some e, m)
      | (Inr _, Inl e) \<Rightarrow> (Some e, m)
      | (Inr d1, Inr d2) \<Rightarrow>
          (case add_alias env d1 m of
             (Some e, m1) \<Rightarrow> (Some e, m1)
           | (None, m1) \<Rightarrow>
               (case add_alias env d2 m1 of
                  (Some e, m2) \<Rightarrow> (Some e, m2)
                | (None, m2) \<Rightarrow> (None, add_publish env d2 (add_publish env d1 m2)))))"

lemma upsert_snoc_same: "k \<notin> fst ` set m \<Longrightarrow> upsert k v (m @ [(k, w)]) = m @ [(k, v)]"
  by (induction m) auto


definition darwin_sim :: "(string \<times> string) list sim_env" where
  "darwin_sim = linux_sim\<lparr>e_net := linux_host\<lparr>goos := Darwin\<rparr>\<rparr>"


text \<open>
  An imported document that gives two sites one address is accepted: both sites are
  listed, the handle of the first is overwritten, and its servers go on running after every
  later replacement of the set, even after \<^verbatim>\<open>ClearAll\<close>.
\<close>

theorem duplicate_import_leaks_servers:
  assumes "sim_reachable env m" and "\<not> m_lan m" and "applyConfig env now au [a, b] m = (None, m1)"
    and "d_IP a = ip" and "d_IP b = ip"
  shows "map d_IP (m_devices m1) = [ip, ip] \<and> m_handles m1 = [(ip, Suc (m_next m))] \<and>
    m_servers m1 = [(Suc (m_next m), ip), (m_next m, ip)] \<and>
    m_devices (snd (ClearAll env now m1)) = [] \<and> m_servers (snd (ClearAll env now m1)) = [(m_next m, ip)]"
proof -
  have wf: "sim_wf m" using assms(1) by (rule sim_reachable_wf)
  obtain ds m2 where s: "setupIPs env [a, b] (tear_down env au m) = (Inr ds, m2)"
    and m1: "m1 = fold (publish env now) ds m2"
    using applyConfig_cases [OF assms(3)] by auto
  have ds: "ds = [a, b]" using setupIPs_devices [OF s] assms(2) by simp
  obtain os av where m2: "m2 = (tear_down env au m)\<lparr>m_os := os, m_probe := av\<rparr>"
    using setupIPs_frame [OF s] by blast
  have m2s: "m_servers m2 = []" "m_devices m2 = []" "m_handles m2 = []" "m_next m2 = m_next m"
    using tear_down_wf [OF wf] by (simp_all add: m2)
  have 1: "map d_IP (m_devices m1) = [ip, ip]" "m_handles m1 = [(ip, Suc (m_next m))]"
    "m_servers m1 = [(Suc (m_next m), ip), (m_next m, ip)]"
    using assms(4,5) by (simp_all add: m1 ds m2s publish_def Let_def)
  have "m_servers (snd (ClearAll env now m1)) = [(m_next m, ip)]" "m_devices (snd (ClearAll env now m1)) = []"
    by (simp_all add: ClearAll_def applyConfig_def Let_def sim_wf_save save_def tear_down_def teardownIPs_def 1
        stopHandle_def split: prod.split)
  with 1 show ?thesis by simp
qed

theorem duplicate_import_leaks_servers_witness:
  "m_handles (snd (applyConfig linux_sim 0 empty_auth [dev_at ''B'' ''10.0.0.2'', dev_at ''C'' ''10.0.0.2''] running)) =
     [(''10.0.0.2'', Suc (m_next running))]"
proof -
  let ?r = "applyConfig linux_sim 0 empty_auth [dev_at ''B'' ''10.0.0.2'', dev_at ''C'' ''10.0.0.2''] running"
  have lan: "\<not> m_lan running"
    by (simp add: running_def StartAll_def fold_frame NewSimulator_def plain_options_def)
  have "fst (setupIPs linux_sim [dev_at ''B'' ''10.0.0.2'', dev_at ''C'' ''10.0.0.2''] (tear_down linux_sim empty_auth running))
      = Inr [dev_at ''B'' ''10.0.0.2'', dev_at ''C'' ''10.0.0.2'']" by code_simp
  then have "fst ?r = None" by (auto simp: applyConfig_def Let_def split: prod.split)
  then have "?r = (None, snd ?r)" by (metis prod.collapse)
  from duplicate_import_leaks_servers [OF running_reachable lan this, of "''10.0.0.2''"]
  show ?thesis by (simp add: dev_at_def)
qed

end
