(* ===== verification/AccessLog.thy ===== *)
theory AccessLog
  imports GoStrings
begin

text \<open>
  \<^verbatim>\<open>internal/accesslog/accesslog.go\<close>: the bounded log of access entries and
  its live subscribers. A subscriber's \<^verbatim>\<open>chan Entry\<close> is a bounded buffer
  with a closed flag, named by a number; \<open>store\<close> holds the buffers of the
  subscribers beside the fields of the Go struct. The critical section of
  \<^verbatim>\<open>Add\<close> (\<open>Add_locked\<close>) and the notifications that follow it outside
  the lock (\<open>notify\<close>) are separate definitions, composed by \<open>Add\<close> for one
  goroutine and interleaved by the step relation \<open>log_step\<close> for many.
\<close>

section \<open>State and operations\<close>

record entry =
  e_Timestamp :: int
  e_DeviceHost :: string
  e_DeviceIP :: string
  e_Type :: string
  e_Source :: string
  e_Method :: string
  e_Path :: string
  e_Status :: int
  e_Command :: string
  e_User :: string
  e_Detail :: string

definition empty_entry :: entry where
  "empty_entry = \<lparr>e_Timestamp = 0, e_DeviceHost = [], e_DeviceIP = [], e_Type = [], e_Source = [],
     e_Method = [], e_Path = [], e_Status = 0, e_Command = [], e_User = [], e_Detail = []\<rparr>"

record channel =
  ch_buf :: "entry list"
  ch_closed :: bool

record store =
  entries :: "entry list"
  maxSize :: int
  listeners :: "nat list"
  chans :: "nat \<Rightarrow> channel option"
  next_chan :: nat

definition listener_cap :: nat where
  "listener_cap = 64"

definition NewStore :: "int \<Rightarrow> panic + store" where
  "NewStore n =
     (if n < 0 then Inl MakeNegativeLength
      else Inr \<lparr>entries = [], maxSize = n, listeners = [], chans = (\<lambda>_. None), next_chan = 0\<rparr>)"

definition stamp :: "int \<Rightarrow> entry \<Rightarrow> entry" where
  "stamp now e = (if e_Timestamp e = 0 then e\<lparr>e_Timestamp := now\<rparr> else e)"

definition evict :: "store \<Rightarrow> panic + store" where
  \<comment> \<open>\<^verbatim>\<open>if len(s.entries) >= s.maxSize { s.entries = s.entries[1:] }\<close>\<close>
  "evict s =
     (if int (length (entries s)) \<ge> maxSize s
      then (if entries s = [] then Inl SliceBoundsOutOfRange
            else Inr (s\<lparr>entries := tl (entries s)\<rparr>))
      else Inr s)"

definition Add_locked :: "entry \<Rightarrow> store \<Rightarrow> panic + (nat list \<times> store)" where
  "Add_locked e s =
     on_ok (\<lambda>s1. Inr (listeners s1, s1\<lparr>entries := entries s1 @ [e]\<rparr>)) (evict s)"

definition notify :: "entry \<Rightarrow> nat \<Rightarrow> store \<Rightarrow> panic + store" where
  \<comment> \<open>the \<^verbatim>\<open>select\<close> with a \<^verbatim>\<open>default\<close> branch: a full buffer drops the entry, a closed channel panics\<close>
  "notify e ch s =
     (case chans s ch of
        None \<Rightarrow> Inr s
      | Some c \<Rightarrow>
          if ch_closed c then Inl SendOnClosedChannel
          else if length (ch_buf c) < listener_cap
          then Inr (s\<lparr>chans := (chans s)(ch \<mapsto> c\<lparr>ch_buf := ch_buf c @ [e]\<rparr>)\<rparr>)
          else Inr s)"

fun notify_all :: "entry \<Rightarrow> nat list \<Rightarrow> store \<Rightarrow> panic + store" where
  "notify_all e [] s = Inr s"
| "notify_all e (ch # chs) s = on_ok (notify_all e chs) (notify e ch s)"

definition Add :: "int \<Rightarrow> entry \<Rightarrow> store \<Rightarrow> panic + store" where
  "Add now e s =
     (let e' = stamp now e
      in on_ok (\<lambda>(ls, s1). notify_all e' ls s1) (Add_locked e' s))"

definition Recent :: "int \<Rightarrow> store \<Rightarrow> panic + entry list" where
  "Recent n s =
     (let total = int (length (entries s));
          m = (if n > total then total else n)
      in if m < 0 then Inl MakeNegativeLength
         else Inr (drop (nat (total - m)) (entries s)))"

definition Subscribe :: "store \<Rightarrow> nat \<times> store" where
  "Subscribe s =
     (let ch = next_chan s
      in (ch, s\<lparr>listeners := listeners s @ [ch],
               chans := (chans s)(ch \<mapsto> \<lparr>ch_buf = [], ch_closed = False\<rparr>),
               next_chan := Suc ch\<rparr>))"

definition close_chan :: "nat \<Rightarrow> store \<Rightarrow> panic + store" where
  "close_chan ch s =
     (case chans s ch of
        None \<Rightarrow> Inr s
      | Some c \<Rightarrow> if ch_closed c then Inl CloseOfClosedChannel
                  else Inr (s\<lparr>chans := (chans s)(ch \<mapsto> c\<lparr>ch_closed := True\<rparr>)\<rparr>))"

definition Unsubscribe :: "nat \<Rightarrow> store \<Rightarrow> panic + store" where
  "Unsubscribe ch s =
     (if ch \<in> set (listeners s)
      then close_chan ch (s\<lparr>listeners := remove_first (\<lambda>l. l = ch) (listeners s)\<rparr>)
      else Inr s)"

definition Receive :: "nat \<Rightarrow> store \<Rightarrow> (entry option \<times> store) option" where
  \<comment> \<open>the receive of the streaming handler: None blocks, \<open>Some (None, _)\<close> is a closed channel\<close>
  "Receive ch s =
     (case chans s ch of
        None \<Rightarrow> None
      | Some c \<Rightarrow>
          (case ch_buf c of
             e # es \<Rightarrow> Some (Some e, s\<lparr>chans := (chans s)(ch \<mapsto> c\<lparr>ch_buf := es\<rparr>)\<rparr>)
           | [] \<Rightarrow> if ch_closed c then Some (None, s) else None))"

section \<open>Well-formed stores\<close>

definition store_wf :: "store \<Rightarrow> bool" where
  "store_wf s \<longleftrightarrow>
     0 < maxSize s \<and> int (length (entries s)) \<le> maxSize s \<and> distinct (listeners s) \<and>
     (\<forall>ch \<in> set (listeners s). ch < next_chan s \<and> (\<exists>c. chans s ch = Some c \<and> \<not> ch_closed c)) \<and>
     (\<forall>ch c. chans s ch = Some c \<longrightarrow> ch < next_chan s \<and> length (ch_buf c) \<le> listener_cap)"

lemma NewStore_wf: "NewStore n = Inr s \<Longrightarrow> 0 < n \<Longrightarrow> store_wf s"
  by (auto simp: NewStore_def store_wf_def split: if_splits)

lemma notify_frame [state_frame]:
  "notify e ch s = Inr s' \<Longrightarrow>
     entries s' = entries s \<and> maxSize s' = maxSize s \<and> listeners s' = listeners s \<and>
     next_chan s' = next_chan s"
  by (auto simp: notify_def split: option.splits if_splits)

lemma notify_chans:
  "notify e ch s = Inr s' \<Longrightarrow> chans s' c = (if c = ch then
     map_option (\<lambda>x. if length (ch_buf x) < listener_cap then x\<lparr>ch_buf := ch_buf x @ [e]\<rparr> else x) (chans s ch)
     else chans s c)"
  by (auto simp: notify_def split: option.splits if_splits)

lemma notify_wf: "notify e ch s = Inr s' \<Longrightarrow> store_wf s \<Longrightarrow> store_wf s'"
  by (auto simp: notify_def store_wf_def split: option.splits if_splits)

lemma notify_ok: "store_wf s \<Longrightarrow> ch \<in> set (listeners s) \<Longrightarrow> \<exists>s'. notify e ch s = Inr s'"
  by (auto simp: notify_def store_wf_def split: option.splits)

lemma notify_all_ok:
  "store_wf s \<Longrightarrow> set chs \<subseteq> set (listeners s) \<Longrightarrow>
     \<exists>s'. notify_all e chs s = Inr s' \<and> store_wf s' \<and> entries s' = entries s \<and>
       maxSize s' = maxSize s \<and> listeners s' = listeners s \<and> next_chan s' = next_chan s"
proof (induction chs arbitrary: s)
  case Nil
  then show ?case by simp
next
  case (Cons ch chs)
  from notify_ok [OF Cons.prems(1)] Cons.prems(2)
  obtain s1 where s1: "notify e ch s = Inr s1" by force
  note f = notify_frame [OF s1] and w = notify_wf [OF s1 Cons.prems(1)]
  from Cons.IH [OF w] Cons.prems(2) f show ?case by (simp add: s1)
qed

lemma evict_ok:
  "store_wf s \<Longrightarrow> evict s = Inr (s\<lparr>entries := last_n (nat (maxSize s) - 1) (entries s)\<rparr>)"
proof -
  assume wf: "store_wf s"
  show ?thesis
  proof (cases "int (length (entries s)) \<ge> maxSize s")
    case True
    with wf obtain x xs where e: "entries s = x # xs" and "maxSize s = int (Suc (length xs))"
      by (cases "entries s") (auto simp: store_wf_def)
    then have "nat (maxSize s) - 1 = length xs" by simp
    with True e show ?thesis by (simp add: evict_def last_n_def)
  next
    case False
    then have "last_n (nat (maxSize s) - 1) (entries s) = entries s"
      by (intro last_n_all) simp
    with False show ?thesis by (simp add: evict_def)
  qed
qed

definition Add_ok :: "int \<Rightarrow> entry \<Rightarrow> store \<Rightarrow> store" where
  "Add_ok now e s = (case Add now e s of Inr s' \<Rightarrow> s' | Inl _ \<Rightarrow> s)"

lemma Add_result:
  assumes "store_wf s"
  shows "Add now e s = Inr (Add_ok now e s) \<and> store_wf (Add_ok now e s) \<and>
    entries (Add_ok now e s) = last_n (nat (maxSize s)) (entries s @ [stamp now e]) \<and>
    maxSize (Add_ok now e s) = maxSize s \<and> listeners (Add_ok now e s) = listeners s"
proof -
  let ?e = "stamp now e"
  let ?s1 = "s\<lparr>entries := last_n (nat (maxSize s) - 1) (entries s) @ [?e]\<rparr>"
  have l: "Add_locked ?e s = Inr (listeners s, ?s1)"
    using evict_ok [OF assms] by (simp add: Add_locked_def)
  have "store_wf ?s1"
    using assms by (auto simp: store_wf_def min_def)
  from notify_all_ok [OF this, of "listeners s" ?e]
  obtain s' where "notify_all ?e (listeners s) ?s1 = Inr s'" "store_wf s'" "entries s' = entries ?s1"
    "maxSize s' = maxSize s" "listeners s' = listeners s" by auto
  moreover have "entries ?s1 = last_n (nat (maxSize s)) (entries s @ [?e])"
    using assms last_n_snoc [of "nat (maxSize s) - 1" "entries s" ?e]
    by (simp add: store_wf_def)
  ultimately show ?thesis
    using l by (simp add: Add_ok_def Add_def Let_def)
qed

section \<open>The log as a sink for other components\<close>

text \<open>
  What the protocol servers and the updater rely on: an entry added becomes the newest
  one of the history, the history stays a suffix of everything added, and adding keeps
  the log usable.
\<close>

locale log_sink =
  fixes add :: "'e \<Rightarrow> 's \<Rightarrow> 's"
    and history :: "'s \<Rightarrow> 'e list"
    and usable :: "'s \<Rightarrow> bool"
    and capacity :: "'s \<Rightarrow> nat"
  assumes usable_add: "usable s \<Longrightarrow> usable (add e s)"
    and capacity_add: "usable s \<Longrightarrow> capacity (add e s) = capacity s"
    and capacity_pos: "usable s \<Longrightarrow> 0 < capacity s"
    and history_add: "usable s \<Longrightarrow> history (add e s) = last_n (capacity s) (history s @ [e])"
    and history_bounded: "usable s \<Longrightarrow> length (history s) \<le> capacity s"
begin

lemma usable_fold: "usable s \<Longrightarrow> usable (fold add es s) \<and> capacity (fold add es s) = capacity s"
  by (induction es arbitrary: s) (auto simp: usable_add capacity_add)

lemma history_fold:
  "usable s \<Longrightarrow> history (fold add es s) = last_n (capacity s) (history s @ es)"
proof (induction es rule: rev_induct)
  case Nil
  then show ?case by (simp add: last_n_all history_bounded)
next
  case (snoc e es)
  let ?n = "capacity s"
  have n: "0 < ?n" by (rule capacity_pos [OF snoc.prems])
  have "history (fold add (es @ [e]) s) = last_n ?n (last_n ?n (history s @ es) @ [e])"
    using snoc usable_fold [OF snoc.prems] by (simp add: history_add)
  also have "\<dots> = last_n (?n - 1) (last_n ?n (history s @ es)) @ [e]"
    using n last_n_snoc [of "?n - 1"] by simp
  also have "\<dots> = last_n ?n (history s @ es @ [e])"
    using n last_n_snoc [of "?n - 1" "history s @ es" e] by (simp add: last_n_last_n)
  finally show ?case .
qed

lemma last_history_add: "usable s \<Longrightarrow> history (add e s) \<noteq> [] \<and> last (history (add e s)) = e"
  using capacity_pos [of s] last_n_snoc [of "capacity s - 1" "history s" e] by (simp add: history_add)

end

definition add_stamped :: "entry \<Rightarrow> store \<Rightarrow> store" where
  \<comment> \<open>adding an entry that already carries its timestamp\<close>
  "add_stamped e s = Add_ok (e_Timestamp e) e s"

lemma stamp_own [simp]: "stamp (e_Timestamp e) e = e"
  by (simp add: stamp_def)

interpretation log: log_sink add_stamped entries store_wf "\<lambda>s. nat (maxSize s)"
proof (unfold_locales, goal_cases)
  case (1 s e)
  then show ?case using Add_result [of s "e_Timestamp e" e] by (simp add: add_stamped_def)
next
  case (2 s e)
  then show ?case using Add_result [of s "e_Timestamp e" e] by (simp add: add_stamped_def)
next
  case (3 s)
  then show ?case by (simp add: store_wf_def)
next
  case (4 s e)
  then show ?case using Add_result [of s "e_Timestamp e" e] by (simp add: add_stamped_def)
next
  case (5 s)
  then show ?case by (simp add: store_wf_def le_nat_iff)
qed

lemma Add_ok_stamped: "Add_ok now e s = add_stamped (stamp now e) s"
  by (simp add: add_stamped_def Add_ok_def Add_def stamp_def Let_def)

lemma Recent_ok:
  "store_wf s \<Longrightarrow> 0 \<le> n \<Longrightarrow> Recent n s = Inr (last_n (nat n) (entries s))"
  by (auto simp: Recent_def last_n_def Let_def nat_diff_distrib)

text \<open>
  C33. The store is a faithful ring buffer: starting from any usable store (at most
  \<^verbatim>\<open>maxSize\<close> entries, positive capacity), recording a sequence of entries
  never panics and leaves exactly the last \<^verbatim>\<open>maxSize\<close> of everything ever
  recorded, oldest first; \<^verbatim>\<open>Recent(n)\<close> then returns the last
  \<open>min n maxSize\<close> of them.
\<close>

theorem ring_buffer_history:
  assumes "store_wf s" and "0 \<le> n"
  shows "Recent n (fold (Add_ok now) es s) =
    Inr (last_n (min (nat n) (nat (maxSize s))) (entries s @ map (stamp now) es))"
proof -
  let ?s' = "fold (Add_ok now) es s"
  have f: "?s' = fold add_stamped (map (stamp now) es) s"
    by (induction es arbitrary: s) (simp_all add: Add_ok_stamped)
  have wf: "store_wf ?s'"
    using log.usable_fold [OF assms(1)] by (simp add: f)
  have "entries ?s' = last_n (nat (maxSize s)) (entries s @ map (stamp now) es)"
    using log.history_fold [OF assms(1)] by (simp add: f)
  moreover have "last_n (nat n) (last_n (nat (maxSize s)) xs) = last_n (min (nat n) (nat (maxSize s))) xs"
    for xs :: "entry list"
    by (cases "nat n \<le> nat (maxSize s)") (simp_all add: last_n_last_n last_n_all min_def)
  ultimately show ?thesis
    using Recent_ok [OF wf assms(2)] by simp
qed

definition sample_store :: store where
  "sample_store = \<lparr>entries = [], maxSize = 2, listeners = [0],
     chans = [0 \<mapsto> \<lparr>ch_buf = [], ch_closed = False\<rparr>], next_chan = 1\<rparr>"

lemma sample_store_wf: "store_wf sample_store"
  by (simp add: sample_store_def store_wf_def)

theorem ring_buffer_history_witness:
  "Recent 5 (fold (Add_ok 7) [empty_entry\<lparr>e_Path := ''a''\<rparr>, empty_entry\<lparr>e_Path := ''b''\<rparr>,
      empty_entry\<lparr>e_Path := ''c''\<rparr>] sample_store) =
   Inr [empty_entry\<lparr>e_Path := ''b'', e_Timestamp := 7\<rparr>, empty_entry\<lparr>e_Path := ''c'', e_Timestamp := 7\<rparr>]"
  by (subst ring_buffer_history [OF sample_store_wf])
    (simp_all add: sample_store_def last_n_def stamp_def empty_entry_def)

section \<open>Delivery to subscribers\<close>

lemma notify_all_chans:
  assumes "notify_all e chs s = Inr s'" and "distinct chs"
  shows "chans s' c = (if c \<in> set chs then
     map_option (\<lambda>x. if length (ch_buf x) < listener_cap then x\<lparr>ch_buf := ch_buf x @ [e]\<rparr> else x) (chans s c)
     else chans s c)"
  using assms
proof (induction chs arbitrary: s)
  case Nil
  then show ?case by simp
next
  case (Cons ch chs)
  from Cons.prems(1) obtain s1 where s1: "notify e ch s = Inr s1" "notify_all e chs s1 = Inr s'"
    by (cases "notify e ch s") auto
  from Cons.IH [OF s1(2)] Cons.prems(2) notify_chans [OF s1(1)] show ?case by auto
qed

lemma Add_ok_chans:
  assumes "store_wf s" and "ch \<in> set (listeners s)"
  shows "chans (Add_ok now e s) ch =
    map_option (\<lambda>x. x\<lparr>ch_buf := take listener_cap (ch_buf x @ [stamp now e])\<rparr>) (chans s ch)"
proof -
  obtain s1 where l: "Add_locked (stamp now e) s = Inr (listeners s, s1)" and c1: "chans s1 = chans s"
    using evict_ok [OF assms(1)] by (auto simp: Add_locked_def)
  have r: "notify_all (stamp now e) (listeners s) s1 = Inr (Add_ok now e s)"
    using Add_result [OF assms(1), of now e] l by (simp add: Add_def Let_def)
  from assms obtain x where x: "chans s ch = Some x" and b: "length (ch_buf x) \<le> listener_cap"
    by (auto simp: store_wf_def)
  have "distinct (listeners s)"
    using assms(1) by (simp add: store_wf_def)
  from notify_all_chans [OF r this, of ch] assms(2) x b show ?thesis
    by (cases "length (ch_buf x) = listener_cap") (auto simp: c1)
qed

lemma Subscribe_wf: "store_wf s \<Longrightarrow> Subscribe s = (ch, s1) \<Longrightarrow> store_wf s1"
  by (auto simp: Subscribe_def Let_def store_wf_def less_Suc_eq split: if_splits)

text \<open>
  Delivery to a live subscriber is in order and bounded: while it does not read, a
  subscriber's channel holds the entries recorded since it subscribed, in order, cut off
  at the 64 entries its buffer can hold; recording never blocks and never panics.
\<close>

theorem subscriber_delivery:
  assumes "store_wf s" and "Subscribe s = (ch, s1)"
  shows "\<exists>c. chans (fold (Add_ok now) es s1) ch = Some c \<and> \<not> ch_closed c \<and>
    ch_buf c = take listener_cap (map (stamp now) es)"
proof -
  have wf1: "store_wf s1"
    using assms by (rule Subscribe_wf)
  have in1: "ch \<in> set (listeners s1)" and c1: "chans s1 ch = Some \<lparr>ch_buf = [], ch_closed = False\<rparr>"
    using assms(2) by (auto simp: Subscribe_def Let_def)
  have "store_wf (fold (Add_ok now) es s1) \<and> ch \<in> set (listeners (fold (Add_ok now) es s1)) \<and>
    chans (fold (Add_ok now) es s1) ch =
      Some \<lparr>ch_buf = take listener_cap (map (stamp now) es), ch_closed = False\<rparr>"
  proof (induction es rule: rev_induct)
    case Nil
    then show ?case using wf1 in1 c1 by simp
  next
    case (snoc e es)
    let ?t = "fold (Add_ok now) es s1"
    have "take listener_cap (take listener_cap xs @ [y]) = take listener_cap (xs @ [y])"
      for xs :: "entry list" and y by (simp add: min_def)
    with snoc Add_result [of ?t now e] Add_ok_chans [of ?t ch now e] show ?case by simp
  qed
  then show ?thesis by simp
qed

theorem subscriber_delivery_witness:
  "\<exists>c. chans (fold (Add_ok 7) [empty_entry] (snd (Subscribe sample_store))) 1 = Some c \<and> \<not> ch_closed c \<and>
    ch_buf c = take listener_cap (map (stamp 7) [empty_entry])"
  by (rule subscriber_delivery [OF sample_store_wf]) (simp add: Subscribe_def sample_store_def)

section \<open>Concurrent use\<close>

text \<open>
  Many goroutines: a logger that has left the critical section of \<^verbatim>\<open>Add\<close>
  holds its entry and the listeners it copied and has still to notify. The steps of the
  system are the critical sections and the single channel sends.
\<close>

record log_system =
  ls_store :: store
  ls_pending :: "(entry \<times> nat list) list"
  ls_panic :: "panic option"

inductive log_step :: "log_system \<Rightarrow> log_system \<Rightarrow> bool" where
  add: "ls_panic t = None \<Longrightarrow> Add_locked (stamp now e) (ls_store t) = Inr (chs, s') \<Longrightarrow>
     log_step t (t\<lparr>ls_store := s', ls_pending := ls_pending t @ [(stamp now e, chs)]\<rparr>)"
| send: "ls_panic t = None \<Longrightarrow> ls_pending t = ps @ (e, ch # chs) # qs \<Longrightarrow>
     notify e ch (ls_store t) = Inr s' \<Longrightarrow>
     log_step t (t\<lparr>ls_store := s', ls_pending := ps @ (e, chs) # qs\<rparr>)"
| send_panic: "ls_panic t = None \<Longrightarrow> ls_pending t = ps @ (e, ch # chs) # qs \<Longrightarrow>
     notify e ch (ls_store t) = Inl p \<Longrightarrow> log_step t (t\<lparr>ls_panic := Some p\<rparr>)"
| subscribe: "ls_panic t = None \<Longrightarrow> Subscribe (ls_store t) = (ch, s') \<Longrightarrow>
     log_step t (t\<lparr>ls_store := s'\<rparr>)"
| unsubscribe: "ls_panic t = None \<Longrightarrow> Unsubscribe ch (ls_store t) = Inr s' \<Longrightarrow>
     log_step t (t\<lparr>ls_store := s'\<rparr>)"

inductive log_reachable :: "log_system \<Rightarrow> bool" where
  start: "NewStore n = Inr s \<Longrightarrow> 0 < n \<Longrightarrow>
     log_reachable \<lparr>ls_store = s, ls_pending = [], ls_panic = None\<rparr>"
| step: "log_reachable t \<Longrightarrow> log_step t t' \<Longrightarrow> log_reachable t'"

lemma Add_locked_wf:
  assumes "store_wf s" and "Add_locked e s = Inr (chs, s')"
  shows "store_wf s' \<and> chs = listeners s"
proof -
  have "s' = s\<lparr>entries := last_n (nat (maxSize s) - 1) (entries s) @ [e]\<rparr>" and "chs = listeners s"
    using assms(2) evict_ok [OF assms(1)] by (auto simp: Add_locked_def)
  with assms(1) show ?thesis by (auto simp: store_wf_def min_def)
qed

lemma Unsubscribe_ok: "store_wf s \<Longrightarrow> \<exists>s'. Unsubscribe ch s = Inr s'"
  by (auto simp: Unsubscribe_def close_chan_def store_wf_def split: option.splits)

lemma Unsubscribe_wf: "store_wf s \<Longrightarrow> Unsubscribe ch s = Inr s' \<Longrightarrow> store_wf s'"
proof (cases "ch \<in> set (listeners s)")
  case False
  then show "store_wf s \<Longrightarrow> Unsubscribe ch s = Inr s' \<Longrightarrow> store_wf s'"
    by (simp add: Unsubscribe_def)
next
  case True
  assume wf: "store_wf s" and u: "Unsubscribe ch s = Inr s'"
  then obtain c where c: "chans s ch = Some c" and s': "s' = s\<lparr>listeners := remove_first (\<lambda>l. l = ch) (listeners s),
      chans := (chans s)(ch \<mapsto> c\<lparr>ch_closed := True\<rparr>)\<rparr>"
    using True by (auto simp: Unsubscribe_def close_chan_def store_wf_def split: option.splits if_splits)
  have "set (remove_first (\<lambda>l. l = ch) (listeners s)) = set (listeners s) - {ch}"
    using set_map_remove_first_key [of id "listeners s" ch] wf by (simp add: store_wf_def)
  moreover have "distinct (remove_first (\<lambda>l. l = ch) (listeners s))"
    using distinct_map_remove_first [of id "listeners s"] wf by (simp add: store_wf_def)
  ultimately show "store_wf s'"
    using wf c s' by (auto simp: store_wf_def split: if_splits)
qed

lemma notify_panic: "notify e ch s = Inl p \<Longrightarrow> p = SendOnClosedChannel"
  by (auto simp: notify_def split: option.splits if_splits)

definition log_inv :: "log_system \<Rightarrow> bool" where
  "log_inv t \<longleftrightarrow> store_wf (ls_store t) \<and> (ls_panic t = None \<or> ls_panic t = Some SendOnClosedChannel)"

lemma log_step_inv: "log_step t t' \<Longrightarrow> log_inv t \<Longrightarrow> log_inv t'"
  by (induction rule: log_step.induct)
    (auto simp: log_inv_def dest: Add_locked_wf notify_wf notify_panic Subscribe_wf Unsubscribe_wf)

text \<open>
  Whatever the interleaving of loggers, subscribers and departures, the shared store
  stays within its capacity with distinct, open listener channels of at most 64 pending
  entries, and the slice operations and \<^verbatim>\<open>close\<close> never panic: the send
  on a closed channel is the only panic of the package.
\<close>

theorem log_reachable_wf:
  assumes "log_reachable t"
  shows "store_wf (ls_store t) \<and> (ls_panic t = None \<or> ls_panic t = Some SendOnClosedChannel)"
proof -
  from assms have "log_inv t"
    by (induction rule: log_reachable.induct) (auto simp: log_inv_def NewStore_wf dest: log_step_inv)
  then show ?thesis by (simp add: log_inv_def)
qed

theorem log_reachable_wf_witness:
  "store_wf (ls_store \<lparr>ls_store = \<lparr>entries = [], maxSize = 10000, listeners = [], chans = Map.empty,
     next_chan = 0\<rparr>, ls_pending = [], ls_panic = None\<rparr>)"
  by (rule conjunct1 [OF log_reachable_wf], rule log_reachable.start [of 10000])
    (simp_all add: NewStore_def)

text \<open>
  C40. \<^verbatim>\<open>Add\<close> copies the listener slice under the lock but sends after
  releasing it, and \<^verbatim>\<open>Unsubscribe\<close> closes the channel. A subscriber that
  leaves between the two makes the sender panic on a closed channel: such a state is
  reachable from a fresh store with one subscriber and one recorded entry. (The
  \<^verbatim>\<open>default\<close> branch of the select protects against a full channel only.)
\<close>

theorem unsubscribe_race_panics:
  "\<exists>t. log_reachable t \<and> ls_panic t = Some SendOnClosedChannel"
proof -
  let ?s0 = "\<lparr>entries = [], maxSize = 10000, listeners = [], chans = Map.empty, next_chan = 0\<rparr>"
  let ?o = "\<lparr>ch_buf = [], ch_closed = False\<rparr>"
  let ?s1 = "?s0\<lparr>listeners := [0], chans := [0 \<mapsto> ?o], next_chan := 1\<rparr>"
  let ?e = "stamp 1 empty_entry"
  let ?s2 = "?s1\<lparr>entries := [?e]\<rparr>"
  let ?s3 = "?s2\<lparr>listeners := [], chans := [0 \<mapsto> ?o\<lparr>ch_closed := True\<rparr>]\<rparr>"
  have "log_reachable \<lparr>ls_store = ?s0, ls_pending = [], ls_panic = None\<rparr>"
    by (rule log_reachable.start [of 10000]) (simp_all add: NewStore_def)
  then have "log_reachable \<lparr>ls_store = ?s1, ls_pending = [], ls_panic = None\<rparr>"
    using log_reachable.step log_step.subscribe
      [of "\<lparr>ls_store = ?s0, ls_pending = [], ls_panic = None\<rparr>" 0 ?s1]
    by (fastforce simp: Subscribe_def)
  then have "log_reachable \<lparr>ls_store = ?s2, ls_pending = [(?e, [0])], ls_panic = None\<rparr>"
    using log_reachable.step log_step.add
      [of "\<lparr>ls_store = ?s1, ls_pending = [], ls_panic = None\<rparr>" 1 empty_entry "[0]" ?s2]
    by (fastforce simp: Add_locked_def evict_def)
  then have "log_reachable \<lparr>ls_store = ?s3, ls_pending = [(?e, [0])], ls_panic = None\<rparr>"
    using log_reachable.step log_step.unsubscribe
      [of "\<lparr>ls_store = ?s2, ls_pending = [(?e, [0])], ls_panic = None\<rparr>" 0 ?s3]
    by (fastforce simp: Unsubscribe_def close_chan_def)
  then have "log_reachable \<lparr>ls_store = ?s3, ls_pending = [(?e, [0])], ls_panic = Some SendOnClosedChannel\<rparr>"
    using log_reachable.step log_step.send_panic
      [of "\<lparr>ls_store = ?s3, ls_pending = [(?e, [0])], ls_panic = None\<rparr>" "[]" ?e 0 "[]" "[]" SendOnClosedChannel]
    by (fastforce simp: notify_def)
  then show ?thesis by fastforce
qed

end
