(* ===== verification/Version.thy ===== *)
theory Version
  imports GoStrings
begin

text \<open>
  \<^verbatim>\<open>internal/updater/version.go\<close>: the lenient version comparison that decides
  whether a release is newer than the running build. The array \<^verbatim>\<open>[3]int\<close>
  of the code is the datatype \<open>version\<close>, ordered lexicographically;
  \<open>parseVersion\<close>, \<open>compareVersions\<close> and \<open>isNewer\<close> are the
  code's functions. The locale \<open>release_order\<close> is what the updater needs from
  the comparison.
\<close>

section \<open>The version core\<close>

datatype version = Version (major: int) (minor: int) (patch: int)

fun version_array :: "version \<Rightarrow> int list" where
  "version_array (Version a b c) = [a, b, c]"

instantiation version :: linorder
begin

definition less_eq_version :: "version \<Rightarrow> version \<Rightarrow> bool" where
  "less_eq_version v w \<longleftrightarrow>
     major v < major w \<or> (major v = major w \<and>
       (minor v < minor w \<or> (minor v = minor w \<and> patch v \<le> patch w)))"

definition less_version :: "version \<Rightarrow> version \<Rightarrow> bool" where
  "less_version v w \<longleftrightarrow>
     major v < major w \<or> (major v = major w \<and>
       (minor v < minor w \<or> (minor v = minor w \<and> patch v < patch w)))"

instance
  by standard (auto simp: less_eq_version_def less_version_def version.expand)

end

definition version_component :: "string \<Rightarrow> int" where
  "version_component part =
     (case Atoi (takeWhile is_digit part) of Some n \<Rightarrow> n | None \<Rightarrow> 0)"

definition version_core :: "string \<Rightarrow> string" where
  "version_core s =
     (let s1 = TrimPrefix (TrimPrefix (TrimSpace s) ''v'') ''V''
      in takeWhile (\<lambda>c. c \<noteq> CHR ''-'' \<and> c \<noteq> CHR ''+'' \<and> c \<noteq> CHR '' '') s1)"

definition parseVersion :: "string \<Rightarrow> version" where
  "parseVersion s =
     (case map version_component (splitn 3 (CHR ''.'') (version_core s)) of
        [a, b, c] \<Rightarrow> Version a b c
      | [a, b] \<Rightarrow> Version a b 0
      | [a] \<Rightarrow> Version a 0 0
      | _ \<Rightarrow> Version 0 0 0)"

fun compare_arrays :: "int list \<Rightarrow> int list \<Rightarrow> int" where
  "compare_arrays (a # as) (b # bs) =
     (if a \<noteq> b then (if a < b then -1 else 1) else compare_arrays as bs)"
| "compare_arrays _ _ = 0"

definition compareVersions :: "string \<Rightarrow> string \<Rightarrow> int" where
  "compareVersions a b =
     compare_arrays (version_array (parseVersion a)) (version_array (parseVersion b))"

definition isNewer :: "string \<Rightarrow> string \<Rightarrow> bool" where
  "isNewer latest current \<longleftrightarrow> compareVersions latest current > 0"

section \<open>The interface of the updater\<close>

fun upgrade_chain :: "('v \<Rightarrow> 'v \<Rightarrow> bool) \<Rightarrow> 'v \<Rightarrow> 'v list \<Rightarrow> bool" where
  "upgrade_chain newer v [] = True"
| "upgrade_chain newer v (w # ws) = (newer w v \<and> upgrade_chain newer w ws)"

locale release_order =
  fixes newer :: "'v \<Rightarrow> 'v \<Rightarrow> bool"
  assumes newer_irrefl: "\<not> newer v v"
    and newer_trans: "newer u v \<Longrightarrow> newer v w \<Longrightarrow> newer u w"
begin

lemma newer_asym: "newer u v \<Longrightarrow> \<not> newer v u"
  using newer_irrefl newer_trans by blast

lemma upgrade_chain_newer: "upgrade_chain newer v ws \<Longrightarrow> w \<in> set ws \<Longrightarrow> newer w v"
proof (induction ws arbitrary: v)
  case (Cons x xs)
  then show ?case using newer_trans by auto
qed simp

lemma upgrade_chain_distinct: "upgrade_chain newer v ws \<Longrightarrow> distinct (v # ws)"
proof (induction ws arbitrary: v)
  case (Cons x xs)
  have "v \<notin> set (x # xs)"
    using upgrade_chain_newer [OF Cons.prems] newer_irrefl by blast
  with Cons show ?case by auto
qed simp

end

section \<open>Comparison is the lexicographic order\<close>

lemma compare_arrays_version:
  "compare_arrays (version_array v) (version_array w) = (if v < w then -1 else if w < v then 1 else 0)"
  by (cases v; cases w) (auto simp: less_version_def)

lemma compareVersions_eq:
  "compareVersions a b =
     (if parseVersion a < parseVersion b then -1
      else if parseVersion b < parseVersion a then 1 else 0)"
  by (simp add: compareVersions_def compare_arrays_version)

lemma isNewer_iff: "isNewer a b \<longleftrightarrow> parseVersion b < parseVersion a"
  by (auto simp: isNewer_def compareVersions_eq)

interpretation rel: release_order isNewer
  by unfold_locales (auto simp: isNewer_iff)

section \<open>Parsing\<close>

lemma takeWhile_digits_append:
  assumes "list_all is_digit ds" and "rest = [] \<or> \<not> is_digit (hd rest)"
  shows "takeWhile is_digit (ds @ rest) = ds"
proof -
  have "takeWhile is_digit rest = []"
    using assms(2) by (cases rest) auto
  with assms(1) show ?thesis
    by (simp add: takeWhile_append2 list_all_iff)
qed

lemma version_component_digits:
  assumes "0 \<le> i" and "i < 2 ^ 63" and "rest = [] \<or> \<not> is_digit (hd rest)"
  shows "version_component (itoa i @ rest) = i"
proof -
  have "list_all is_digit (itoa i)"
    using assms(1) by (simp add: itoa_def nat_digits_all_digits)
  then show ?thesis
    using assms Atoi_itoa [of i] by (simp add: version_component_def takeWhile_digits_append)
qed

lemma itoa_digits: "0 \<le> i \<Longrightarrow> list_all is_digit (itoa i) \<and> itoa i \<noteq> []"
  by (simp add: itoa_def nat_digits_all_digits)

lemma splitn_first:
  assumes "c \<notin> set x"
  shows "splitn (Suc (Suc n)) c (x @ c # y) = x # splitn (Suc n) c y"
proof -
  have "takeWhile (\<lambda>z. z \<noteq> c) (x @ c # y) = x" and "dropWhile (\<lambda>z. z \<noteq> c) (x @ c # y) = c # y"
    using assms by (induction x) auto
  then show ?thesis by simp
qed

lemma digits_no_dot: "list_all is_digit ds \<Longrightarrow> CHR ''.'' \<notin> set ds"
  by (auto simp: list_all_iff)

lemma splitn_three:
  assumes "list_all is_digit x" and "list_all is_digit y"
  shows "splitn 3 (CHR ''.'') (x @ CHR ''.'' # y @ CHR ''.'' # z) = [x, y, z]"
proof -
  have "splitn 3 (CHR ''.'') (x @ CHR ''.'' # y @ CHR ''.'' # z)
      = x # splitn (Suc (Suc 0)) (CHR ''.'') (y @ CHR ''.'' # z)"
    using splitn_first [of "CHR ''.''" x "Suc 0"] assms(1) digits_no_dot
    by (simp add: numeral_3_eq_3)
  also have "splitn (Suc (Suc 0)) (CHR ''.'') (y @ CHR ''.'' # z) = y # splitn (Suc 0) (CHR ''.'') z"
    using assms(2) digits_no_dot by (intro splitn_first) simp
  finally show ?thesis by simp
qed

definition show_version :: "int \<Rightarrow> int \<Rightarrow> int \<Rightarrow> string" where
  "show_version a b c = ''v'' @ itoa a @ ''.'' @ itoa b @ ''.'' @ itoa c"

lemma takeWhile_core:
  assumes "list_all (\<lambda>c. is_digit c \<or> c = CHR ''.'') x"
    and "rest = [] \<or> hd rest = CHR ''-'' \<or> hd rest = CHR ''+''"
  shows "takeWhile (\<lambda>c. c \<noteq> CHR ''-'' \<and> c \<noteq> CHR ''+'' \<and> c \<noteq> CHR '' '') (x @ rest) = x"
proof -
  let ?P = "\<lambda>c. c \<noteq> CHR ''-'' \<and> c \<noteq> CHR ''+'' \<and> c \<noteq> CHR '' ''"
  have "takeWhile ?P rest = []"
    using assms(2) by (cases rest) auto
  moreover have "\<forall>c \<in> set x. ?P c"
    using assms(1) by (auto simp: list_all_iff)
  ultimately show ?thesis by (simp add: takeWhile_append2)
qed

lemma version_core_show:
  assumes "0 \<le> a" and "0 \<le> b" and "0 \<le> c"
    and "rest = [] \<or> (hd rest = CHR ''-'' \<or> hd rest = CHR ''+'') \<and> \<not> is_space (last rest)"
  shows "version_core (show_version a b c @ rest) = itoa a @ ''.'' @ itoa b @ ''.'' @ itoa c"
proof -
  let ?n = "itoa a @ ''.'' @ itoa b @ ''.'' @ itoa c"
  have d: "list_all is_digit (itoa a)" "list_all is_digit (itoa b)" "list_all is_digit (itoa c)"
    and ne: "itoa a \<noteq> []" "itoa c \<noteq> []"
    using assms itoa_digits by blast+
  have "is_digit (last (itoa c))" using d(3) ne(2) by (simp add: list_all_iff)
  then have "\<not> is_space (last (show_version a b c @ rest))"
    using assms(4) ne is_digit_not_space by (cases "rest = []") (auto simp: show_version_def)
  then have 1: "TrimSpace (show_version a b c @ rest) = CHR ''v'' # ?n @ rest"
    by (subst TrimSpace_id) (auto simp: show_version_def is_space_def)
  have 2: "TrimPrefix (CHR ''v'' # ?n @ rest) ''v'' = ?n @ rest"
    using TrimPrefix_append [of "''v''"] by simp
  have 3: "TrimPrefix (?n @ rest) ''V'' = ?n @ rest"
    using d(1) ne(1) by (cases "itoa a") (auto simp: TrimPrefix_def)
  have "list_all (\<lambda>c. is_digit c \<or> c = CHR ''.'') ?n"
    using d by (auto simp: list_all_iff)
  with assms(4) have "takeWhile (\<lambda>c. c \<noteq> CHR ''-'' \<and> c \<noteq> CHR ''+'' \<and> c \<noteq> CHR '' '') (?n @ rest) = ?n"
    by (intro takeWhile_core) auto
  with 1 2 3 show ?thesis by (simp add: version_core_def Let_def)
qed

text \<open>
  Printing a release tag and parsing it back: for components that fit a 64-bit
  integer, \<^verbatim>\<open>parseVersion\<close> of \<^verbatim>\<open>vA.B.C\<close> followed by any
  pre-release, build or \<^verbatim>\<open>git describe\<close> suffix is exactly
  \<^verbatim>\<open>[A, B, C]\<close>, so a development build of a release compares equal to it.
\<close>

theorem parseVersion_roundtrip:
  assumes "0 \<le> a" "a < 2 ^ 63" and "0 \<le> b" "b < 2 ^ 63" and "0 \<le> c" "c < 2 ^ 63"
    and "rest = [] \<or> (hd rest = CHR ''-'' \<or> hd rest = CHR ''+'') \<and> \<not> is_space (last rest)"
  shows "parseVersion (show_version a b c @ rest) = Version a b c"
proof -
  have "splitn 3 (CHR ''.'') (itoa a @ ''.'' @ itoa b @ ''.'' @ itoa c) = [itoa a, itoa b, itoa c]"
    using splitn_three [of "itoa a" "itoa b"] itoa_digits assms by simp
  moreover have "version_core (show_version a b c @ rest) = itoa a @ ''.'' @ itoa b @ ''.'' @ itoa c"
    using assms by (intro version_core_show)
  ultimately show ?thesis
    using version_component_digits [of _ "[]"] assms by (simp add: parseVersion_def)
qed

theorem parseVersion_roundtrip_witness:
  "parseVersion (show_version 0 0 9 @ ''-2-gabcdef-dirty'') = Version 0 0 9"
  by (rule parseVersion_roundtrip) (simp_all add: is_space_def)

text \<open>
  \<^verbatim>\<open>isNewer\<close> is a strict order on version strings: no build is newer
  than itself, a newer release is never offered in both directions (no downgrade), and
  being newer is transitive; so no chain of updates ever returns to a version it left.
\<close>

theorem isNewer_no_downgrade_cycle:
  assumes "upgrade_chain isNewer v ws"
  shows "distinct (v # ws) \<and> (\<forall>w \<in> set ws. isNewer w v \<and> \<not> isNewer v w)"
  using rel.upgrade_chain_distinct [OF assms] rel.upgrade_chain_newer [OF assms]
  by (auto dest: rel.newer_asym)

theorem isNewer_no_downgrade_cycle_witness:
  "distinct (''v0.0.9'' # [''v0.0.10'', ''v1''])"
proof -
  have "isNewer ''v0.0.10'' ''v0.0.9''" and "isNewer ''v1'' ''v0.0.10''"
    by code_simp+
  then have "upgrade_chain isNewer ''v0.0.9'' [''v0.0.10'', ''v1'']" by simp
  from isNewer_no_downgrade_cycle [OF this] show ?thesis by (rule conjunct1)
qed

end
