(* ===== verification/Updater.thy ===== *)
theory Updater
  imports Version FileSystem
begin

text \<open>
  \<^verbatim>\<open>internal/updater/github.go\<close> and \<^verbatim>\<open>updater.go\<close>: looking up
  the latest release, the checksums and the downloads, and the update flow of the appliance
  up to the hand-off to the helper process. HTTP, JSON decoding, SHA-256, the free space and
  the outcome of starting a process are the fields of \<open>upd_env\<close>; files are those of
  \<open>FileSystem\<close>.
\<close>

section \<open>Releases\<close>

record asset =
  as_Name :: string
  as_URL :: string
  as_Size :: int

record release =
  rel_TagName :: string
  rel_HTMLURL :: string
  rel_Prerelease :: bool
  rel_Draft :: bool
  rel_Assets :: "asset list"

datatype http_result =
    HttpError                          \<comment> \<open>no response\<close>
  | HttpResponse int string bool       \<comment> \<open>status, body, and whether the body could be read to its end\<close>

datatype upd_error =
    ErrNotAppliance | ErrAlreadyInProgress | ErrNoUpdateAvailable | ErrUnsupportedArch
  | ErrInsufficientSpace
  | ReachGitHub | RateLimited | NoRelease string | GitHubStatus int | DecodeRelease | NoTagName
  | ChecksumsUnreachable | ChecksumsStatus int | ChecksumsUnreadable | ChecksumsEmpty
  | DownloadUnreachable | DownloadStatus int | DownloadOpen fs_error | DownloadWrite
  | NoChecksum string | ChecksumMismatch string
  | MissingAsset string string | WorkDirFailed | HelperConfigFailed | SpawnFailed | TimedOut

text \<open>What the helper is told: the document of the hand-off.\<close>

record swap =
  sw_New :: string
  sw_Live :: string
  sw_Bak :: string

record helper_config =
  hc_ServiceName :: string
  hc_HealthURL :: string
  hc_HealthTimeout :: int
  hc_TargetVersion :: string
  hc_PreviousVersion :: string
  hc_ResultPath :: string
  hc_Binaries :: "swap list"

record upd_env =
  http_get :: "string \<Rightarrow> http_result"
  decode_release :: "string \<Rightarrow> release option"
  sha256 :: "string \<Rightarrow> string"
  encode_config :: "helper_config \<Rightarrow> string option"
  goarch :: string
  free_bytes :: "string \<Rightarrow> int option"
  spawn_ok :: bool

definition find_asset :: "release \<Rightarrow> string \<Rightarrow> asset option" where
  "find_asset r name = find (\<lambda>a. as_Name a = name) (rel_Assets r)"

definition api_limit :: int where "api_limit = 4194304"
definition checksums_limit :: int where "checksums_limit = 1048576"
definition maxDownloadBytes :: int where "maxDownloadBytes = 134217728"
definition max_token :: int where "max_token = 65536"

definition limit_read :: "int \<Rightarrow> string \<Rightarrow> string" where
  \<comment> \<open>all that \<^verbatim>\<open>io.LimitReader\<close> lets through\<close>
  "limit_read n s = (if int (length s) \<le> n then s else take (nat n) s)"

definition latest_url :: "string \<Rightarrow> string" where
  "latest_url repo = ''https://api.github.com/repos/'' @ repo @ ''/releases/latest''"

definition fetchLatestRelease :: "upd_env \<Rightarrow> string \<Rightarrow> upd_error + release" where
  "fetchLatestRelease env repo =
     (case http_get env (latest_url repo) of
        HttpError \<Rightarrow> Inl ReachGitHub
      | HttpResponse status body _ \<Rightarrow>
          if status = 200 then
            (case decode_release env (limit_read api_limit body) of
               None \<Rightarrow> Inl DecodeRelease
             | Some rel \<Rightarrow> if rel_TagName rel = [] then Inl NoTagName else Inr rel)
          else if status = 403 \<or> status = 429 then Inl RateLimited
          else if status = 404 then Inl (NoRelease repo)
          else Inl (GitHubStatus status))"

section \<open>Checksums\<close>

definition drop_cr :: "string \<Rightarrow> string" where
  "drop_cr l = (if l \<noteq> [] \<and> last l = CHR 0x0D then butlast l else l)"

definition scan_lines :: "string \<Rightarrow> string list" where
  \<comment> \<open>\<^verbatim>\<open>bufio.ScanLines\<close>: no empty line after a final newline\<close>
  "scan_lines s =
     (let ls = split_char (CHR 0x0A) s
      in map drop_cr (if last ls = [] then butlast ls else ls))"

fun add_sum :: "string \<Rightarrow> (string \<rightharpoonup> string) \<Rightarrow> (string \<rightharpoonup> string)" where
  "add_sum line sums =
     (case Fields line of
        [digest, name] \<Rightarrow> sums(TrimPrefix name ''*'' \<mapsto> ToLower digest)
      | _ \<Rightarrow> sums)"

definition parse_checksums :: "string \<Rightarrow> upd_error + (string \<rightharpoonup> string)" where
  "parse_checksums body =
     (let raw = split_char (CHR 0x0A) body; ls = scan_lines body
      in if list_ex (\<lambda>l. max_token \<le> int (length l)) raw then Inl ChecksumsUnreadable
         else if list_ex (\<lambda>l. length (Fields l) = 2) ls then Inr (fold add_sum ls Map.empty)
         else Inl ChecksumsEmpty)"

definition fetchChecksums :: "upd_env \<Rightarrow> string \<Rightarrow> upd_error + (string \<rightharpoonup> string)" where
  "fetchChecksums env url =
     (case http_get env url of
        HttpError \<Rightarrow> Inl ChecksumsUnreachable
      | HttpResponse status body complete \<Rightarrow>
          if status \<noteq> 200 then Inl (ChecksumsStatus status)
          else if \<not> complete \<and> int (length body) < checksums_limit then Inl ChecksumsUnreadable
          else parse_checksums (limit_read checksums_limit body))"

section \<open>Downloads\<close>

definition downloadFile :: "upd_env \<Rightarrow> string \<Rightarrow> string \<Rightarrow> fs \<Rightarrow> (upd_error + string) \<times> fs" where
  "downloadFile env url dest s =
     (case http_get env url of
        HttpError \<Rightarrow> (Inl DownloadUnreachable, s)
      | HttpResponse status body complete \<Rightarrow>
          if status \<noteq> 200 then (Inl (DownloadStatus status), s)
          else if next_fault s = Some Refuse then (Inl (DownloadOpen IOFault), tick s)
          else
            let data = limit_read maxDownloadBytes body
            in case WriteFile dest data s of
                 (Some _, s1) \<Rightarrow> (Inl DownloadWrite, snd (Remove dest s1))
               | (None, s1) \<Rightarrow>
                   if \<not> complete \<and> int (length body) < maxDownloadBytes
                   then (Inl DownloadWrite, snd (Remove dest s1))
                   else (Inr (sha256 env data), s1))"

section \<open>The updater\<close>

datatype progress =
    Starting string | FetchingChecksums | Downloading string | Verified string
  | Installing string | UpdateFailed upd_error

record updater =
  u_version :: string
  u_appliance :: bool
  u_repo :: string
  u_binDir :: string
  u_workDir :: string
  u_port :: int
  u_busy :: bool
  u_latest :: "release option"
  u_lastChecked :: int
  u_lastErr :: "upd_error option"
  u_log :: "progress list"                     \<comment> \<open>the entries handed to the log store\<close>

record upd_options =
  uo_Repo :: string
  uo_BinDir :: string
  uo_WorkDir :: string
  uo_Port :: int

definition or_default :: "string \<Rightarrow> string \<Rightarrow> string" where
  "or_default v d = (if v = [] then d else v)"

definition detectAppliance :: "string option \<Rightarrow> bool \<Rightarrow> bool" where
  \<comment> \<open>the environment variable, and whether the init script is there and not a directory\<close>
  "detectAppliance var init_script \<longleftrightarrow> var = Some ''1'' \<or> init_script"

definition NewUpdater :: "string \<Rightarrow> bool \<Rightarrow> upd_options \<Rightarrow> updater" where
  "NewUpdater current appliance opts =
     \<lparr>u_version = current, u_appliance = appliance,
      u_repo = or_default (uo_Repo opts) ''vimukthiD/cisco-wlc-simulator'',
      u_binDir = or_default (uo_BinDir opts) ''/usr/local/bin'',
      u_workDir = or_default (uo_WorkDir opts) ''/var/lib/wlcsim/update'',
      u_port = (if uo_Port opts = 0 then 8080 else uo_Port opts),
      u_busy = False, u_latest = None, u_lastChecked = 0, u_lastErr = None, u_log = []\<rparr>"

definition IsAppliance :: "updater \<Rightarrow> bool" where
  "IsAppliance u = u_appliance u"

definition path_join :: "string \<Rightarrow> string \<Rightarrow> string" where
  "path_join dir name = dir @ ''/'' @ name"

definition resultPath :: "updater \<Rightarrow> string" where
  "resultPath u = path_join (u_workDir u) ''last-result.json''"

definition checkDebounce :: int where "checkDebounce = 10"
definition resultTTL :: int where "resultTTL = 900"
definition minFreeBytes :: int where "minFreeBytes = 157286400"

definition logf :: "progress \<Rightarrow> updater \<Rightarrow> updater" where
  "logf p u = u\<lparr>u_log := u_log u @ [p]\<rparr>"

definition fail :: "upd_error \<Rightarrow> updater \<Rightarrow> updater" where
  "fail e u = (logf (UpdateFailed e) u)\<lparr>u_lastErr := Some e\<rparr>"

definition CheckLatest :: "upd_env \<Rightarrow> int \<Rightarrow> updater \<Rightarrow> (upd_error + release) \<times> updater" where
  "CheckLatest env now u =
     (case (if u_latest u \<noteq> None \<and> now - u_lastChecked u < checkDebounce then u_latest u else None) of
        Some rel \<Rightarrow> (Inr rel, u)
      | None \<Rightarrow>
          (case fetchLatestRelease env (u_repo u) of
             Inl e \<Rightarrow> (Inl e, u\<lparr>u_lastChecked := now, u_lastErr := Some e\<rparr>)
           | Inr rel \<Rightarrow> (Inr rel, u\<lparr>u_lastChecked := now, u_latest := Some rel, u_lastErr := None\<rparr>)))"

definition releaseForApply :: "upd_env \<Rightarrow> int \<Rightarrow> updater \<Rightarrow> (upd_error + release) \<times> updater" where
  "releaseForApply env now u =
     (let (r, u1) = (case u_latest u of Some rel \<Rightarrow> (Inr rel, u) | None \<Rightarrow> CheckLatest env now u)
      in case r of
           Inl e \<Rightarrow> (Inl e, u1)
         | Inr rel \<Rightarrow> (if isNewer (rel_TagName rel) (u_version u1) then Inr rel else Inl ErrNoUpdateAvailable, u1))"

definition archAssetSuffix :: "string \<Rightarrow> string option" where
  "archAssetSuffix arch =
     (if arch = ''amd64'' then Some ''linux-amd64''
      else if arch = ''arm64'' then Some ''linux-arm64'' else None)"

definition apply_checks :: "upd_env \<Rightarrow> int \<Rightarrow> updater \<Rightarrow> (upd_error + release) \<times> updater" where
  \<comment> \<open>the part of \<^verbatim>\<open>Apply\<close> after the busy flag has been taken; an error gives it back\<close>
  "apply_checks env now u =
     (let (r, u1) = releaseForApply env now u
      in case r of
           Inl e \<Rightarrow> (Inl e, u1\<lparr>u_busy := False\<rparr>)
         | Inr rel \<Rightarrow>
             if archAssetSuffix (goarch env) = None then (Inl ErrUnsupportedArch, u1\<lparr>u_busy := False\<rparr>)
             else (case free_bytes env (u_binDir u1) of
                     Some free \<Rightarrow> if free < minFreeBytes then (Inl ErrInsufficientSpace, u1\<lparr>u_busy := False\<rparr>)
                                  else (Inr rel, u1)
                   | None \<Rightarrow> (Inr rel, u1)))"

definition Apply :: "upd_env \<Rightarrow> int \<Rightarrow> updater \<Rightarrow> (upd_error + release) \<times> updater" where
  \<comment> \<open>Inr: the background run on that release has been started\<close>
  "Apply env now u =
     (if \<not> u_appliance u then (Inl ErrNotAppliance, u)
      else if u_busy u then (Inl ErrAlreadyInProgress, u)
      else apply_checks env now (u\<lparr>u_busy := True\<rparr>))"

definition fetchVerify :: "upd_env \<Rightarrow> asset \<Rightarrow> string \<Rightarrow> (string \<rightharpoonup> string) \<Rightarrow> updater \<times> fs \<Rightarrow>
    upd_error option \<times> updater \<times> fs" where
  "fetchVerify env a dest sums us =
     (let u = logf (Downloading (as_Name a)) (fst us);
          (r, s) = downloadFile env (as_URL a) dest (snd us)
      in case r of
           Inl e \<Rightarrow> (Some e, u, s)
         | Inr got \<Rightarrow>
             (case sums (as_Name a) of
                None \<Rightarrow> (Some (NoChecksum (as_Name a)), u, s)
              | Some want \<Rightarrow>
                  if got \<noteq> want then (Some (ChecksumMismatch (as_Name a)), u, s)
                  else (None, logf (Verified (as_Name a)) u, s)))"

definition new_wlcsim :: "updater \<Rightarrow> string" where
  "new_wlcsim u = path_join (u_workDir u) ''wlcsim.new''"

definition new_console :: "updater \<Rightarrow> string" where
  "new_console u = path_join (u_workDir u) ''wlcsim-console.new''"

definition helper_path :: "updater \<Rightarrow> string" where
  "helper_path u = path_join (u_workDir u) ''helper.json''"

definition helper_swaps :: "updater \<Rightarrow> swap list" where
  "helper_swaps u =
     [\<lparr>sw_New = new_wlcsim u, sw_Live = path_join (u_binDir u) ''wlcsim'', sw_Bak = path_join (u_binDir u) ''wlcsim.bak''\<rparr>,
      \<lparr>sw_New = new_console u, sw_Live = path_join (u_binDir u) ''wlcsim-console'',
       sw_Bak = path_join (u_binDir u) ''wlcsim-console.bak''\<rparr>]"

definition healthTimeoutSec :: int where "healthTimeoutSec = 40"

definition handoff_config :: "release \<Rightarrow> updater \<Rightarrow> helper_config" where
  "handoff_config rel u =
     \<lparr>hc_ServiceName = ''wlcsim'',
      hc_HealthURL = ''http://127.0.0.1:'' @ itoa (u_port u) @ ''/api/system'',
      hc_HealthTimeout = healthTimeoutSec, hc_TargetVersion = rel_TagName rel, hc_PreviousVersion = u_version u,
      hc_ResultPath = resultPath u, hc_Binaries = helper_swaps u\<rparr>"

definition writeJSON_data :: "string \<Rightarrow> string option \<Rightarrow> fs \<Rightarrow> bool \<times> fs" where
  \<comment> \<open>\<^verbatim>\<open>writeJSONFile\<close> on the marshalled document (None: marshalling failed)\<close>
  "writeJSON_data path doc s =
     (let s1 = snd (MkdirAll s)
      in case doc of
           None \<Rightarrow> (False, s1)
         | Some data \<Rightarrow>
             (case WriteFile (path @ ''.tmp'') data s1 of
                (Some _, s2) \<Rightarrow> (False, s2)
              | (None, s2) \<Rightarrow> (case Rename (path @ ''.tmp'') path s2 of (e, s3) \<Rightarrow> (e = None, s3))))"

definition run_stage :: "upd_env \<Rightarrow> release \<Rightarrow> updater \<times> fs \<Rightarrow> upd_error option \<times> updater \<times> fs" where
  \<comment> \<open>the body of \<^verbatim>\<open>run\<close> up to the spawned helper: None means it was started\<close>
  "run_stage env rel us =
     (let suffix = (case archAssetSuffix (goarch env) of Some x \<Rightarrow> x | None \<Rightarrow> []);
          wn = ''wlcsim-'' @ suffix; cn = ''wlcsim-console-'' @ suffix;
          u = logf (Starting (rel_TagName rel)) (fst us); s = snd us
      in case find_asset rel wn of
           None \<Rightarrow> (Some (MissingAsset (rel_TagName rel) wn), u, s)
         | Some wa \<Rightarrow>
      (case find_asset rel cn of
           None \<Rightarrow> (Some (MissingAsset (rel_TagName rel) cn), u, s)
         | Some ca \<Rightarrow>
      (case find_asset rel ''checksums.txt'' of
           None \<Rightarrow> (Some (MissingAsset (rel_TagName rel) ''checksums.txt''), u, s)
         | Some cs \<Rightarrow>
      (case MkdirAll s of
           (Some _, s1) \<Rightarrow> (Some WorkDirFailed, u, s1)
         | (None, s1) \<Rightarrow>
      (let u1 = logf FetchingChecksums u
       in case fetchChecksums env (as_URL cs) of
           Inl e \<Rightarrow> (Some e, u1, s1)
         | Inr sums \<Rightarrow>
      (case fetchVerify env wa (new_wlcsim u) sums (u1, s1) of
           (Some e, us2) \<Rightarrow> (Some e, us2)
         | (None, us2) \<Rightarrow>
      (case fetchVerify env ca (new_console u) sums us2 of
           (Some e, us3) \<Rightarrow> (Some e, us3)
         | (None, (u3, s3)) \<Rightarrow>
      (case writeJSON_data (helper_path u) (encode_config env (handoff_config rel u)) s3 of
           (False, s4) \<Rightarrow> (Some HelperConfigFailed, u3, s4)
         | (True, s4) \<Rightarrow>
             (if spawn_ok env then None else Some SpawnFailed,
              logf (Installing (rel_TagName rel)) u3, s4)))))))))"

definition run_update :: "upd_env \<Rightarrow> release \<Rightarrow> updater \<times> fs \<Rightarrow> bool \<times> updater \<times> fs" where
  \<comment> \<open>\<^verbatim>\<open>run\<close>: whether the helper was spawned; a failure is recorded, frees the busy
     flag and discards the staged files\<close>
  "run_update env rel us =
     (case run_stage env rel us of
        (None, us1) \<Rightarrow> (True, us1)
      | (Some e, (u1, s1)) \<Rightarrow>
          (False, (fail e u1)\<lparr>u_busy := False\<rparr>,
           snd (Remove (new_console (fst us)) (snd (Remove (new_wlcsim (fst us)) s1)))))"

definition handoff_timeout :: "updater \<Rightarrow> updater" where
  \<comment> \<open>the timer armed after the hand-off\<close>
  "handoff_timeout u = (if u_busy u then fail TimedOut (u\<lparr>u_busy := False\<rparr>) else u)"

section \<open>Downloads and staging\<close>

lemma downloadFile_frame: "downloadFile env url dest s = (r, s') \<Longrightarrow> q \<noteq> dest \<Longrightarrow> files s' q = files s q"
  using osfs.put_frame [where p = dest and q = q] Remove_frame [of q dest]
  by (auto simp: downloadFile_def Let_def split: http_result.splits if_splits prod.splits option.splits)

lemma downloadFile_Inr:
  assumes "downloadFile env url dest s = (Inr h, s')"
  shows "\<exists>data. files s' dest = Some data \<and> h = sha256 env data \<and> int (length data) \<le> maxDownloadBytes"
  using assms osfs.put_success [where p = dest]
  by (auto simp: downloadFile_def Let_def limit_read_def maxDownloadBytes_def split: http_result.splits if_splits prod.splits option.splits)

lemma logf_simps [simp]:
  "u_version (logf p u) = u_version u" "u_appliance (logf p u) = u_appliance u" "u_repo (logf p u) = u_repo u"
  "u_binDir (logf p u) = u_binDir u" "u_workDir (logf p u) = u_workDir u" "u_busy (logf p u) = u_busy u"
  "u_latest (logf p u) = u_latest u" "u_lastErr (logf p u) = u_lastErr u" "u_port (logf p u) = u_port u"
  by (simp_all add: logf_def)

lemma fail_simps [simp]:
  "u_version (fail e u) = u_version u" "u_appliance (fail e u) = u_appliance u" "u_repo (fail e u) = u_repo u"
  "u_binDir (fail e u) = u_binDir u" "u_workDir (fail e u) = u_workDir u" "u_busy (fail e u) = u_busy u"
  "u_latest (fail e u) = u_latest u" "u_lastErr (fail e u) = Some e"
  by (simp_all add: fail_def)

lemma staged_paths [simp]:
  "new_wlcsim (logf p u) = new_wlcsim u" "new_console (logf p u) = new_console u" "helper_path (logf p u) = helper_path u"
  by (simp_all add: new_wlcsim_def new_console_def helper_path_def)

lemma handoff_config_logf [simp]: "handoff_config rel (logf p u) = handoff_config rel u"
  by (simp add: handoff_config_def helper_swaps_def resultPath_def)

lemma staged_paths_cong:
  "u_workDir u' = u_workDir u \<Longrightarrow> new_wlcsim u' = new_wlcsim u \<and> new_console u' = new_console u \<and> helper_path u' = helper_path u"
  by (simp add: new_wlcsim_def new_console_def helper_path_def)

lemma staged_paths_distinct [simp]:
  "new_wlcsim u \<noteq> new_console u" "new_console u \<noteq> new_wlcsim u"
  "new_wlcsim u \<noteq> helper_path u" "new_wlcsim u \<noteq> helper_path u @ ''.tmp''"
  "new_console u \<noteq> helper_path u" "new_console u \<noteq> helper_path u @ ''.tmp''"
  "helper_path u \<noteq> new_wlcsim u" "helper_path u \<noteq> new_console u"
  by (simp_all add: new_wlcsim_def new_console_def helper_path_def path_join_def)

lemma fetchVerify_result:
  assumes "fetchVerify env a dest sums (u, s) = (r, u', s')"
  shows "u_busy u' = u_busy u \<and> u_workDir u' = u_workDir u \<and> u_latest u' = u_latest u \<and> u_version u' = u_version u \<and>
    (\<forall>q. q \<noteq> dest \<longrightarrow> files s' q = files s q) \<and>
    (r = None \<longrightarrow> (\<exists>data. files s' dest = Some data \<and> sums (as_Name a) = Some (sha256 env data)))"
proof -
  obtain d s1 where d: "downloadFile env (as_URL a) dest s = (d, s1)" by fastforce
  then have s1: "s' = s1" "\<forall>q. q \<noteq> dest \<longrightarrow> files s1 q = files s q"
    using assms downloadFile_frame [OF d]
    by (auto simp: fetchVerify_def Let_def split: sum.splits option.splits if_splits)
  have ok: "\<exists>data. files s1 dest = Some data \<and> sums (as_Name a) = Some (sha256 env data)" if "r = None"
    using assms d that downloadFile_Inr [of env "as_URL a" dest s _ s1]
    by (auto simp: fetchVerify_def Let_def split: sum.splits option.splits if_splits)
  have "u_busy u' = u_busy u \<and> u_workDir u' = u_workDir u \<and> u_latest u' = u_latest u \<and> u_version u' = u_version u"
    using assms d by (auto simp: fetchVerify_def Let_def split: sum.splits option.splits if_splits)
  with s1 ok show ?thesis by auto
qed

lemma writeJSON_data_frame:
  assumes "writeJSON_data path doc s = (b, s')" and "q \<noteq> path" and "q \<noteq> path @ ''.tmp''"
  shows "files s' q = files s q"
proof (cases doc)
  case None
  with assms MkdirAll_frame [of s] show ?thesis by (auto simp: writeJSON_data_def Let_def)
next
  case (Some data)
  obtain e2 s2 where w: "WriteFile (path @ ''.tmp'') data (snd (MkdirAll s)) = (e2, s2)" by fastforce
  obtain e3 s3 where r: "Rename (path @ ''.tmp'') path s2 = (e3, s3)" by fastforce
  have "files s2 q = files s q" using osfs.put_frame [OF w assms(3)] MkdirAll_frame [of s] by simp
  moreover have "files s3 q = files s2 q" using osfs.rename_frame [OF r assms(3,2)] .
  ultimately show ?thesis using assms(1) Some w r by (auto simp: writeJSON_data_def Let_def split: option.splits)
qed

lemma writeJSON_data_success:
  assumes "writeJSON_data path doc s = (True, s')"
  shows "\<exists>data. doc = Some data \<and> files s' path = Some data"
proof -
  obtain data where d: "doc = Some data" using assms by (cases doc) (auto simp: writeJSON_data_def Let_def)
  obtain e2 s2 where w: "WriteFile (path @ ''.tmp'') data (snd (MkdirAll s)) = (e2, s2)" by fastforce
  obtain e3 s3 where r: "Rename (path @ ''.tmp'') path s2 = (e3, s3)" by fastforce
  have "e2 = None" "e3 = None" "s' = s3" using assms d w r by (auto simp: writeJSON_data_def Let_def split: option.splits)
  with osfs.replace_success [of "path @ ''.tmp''" data "snd (MkdirAll s)" s2 path s3] w r d show ?thesis by simp
qed

definition staging :: "updater \<Rightarrow> string set" where
  "staging u = {new_wlcsim u, new_console u, helper_path u, helper_path u @ ''.tmp''}"

definition staged_ok :: "upd_env \<Rightarrow> release \<Rightarrow> string \<Rightarrow> string \<Rightarrow> (string \<rightharpoonup> string) \<Rightarrow> fs \<Rightarrow> bool" where
  \<comment> \<open>the staged file of an asset is there and its digest is the published one\<close>
  "staged_ok env rel name path sums s \<longleftrightarrow>
     (\<exists>a data. find_asset rel name = Some a \<and> files s path = Some data \<and> sums name = Some (sha256 env data))"

lemma find_asset_name: "find_asset rel n = Some a \<Longrightarrow> as_Name a = n"
  by (auto simp: find_asset_def dest: find_Some_memD)

lemma run_stage_result:
  assumes "run_stage env rel (u, s) = (r, u', s')"
  shows "u_busy u' = u_busy u \<and> u_workDir u' = u_workDir u \<and> (\<forall>q. q \<notin> staging u \<longrightarrow> files s' q = files s q) \<and>
    (r = None \<longrightarrow> (\<exists>cs sums suffix. find_asset rel ''checksums.txt'' = Some cs \<and> fetchChecksums env (as_URL cs) = Inr sums \<and>
       suffix = (case archAssetSuffix (goarch env) of Some x \<Rightarrow> x | None \<Rightarrow> []) \<and>
       staged_ok env rel (''wlcsim-'' @ suffix) (new_wlcsim u) sums s' \<and>
       staged_ok env rel (''wlcsim-console-'' @ suffix) (new_console u) sums s') \<and>
     (\<exists>doc. encode_config env (handoff_config rel u) = Some doc \<and> files s' (helper_path u) = Some doc))"
proof -
  define suffix where "suffix = (case archAssetSuffix (goarch env) of Some x \<Rightarrow> x | None \<Rightarrow> [])"
  let ?wn = "''wlcsim-'' @ suffix" and ?cn = "''wlcsim-console-'' @ suffix"
  let ?u0 = "logf (Starting (rel_TagName rel)) u"
  obtain e1 s1 where m: "MkdirAll s = (e1, s1)" by fastforce
  have f1: "files s1 = files s" using MkdirAll_frame [of s] m by simp
  show ?thesis
  proof (cases "find_asset rel ?wn = None \<or> find_asset rel ?cn = None \<or> find_asset rel ''checksums.txt'' = None \<or> e1 \<noteq> None")
    case True
    then have "r \<noteq> None \<and> u' = ?u0 \<and> files s' = files s"
      using assms m f1 by (auto simp: run_stage_def Let_def suffix_def [symmetric] split: option.splits)
    then show ?thesis by auto
  next
    case False
    then obtain wa ca cs where a: "find_asset rel ?wn = Some wa" "find_asset rel ?cn = Some ca"
      "find_asset rel ''checksums.txt'' = Some cs" "e1 = None" by auto
    let ?u1 = "logf FetchingChecksums ?u0"
    show ?thesis
    proof (cases "fetchChecksums env (as_URL cs)")
      case (Inl e)
      then have "r \<noteq> None \<and> u' = ?u1 \<and> files s' = files s"
        using assms m f1 a by (auto simp: run_stage_def Let_def suffix_def [symmetric])
      then show ?thesis by auto
    next
      case (Inr sums)
      obtain r2 u2 s2 where v2: "fetchVerify env wa (new_wlcsim ?u0) sums (?u1, s1) = (r2, u2, s2)" by (metis surj_pair)
      obtain r3 u3 s3 where v3: "fetchVerify env ca (new_console ?u0) sums (u2, s2) = (r3, u3, s3)" by (metis surj_pair)
      obtain b s4 where w: "writeJSON_data (helper_path ?u0) (encode_config env (handoff_config rel ?u0)) s3 = (b, s4)" by fastforce
      have run: "run_stage env rel (u, s) =
          (case r2 of Some e \<Rightarrow> (Some e, u2, s2) | None \<Rightarrow>
            (case r3 of Some e \<Rightarrow> (Some e, u3, s3) | None \<Rightarrow>
              (if b then (if spawn_ok env then None else Some SpawnFailed, logf (Installing (rel_TagName rel)) u3, s4)
               else (Some HelperConfigFailed, u3, s4))))"
        using m a Inr v2 v3 w by (auto simp: run_stage_def Let_def suffix_def [symmetric] split: option.split)
      note F2 = fetchVerify_result [OF v2] and F3 = fetchVerify_result [OF v3]
      have fr2: "files s2 q = files s q" if "q \<notin> staging u" for q using F2 f1 that by (simp add: staging_def)
      have fr3: "files s3 q = files s q" if "q \<notin> staging u" for q using F3 fr2 that by (simp add: staging_def)
      have fr4: "files s4 q = files s3 q" if "q \<noteq> helper_path u" "q \<noteq> helper_path u @ ''.tmp''" for q
        using writeJSON_data_frame [OF w] that by simp
      have ok: "staged_ok env rel ?wn (new_wlcsim u) sums s4 \<and> staged_ok env rel ?cn (new_console u) sums s4"
        if "r2 = None" "r3 = None"
        using F2 F3 that a fr4 find_asset_name by (auto simp: staged_ok_def)
      have "u_busy u' = u_busy u \<and> u_workDir u' = u_workDir u"
        using assms run F2 F3 by (auto split: option.splits if_splits)
      moreover have "\<exists>doc. encode_config env (handoff_config rel u) = Some doc \<and> files s' (helper_path u) = Some doc" if "r = None"
        using assms run that writeJSON_data_success [of "helper_path ?u0" "encode_config env (handoff_config rel ?u0)" s3 s4] w
        by (auto split: option.splits if_splits)
      moreover have "files s' q = files s q" if "q \<notin> staging u" for q
        using assms run fr2 [OF that] fr3 [OF that] fr4 [of q] that
        by (auto simp: staging_def split: option.splits if_splits)
      moreover have "staged_ok env rel ?wn (new_wlcsim u) sums s' \<and> staged_ok env rel ?cn (new_console u) sums s'" if "r = None"
        using assms run ok that by (auto split: option.splits if_splits)
      ultimately show ?thesis using a(3) Inr suffix_def by blast
    qed
  qed
qed

lemma no_faults_fetchVerify:
  assumes "fetchVerify env a dest sums (u, s) = (r, u', s')" and "no_faults s"
  shows "no_faults s'"
proof -
  obtain d s1 where d: "downloadFile env (as_URL a) dest s = (d, s1)" by fastforce
  have "no_faults s1"
    using d assms(2) by (auto simp: downloadFile_def Let_def no_faults_WriteFile no_faults_Remove
        split: http_result.splits if_splits)
  then show ?thesis
    using assms(1) d by (auto simp: fetchVerify_def Let_def split: sum.splits option.splits if_splits)
qed

lemma no_faults_writeJSON_data: "writeJSON_data path doc s = (b, s') \<Longrightarrow> no_faults s \<Longrightarrow> no_faults s'"
  by (auto simp: writeJSON_data_def Let_def no_faults_WriteFile no_faults_MkdirAll no_faults_Rename split: option.splits)

lemma no_faults_run_stage:
  assumes "run_stage env rel (u, s) = (r, u', s')" and "no_faults s"
  shows "no_faults s'"
  using assms
  by (auto simp: run_stage_def Let_def no_faults_MkdirAll split: option.splits sum.splits prod.splits bool.splits
      dest!: no_faults_fetchVerify no_faults_writeJSON_data)

section \<open>Properties of the update run\<close>

text \<open>
  C10. The background update, for every server answer and every fault of the file system: the
  helper is started only when both staged files are on disk with contents whose digests
  are the published checksums of the two assets, and then the busy flag stays
  taken; otherwise the flag is free again and the error is recorded. In both cases no file
  outside the four staging paths is touched (so nothing under the binary directory), and
  without file system faults a failed attempt leaves neither staged binary behind.
\<close>

theorem run_update_verified_or_harmless:
  assumes "run_update env rel (u, s) = (spawned, u', s')" and "u_busy u"
  shows "(\<forall>q. q \<notin> staging u \<longrightarrow> files s' q = files s q) \<and>
    (if spawned
     then u_busy u' \<and> (\<exists>cs sums suffix. find_asset rel ''checksums.txt'' = Some cs \<and>
         fetchChecksums env (as_URL cs) = Inr sums \<and>
         staged_ok env rel (''wlcsim-'' @ suffix) (new_wlcsim u) sums s' \<and>
         staged_ok env rel (''wlcsim-console-'' @ suffix) (new_console u) sums s')
     else \<not> u_busy u' \<and> u_lastErr u' \<noteq> None \<and>
       (no_faults s \<longrightarrow> files s' (new_wlcsim u) = None \<and> files s' (new_console u) = None))"
proof -
  obtain r u1 s1 where st: "run_stage env rel (u, s) = (r, u1, s1)" by (metis surj_pair)
  note R = run_stage_result [OF st]
  show ?thesis
  proof (cases r)
    case None
    then have "spawned" "u' = u1" "s' = s1" using assms(1) st by (auto simp: run_update_def)
    with R None assms(2) show ?thesis by fastforce
  next
    case (Some e)
    let ?s2 = "snd (Remove (new_wlcsim u) s1)"
    have eq: "\<not> spawned" "u' = (fail e u1)\<lparr>u_busy := False\<rparr>" "s' = snd (Remove (new_console u) ?s2)"
      using assms(1) st Some by (auto simp: run_update_def)
    have fr: "files s' q = files s q" if "q \<notin> staging u" for q
      using R that Remove_frame [of q "new_console u" ?s2] Remove_frame [of q "new_wlcsim u" s1]
      by (simp add: eq(3) staging_def)
    have gone: "files s' (new_wlcsim u) = None \<and> files s' (new_console u) = None"
      if "no_faults s"
    proof -
      have nf: "no_faults s1" using no_faults_run_stage [OF st that] .
      then have nf2: "no_faults ?s2" by (simp add: no_faults_Remove)
      have "files ?s2 (new_wlcsim u) = None" using nf by (simp add: no_faults_Remove)
      moreover have "files s' (new_console u) = None" using nf2 by (simp add: eq(3) no_faults_Remove)
      moreover have "files s' (new_wlcsim u) = files ?s2 (new_wlcsim u)"
        unfolding eq(3) by (rule Remove_frame) simp
      ultimately show ?thesis by simp
    qed
    show ?thesis using eq fr gone by simp
  qed
qed

definition demo_release :: release where
  "demo_release = \<lparr>rel_TagName = ''v1.2.0'', rel_HTMLURL = [], rel_Prerelease = False, rel_Draft = False,
     rel_Assets = [\<lparr>as_Name = ''wlcsim-linux-amd64'', as_URL = ''u1'', as_Size = 1\<rparr>,
       \<lparr>as_Name = ''wlcsim-console-linux-amd64'', as_URL = ''u2'', as_Size = 1\<rparr>,
       \<lparr>as_Name = ''checksums.txt'', as_URL = ''u3'', as_Size = 1\<rparr>]\<rparr>"

definition demo_env :: upd_env where
  \<comment> \<open>the digest of a file is its own content; the second binary served is not the published one\<close>
  "demo_env = \<lparr>http_get = (\<lambda>u. if u = ''u1'' then HttpResponse 200 ''aa'' True
        else if u = ''u2'' then HttpResponse 200 ''xx'' True
        else if u = ''u3'' then HttpResponse 200 (concat (map (\<lambda>l. l @ [CHR 0x0A]) [''aa  wlcsim-linux-amd64'', ''bb *wlcsim-console-linux-amd64''])) True
        else HttpResponse 200 ''{}'' True),
     decode_release = (\<lambda>_. Some demo_release), sha256 = (\<lambda>d. d), encode_config = (\<lambda>_. Some ''cfg''),
     goarch = ''amd64'', free_bytes = (\<lambda>_. None), spawn_ok = True\<rparr>"

definition demo_updater :: updater where
  "demo_updater = NewUpdater ''v1.1.0'' True \<lparr>uo_Repo = [], uo_BinDir = ''/bin'', uo_WorkDir = ''/w'', uo_Port = 0\<rparr>"

theorem run_update_verified_or_harmless_witness:
  "files (snd (snd (run_update demo_env demo_release (demo_updater\<lparr>u_busy := True\<rparr>, empty_fs)))) ''/w/wlcsim.new'' = None"
proof -
  let ?u = "demo_updater\<lparr>u_busy := True\<rparr>"
  let ?r = "run_update demo_env demo_release (?u, empty_fs)"
  have f: "fst ?r = False" by code_simp
  have "?r = (False, fst (snd ?r), snd (snd ?r))" using f by (metis prod.collapse)
  from run_update_verified_or_harmless [OF this]
  have "files (snd (snd ?r)) (new_wlcsim ?u) = None" by simp
  moreover have "new_wlcsim ?u = ''/w/wlcsim.new''" by code_simp
  ultimately show ?thesis by simp
qed

section \<open>The busy flag\<close>

text \<open>
  The interleavings of the update requests: each request that wins the flag goes through its
  checks (Checking), then its background run (Running), then waits for the restart (Waiting)
  with its timer armed. Status reads and checks for a new release happen at any time.
\<close>

datatype phase = Checking | Running release | Waiting

record upd_sys =
  y_upd :: updater
  y_fs :: fs
  y_phases :: "phase list"

inductive upd_step :: "upd_env \<Rightarrow> upd_sys \<Rightarrow> upd_sys \<Rightarrow> bool" for env where
  check: "CheckLatest env now (y_upd y) = (r, u) \<Longrightarrow> upd_step env y (y\<lparr>y_upd := u\<rparr>)"
| take_flag: "u_appliance (y_upd y) \<Longrightarrow> \<not> u_busy (y_upd y) \<Longrightarrow>
    upd_step env y (y\<lparr>y_upd := (y_upd y)\<lparr>u_busy := True\<rparr>, y_phases := Checking # y_phases y\<rparr>)"
| refused: "y_phases y = ps @ Checking # qs \<Longrightarrow> apply_checks env now (y_upd y) = (Inl e, u) \<Longrightarrow>
    upd_step env y (y\<lparr>y_upd := u, y_phases := ps @ qs\<rparr>)"
| started: "y_phases y = ps @ Checking # qs \<Longrightarrow> apply_checks env now (y_upd y) = (Inr rel, u) \<Longrightarrow>
    upd_step env y (y\<lparr>y_upd := u, y_phases := ps @ Running rel # qs\<rparr>)"
| failed: "y_phases y = ps @ Running rel # qs \<Longrightarrow> run_update env rel (y_upd y, y_fs y) = (False, u, s) \<Longrightarrow>
    upd_step env y (y\<lparr>y_upd := u, y_fs := s, y_phases := ps @ qs\<rparr>)"
| spawned: "y_phases y = ps @ Running rel # qs \<Longrightarrow> run_update env rel (y_upd y, y_fs y) = (True, u, s) \<Longrightarrow>
    upd_step env y (y\<lparr>y_upd := u, y_fs := s, y_phases := ps @ Waiting # qs\<rparr>)"
| timeout: "y_phases y = ps @ Waiting # qs \<Longrightarrow>
    upd_step env y (y\<lparr>y_upd := handoff_timeout (y_upd y), y_phases := ps @ qs\<rparr>)"

inductive upd_reachable :: "upd_env \<Rightarrow> upd_sys \<Rightarrow> bool" for env where
  initial: "upd_reachable env \<lparr>y_upd = NewUpdater v a opts, y_fs = s, y_phases = []\<rparr>"
| step: "upd_reachable env y \<Longrightarrow> upd_step env y y' \<Longrightarrow> upd_reachable env y'"

definition flag_ok :: "upd_sys \<Rightarrow> bool" where
  "flag_ok y \<longleftrightarrow> length (y_phases y) = (if u_busy (y_upd y) then 1 else 0)"

lemma CheckLatest_frame:
  "CheckLatest env now u = (r, u') \<Longrightarrow> u_busy u' = u_busy u \<and> u_version u' = u_version u \<and> u_appliance u' = u_appliance u"
  by (auto simp: CheckLatest_def split: option.splits sum.splits if_splits)

lemma releaseForApply_result:
  assumes "releaseForApply env now u = (r, u')"
  shows "u_busy u' = u_busy u \<and> u_version u' = u_version u \<and> u_appliance u' = u_appliance u \<and>
    (\<forall>rel. r = Inr rel \<longrightarrow> isNewer (rel_TagName rel) (u_version u))"
  using assms
  by (auto simp: releaseForApply_def Let_def dest!: CheckLatest_frame split: option.splits sum.splits prod.splits if_splits)

lemma apply_checks_result:
  assumes "apply_checks env now u = (r, u')"
  shows "u_version u' = u_version u \<and> u_appliance u' = u_appliance u \<and>
    (case r of Inl e \<Rightarrow> \<not> u_busy u'
     | Inr rel \<Rightarrow> u_busy u' = u_busy u \<and> isNewer (rel_TagName rel) (u_version u) \<and> archAssetSuffix (goarch env) \<noteq> None)"
proof -
  obtain r0 u0 where r: "releaseForApply env now u = (r0, u0)" by fastforce
  from releaseForApply_result [OF r] assms r show ?thesis
    by (auto simp: apply_checks_def Let_def split: sum.splits if_splits option.splits)
qed

lemma run_update_busy:
  assumes "run_update env rel (u, s) = (b, u', s')"
  shows "u_busy u' = (b \<and> u_busy u)"
proof -
  obtain r u1 s1 where st: "run_stage env rel (u, s) = (r, u1, s1)" by (metis surj_pair)
  from run_stage_result [OF st] assms st show ?thesis
    by (auto simp: run_update_def split: option.splits)
qed

lemma upd_step_flag: "upd_step env y y' \<Longrightarrow> flag_ok y \<Longrightarrow> flag_ok y'"
proof (induction rule: upd_step.induct)
  case (check now y r u)
  then show ?case by (auto simp: flag_ok_def dest: CheckLatest_frame)
next
  case (failed y ps rel qs u s)
  then show ?case by (auto simp: flag_ok_def dest!: run_update_busy split: if_splits)
next
  case (spawned y ps rel qs u s)
  then show ?case by (auto simp: flag_ok_def dest!: run_update_busy split: if_splits)
qed (auto simp: flag_ok_def handoff_timeout_def dest!: apply_checks_result split: if_splits)



text \<open>
  \<^verbatim>\<open>Apply\<close>: it starts a run only on the appliance, when no update is in
  progress, on a supported architecture and for a release that is strictly newer than
  the running version, and then the flag is taken; every refusal leaves the flag as it was,
  so a refused request never blocks the next one.
\<close>

theorem Apply_preconditions:
  assumes "Apply env now u = (r, u')"
  shows "case r of
      Inl e \<Rightarrow> u_busy u' = u_busy u
    | Inr rel \<Rightarrow> u_appliance u \<and> \<not> u_busy u \<and> u_busy u' \<and> isNewer (rel_TagName rel) (u_version u) \<and>
        archAssetSuffix (goarch env) \<noteq> None"
proof (cases "u_appliance u \<and> \<not> u_busy u")
  case True
  then have a: "apply_checks env now (u\<lparr>u_busy := True\<rparr>) = (r, u')" using assms by (simp add: Apply_def)
  from apply_checks_result [OF a] True show ?thesis by (auto split: sum.splits)
next
  case False
  with assms show ?thesis by (auto simp: Apply_def split: if_splits)
qed

theorem Apply_preconditions_witness:
  "isNewer (rel_TagName demo_release) ''v1.1.0''"
proof -
  let ?r = "Apply demo_env 100 demo_updater"
  have "fst ?r = Inr demo_release" by code_simp
  then have "?r = (Inr demo_release, snd ?r)" by (metis prod.collapse)
  from Apply_preconditions [OF this] show ?thesis by (simp add: demo_updater_def NewUpdater_def)
qed

section \<open>The checksum file\<close>

definition sum_line :: "string \<times> string \<Rightarrow> string" where
  \<comment> \<open>a line of \<^verbatim>\<open>sha256sum\<close>\<close>
  "sum_line nd = snd nd @ ''  '' @ fst nd"

definition sum_file :: "(string \<times> string) list \<Rightarrow> string" where
  "sum_file es = concat (map (\<lambda>e. sum_line e @ [CHR 0x0A]) es)"

definition sum_entry_ok :: "string \<times> string \<Rightarrow> bool" where
  "sum_entry_ok e \<longleftrightarrow> fst e \<noteq> [] \<and> snd e \<noteq> [] \<and> hd (fst e) \<noteq> CHR ''*'' \<and>
     list_all (\<lambda>c. \<not> is_space c) (fst e) \<and> list_all (\<lambda>c. \<not> is_space c) (snd e) \<and>
     ToLower (snd e) = snd e \<and> int (length (fst e) + length (snd e)) < 65530"

lemma Fields_sum_line: "sum_entry_ok e \<Longrightarrow> Fields (sum_line e) = [snd e, fst e]"
  by (simp add: sum_line_def sum_entry_ok_def list_all_iff Fields_word Fields_space is_space_def)

lemma sum_line_chars: "sum_entry_ok e \<Longrightarrow> CHR 0x0A \<notin> set (sum_line e) \<and> CHR 0x0D \<notin> set (sum_line e)"
  by (auto simp: sum_entry_ok_def list_all_iff sum_line_def is_space_def)

lemma split_sum_file:
  "list_all sum_entry_ok es \<Longrightarrow> split_char (CHR 0x0A) (sum_file es) = map sum_line es @ [[]]"
proof (induction es)
  case (Cons e es)
  then have "CHR 0x0A \<notin> set (sum_line e)" using sum_line_chars by simp
  with Cons show ?case by (simp add: sum_file_def split_char_append)
qed (simp add: sum_file_def)

lemma scan_sum_file: "list_all sum_entry_ok es \<Longrightarrow> scan_lines (sum_file es) = map sum_line es"
proof -
  assume ok: "list_all sum_entry_ok es"
  have "drop_cr (sum_line e) = sum_line e" if "e \<in> set es" for e
  proof -
    have "CHR 0x0D \<notin> set (sum_line e)" "sum_line e \<noteq> []"
      using that ok sum_line_chars by (auto simp: list_all_iff sum_line_def)
    then have "last (sum_line e) \<noteq> CHR 0x0D" by (metis last_in_set)
    then show ?thesis by (simp add: drop_cr_def)
  qed
  then have "map drop_cr (map sum_line es) = map sum_line es" by simp
  then show ?thesis by (simp add: scan_lines_def split_sum_file [OF ok] Let_def)
qed

lemma add_sum_line:
  assumes "sum_entry_ok e"
  shows "add_sum (sum_line e) m = m(fst e \<mapsto> snd e)"
proof -
  have "TrimPrefix (fst e) ''*'' = fst e"
    using assms by (cases "fst e") (auto simp: TrimPrefix_def sum_entry_ok_def)
  with assms show ?thesis by (simp add: Fields_sum_line sum_entry_ok_def)
qed

lemma fold_add_sum:
  "list_all sum_entry_ok es \<Longrightarrow> fold add_sum (map sum_line es) m = m ++ map_of (rev es)"
proof (induction es arbitrary: m)
  case (Cons e es)
  then show ?case by (cases e) (simp add: add_sum_line map_add_def fun_eq_iff del: add_sum.simps split: option.split)
qed simp

lemma parse_sum_file:
  assumes "es \<noteq> []" and "list_all sum_entry_ok es"
  shows "parse_checksums (sum_file es) = Inr (map_of (rev es))"
proof -
  have s: "split_char (CHR 0x0A) (sum_file es) = map sum_line es @ [[]]" "scan_lines (sum_file es) = map sum_line es"
    using assms(2) by (simp_all add: split_sum_file scan_sum_file)
  have "\<not> list_ex (\<lambda>l. max_token \<le> int (length l)) (map sum_line es @ [[]])"
    using assms(2) by (fastforce simp: list_ex_iff list_all_iff sum_entry_ok_def sum_line_def max_token_def)
  moreover have "list_ex (\<lambda>l. length (Fields l) = 2) (map sum_line es)"
    using assms by (cases es) (simp_all add: Fields_sum_line)
  ultimately show ?thesis
    using assms(2) by (simp add: parse_checksums_def s Let_def fold_add_sum)
qed

text \<open>
  Reading back a \<^verbatim>\<open>sha256sum\<close> file: for any non-empty list of names and lower
  case digests without blanks, the parsed map gives for every name the digest of its last
  line, and no other name is there.
\<close>

theorem checksums_roundtrip:
  assumes "es \<noteq> []" and "list_all sum_entry_ok es"
  shows "parse_checksums (sum_file es) = Inr (map_of (rev es))"
  by (rule parse_sum_file) (fact assms)+

theorem checksums_roundtrip_witness:
  "parse_checksums (sum_file [(''wlcsim'', ''ab''), (''console'', ''cd'')]) = Inr [''wlcsim'' \<mapsto> ''ab'', ''console'' \<mapsto> ''cd'']"
  using checksums_roundtrip [of "[(''wlcsim'', ''ab''), (''console'', ''cd'')]"]
  by (simp add: sum_entry_ok_def is_space_def ToLower_def to_lower_char_def char_code_def Let_def)

end
