(* ===== verification/Helper.thy ===== *)
theory Helper
  imports Updater
begin

text \<open>
  \<^verbatim>\<open>internal/updater/helper.go\<close>: the detached process that stops the service,
  swaps the binaries, starts the service again and rolls back when it does not become
  healthy. Time is in milliseconds; what the service manager and the health URL answer at each
  moment are functions of the time, so that the theorems hold for every behaviour of the service.
  The log output and file modes are not modelled.
\<close>

section \<open>Results\<close>

datatype reason =
    CouldNotBackUp string fs_error | CouldNotInstall string fs_error | FailedHealthCheck string

datatype message =
    UpdatedTo string
  | NothingChanged                 \<comment> \<open>service did not stop; update aborted (nothing changed)\<close>
  | Recovered reason nat bool      \<comment> \<open>cause, restores that failed, service responding\<close>

datatype result_phase = PhaseDone | PhaseRolledBack | PhaseFailed

record result =
  res_Phase :: result_phase
  res_Target :: string
  res_Previous :: string
  res_Message :: message
  res_Timestamp :: int

record helper_env =
  service_cmd :: "string \<Rightarrow> string \<Rightarrow> nat \<Rightarrow> bool \<times> nat"  \<comment> \<open>success, and how long it took\<close>
  health :: "string \<Rightarrow> nat \<Rightarrow> nat \<times> int option"            \<comment> \<open>duration of a request, and its status\<close>

section \<open>Polling\<close>

definition timeout_ms :: "int \<Rightarrow> nat" where
  "timeout_ms secs = (if secs \<le> 0 then 30000 else nat secs * 1000)"

function poll_stopped :: "(nat \<Rightarrow> nat \<times> int option) \<Rightarrow> nat \<Rightarrow> nat \<Rightarrow> bool \<times> nat" where
  "poll_stopped get deadline now =
     (if now < deadline then
        (case get now of
           (d, None) \<Rightarrow> (True, now + d)
         | (d, Some status) \<Rightarrow>
             if status \<noteq> 200 then (True, now + d)
             else poll_stopped get deadline (now + d + 1000))
      else (False, now))"
  by pat_completeness auto
termination by (relation "measure (\<lambda>(get, deadline, now). deadline - now)") auto

function poll_healthy :: "(nat \<Rightarrow> nat \<times> int option) \<Rightarrow> nat \<Rightarrow> nat \<Rightarrow> bool \<times> nat" where
  "poll_healthy get deadline now =
     (if now < deadline then
        (case get now of
           (d, st) \<Rightarrow> if st = Some 200 then (True, now + d)
                      else poll_healthy get deadline (now + d + 2000))
      else (False, now))"
  by pat_completeness auto
termination by (relation "measure (\<lambda>(get, deadline, now). deadline - now)") auto

declare poll_stopped.simps [simp del] poll_healthy.simps [simp del]

definition waitStopped :: "helper_env \<Rightarrow> string \<Rightarrow> int \<Rightarrow> nat \<Rightarrow> bool \<times> nat" where
  "waitStopped env url secs now = poll_stopped (health env url) (now + timeout_ms secs) now"

definition waitHealthy :: "helper_env \<Rightarrow> string \<Rightarrow> int \<Rightarrow> nat \<Rightarrow> bool \<times> nat" where
  "waitHealthy env url secs now = poll_healthy (health env url) (now + timeout_ms secs) now"

definition runService :: "helper_env \<Rightarrow> string \<Rightarrow> string \<Rightarrow> nat \<Rightarrow> nat" where
  \<comment> \<open>its error is only logged by every caller: what is left is the time it takes\<close>
  "runService env svc action now = now + snd (service_cmd env svc action now)"

section \<open>Swapping and rolling back\<close>

datatype install_result =
    Installed "swap list"
  | BackupFailed "swap list" swap fs_error
  | InstallFailed "swap list" swap fs_error

fun install_loop :: "swap list \<Rightarrow> swap list \<Rightarrow> fs \<Rightarrow> install_result \<times> fs" where
  "install_loop installed [] s = (Installed installed, s)"
| "install_loop installed (b # bs) s =
     (case Rename (sw_Live b) (sw_Bak b) s of
        (Some IOFault, s1) \<Rightarrow> (BackupFailed installed b IOFault, s1)
      | (_, s1) \<Rightarrow>
          (case Rename (sw_New b) (sw_Live b) s1 of
             (Some e, s2) \<Rightarrow> (InstallFailed (installed @ [b]) b e, s2)
           | (None, s2) \<Rightarrow> install_loop (installed @ [b]) bs s2))"

fun rollback :: "swap list \<Rightarrow> fs \<Rightarrow> nat \<times> fs" where
  "rollback [] s = (0, s)"
| "rollback (b # bs) s =
     (let (e, s1) = Rename (sw_Bak b) (sw_Live b) s;
          (n, s2) = rollback bs s1
      in (if e = None then n else Suc n, s2))"

definition mk_result :: "helper_config \<Rightarrow> result_phase \<Rightarrow> message \<Rightarrow> result" where
  "mk_result cfg p m =
     \<lparr>res_Phase = p, res_Target = hc_TargetVersion cfg, res_Previous = hc_PreviousVersion cfg,
      res_Message = m, res_Timestamp = 0\<rparr>"

definition recoverFailure :: "helper_env \<Rightarrow> helper_config \<Rightarrow> swap list \<Rightarrow> reason \<Rightarrow> nat \<times> fs \<Rightarrow> result \<times> nat \<times> fs" where
  "recoverFailure env cfg toRestore why ns =
     (let now1 = runService env (hc_ServiceName cfg) ''stop'' (fst ns);
          (failed, s1) = rollback toRestore (snd ns);
          now2 = runService env (hc_ServiceName cfg) ''start'' now1;
          (healthy, now3) = waitHealthy env (hc_HealthURL cfg) (hc_HealthTimeout cfg) now2
      in (mk_result cfg (if failed > 0 \<or> \<not> healthy then PhaseFailed else PhaseRolledBack)
            (Recovered why failed healthy), now3, s1))"

definition path_base :: "string \<Rightarrow> string" where
  "path_base p = rev (takeWhile (\<lambda>c. c \<noteq> CHR ''/'') (rev p))"

definition runSequence :: "helper_env \<Rightarrow> helper_config \<Rightarrow> nat \<times> fs \<Rightarrow> result \<times> nat \<times> fs" where
  "runSequence env cfg ns =
     (let svc = hc_ServiceName cfg;
          now1 = runService env svc ''stop'' (fst ns);
          (stopped, now2) = waitStopped env (hc_HealthURL cfg) (hc_HealthTimeout cfg) now1
      in if \<not> stopped
         then (mk_result cfg PhaseFailed NothingChanged, runService env svc ''start'' now2, snd ns)
         else
           (case install_loop [] (hc_Binaries cfg) (snd ns) of
              (BackupFailed installed b e, s1) \<Rightarrow>
                recoverFailure env cfg installed (CouldNotBackUp (path_base (sw_Live b)) e) (now2, s1)
            | (InstallFailed installed b e, s1) \<Rightarrow>
                recoverFailure env cfg installed (CouldNotInstall (path_base (sw_Live b)) e) (now2, s1)
            | (Installed installed, s1) \<Rightarrow>
                (let now3 = runService env svc ''start'' now2;
                     (healthy, now4) = waitHealthy env (hc_HealthURL cfg) (hc_HealthTimeout cfg) now3
                 in if healthy then (mk_result cfg PhaseDone (UpdatedTo (hc_TargetVersion cfg)), now4, s1)
                    else recoverFailure env cfg installed (FailedHealthCheck (hc_TargetVersion cfg)) (now4, s1))))"

section \<open>The process and its result file\<close>

definition RunHelper :: "helper_env \<Rightarrow> (string \<Rightarrow> helper_config option) \<Rightarrow> (result \<Rightarrow> string option) \<Rightarrow> int \<Rightarrow>
    string \<Rightarrow> nat \<times> fs \<Rightarrow> nat \<times> fs" where
  \<comment> \<open>the JSON codec and the wall clock are arguments; the result is the exit status\<close>
  "RunHelper env decode encode clock cfgPath ns =
     (case ReadFile cfgPath (snd ns) of
        Inl _ \<Rightarrow> (1, snd ns)
      | Inr data \<Rightarrow>
          (case decode data of
             None \<Rightarrow> (1, snd ns)
           | Some cfg \<Rightarrow>
               (let (res, now1, s1) = runSequence env cfg ns;
                    s2 = snd (writeJSON_data (hc_ResultPath cfg) (encode (res\<lparr>res_Timestamp := clock\<rparr>)) s1)
                in (0, snd (Remove cfgPath s2)))))"

definition readResult :: "(string \<Rightarrow> result option) \<Rightarrow> string \<Rightarrow> fs \<Rightarrow> result option" where
  "readResult decode path s =
     (case ReadFile path s of Inl _ \<Rightarrow> None | Inr data \<Rightarrow> decode data)"

record status =
  st_CurrentVersion :: string
  st_LatestVersion :: string
  st_ReleaseURL :: string
  st_UpdateAvailable :: bool
  st_Appliance :: bool
  st_InProgress :: bool
  st_LastChecked :: "int option"
  st_LastError :: "upd_error option"
  st_LastResult :: "result option"

definition Status :: "(string \<Rightarrow> result option) \<Rightarrow> int \<Rightarrow> updater \<Rightarrow> fs \<Rightarrow> status" where
  "Status decode now u s =
     \<lparr>st_CurrentVersion = u_version u,
      st_LatestVersion = (case u_latest u of None \<Rightarrow> [] | Some r \<Rightarrow> rel_TagName r),
      st_ReleaseURL = (case u_latest u of None \<Rightarrow> [] | Some r \<Rightarrow> rel_HTMLURL r),
      st_UpdateAvailable = (case u_latest u of None \<Rightarrow> False | Some r \<Rightarrow> u_appliance u \<and> isNewer (rel_TagName r) (u_version u)),
      st_Appliance = u_appliance u,
      st_InProgress = u_busy u,
      st_LastChecked = (if u_lastChecked u = 0 then None else Some (u_lastChecked u)),
      st_LastError = u_lastErr u,
      st_LastResult = (case readResult decode (resultPath u) s of
         Some r \<Rightarrow> if now - res_Timestamp r < resultTTL then Some r else None
       | None \<Rightarrow> None)\<rparr>"

section \<open>Lemmas on the swap\<close>

lemma Rename_alive:
  assumes "Rename a b s = (e, s')" and "\<not> crashed s'"
  shows "\<not> crashed s \<and> (e \<noteq> None \<longrightarrow> files s' = files s)"
  using assms
  by (auto simp: Rename_def Let_def tick_def next_fault_def split: option.splits fault.splits if_splits)

lemma rollback_alive: "rollback bs s = (n, s') \<Longrightarrow> \<not> crashed s' \<Longrightarrow> \<not> crashed s"
  by (induction bs arbitrary: n s) (auto simp: Let_def dest: Rename_alive split: prod.splits)

definition swap_paths :: "swap \<Rightarrow> string list" where
  "swap_paths b = [sw_New b, sw_Live b, sw_Bak b]"

definition paths_distinct :: "swap list \<Rightarrow> bool" where
  "paths_distinct bs \<longleftrightarrow> distinct (concat (map swap_paths bs))"

lemma paths_distinct_Cons:
  "paths_distinct (b # bs) \<longleftrightarrow> distinct (swap_paths b) \<and> paths_distinct bs \<and>
     (\<forall>c \<in> set bs. set (swap_paths b) \<inter> set (swap_paths c) = {})"
  by (auto simp: paths_distinct_def)

lemma rename_other:
  assumes "Rename p q s = (e, s')" and "p \<in> set (swap_paths b)" and "q \<in> set (swap_paths b)"
    and "set (swap_paths b) \<inter> set (swap_paths c) = {}" and "r \<in> set (swap_paths c)"
  shows "files s' r = files s r"
  by (rule osfs.rename_frame [OF assms(1)]) (use assms in auto)

definition swapped :: "(string \<Rightarrow> string option) \<Rightarrow> (string \<Rightarrow> string option) \<Rightarrow> swap \<Rightarrow> bool" where
  \<comment> \<open>from the first file contents to the second, b has been installed\<close>
  "swapped f0 f b \<longleftrightarrow> f0 (sw_New b) \<noteq> None \<and> f (sw_Live b) = f0 (sw_New b) \<and> f (sw_Bak b) = f0 (sw_Live b)"

definition backed_up :: "(string \<Rightarrow> string option) \<Rightarrow> (string \<Rightarrow> string option) \<Rightarrow> swap \<Rightarrow> bool" where
  "backed_up f0 f b \<longleftrightarrow> f (sw_Bak b) = f0 (sw_Live b)"

lemma swapped_backed_up: "swapped f0 f b \<Longrightarrow> backed_up f0 f b"
  by (simp add: swapped_def backed_up_def)

lemma Rename_NotExist: "Rename a b s = (Some NotExist, s') \<Longrightarrow> files s a = None"
  by (auto simp: Rename_def Let_def split: option.splits fault.splits if_splits)

definition untouched :: "(string \<Rightarrow> string option) \<Rightarrow> (string \<Rightarrow> string option) \<Rightarrow> swap \<Rightarrow> bool" where
  "untouched f0 f b \<longleftrightarrow> (\<forall>p \<in> set (swap_paths b). f p = f0 p)"

lemma swap_paths_mem [simp]:
  "sw_New b \<in> set (swap_paths b)" "sw_Live b \<in> set (swap_paths b)" "sw_Bak b \<in> set (swap_paths b)"
  by (simp_all add: swap_paths_def)

lemma same_paths:
  assumes "\<forall>p \<in> set (swap_paths c). f' p = f p"
  shows "swapped f0 f' c = swapped f0 f c" "untouched f0 f' c = untouched f0 f c" "backed_up f0 f' c = backed_up f0 f c"
  using assms by (simp_all add: swapped_def untouched_def backed_up_def)

lemma install_loop_alive: "install_loop ds bs s = (r, s') \<Longrightarrow> \<not> crashed s' \<Longrightarrow> \<not> crashed s"
proof (induction ds bs s rule: install_loop.induct)
  case (2 ds b bs s)
  obtain e1 s1 where r1: "Rename (sw_Live b) (sw_Bak b) s = (e1, s1)" by fastforce
  obtain e2 s2 where r2: "Rename (sw_New b) (sw_Live b) s1 = (e2, s2)" by fastforce
  have "\<not> crashed s1"
  proof (cases "e1 = Some IOFault \<or> e2 \<noteq> None")
    case True
    then show ?thesis using "2.prems" r1 r2
      by (auto split: option.splits fs_error.splits dest: Rename_alive)
  next
    case False
    then have "e1 = None \<or> e1 = Some NotExist" "e2 = None" by (cases e1, auto) (metis fs_error.exhaust)
    then have "install_loop (ds @ [b]) bs s2 = (r, s')" using "2.prems"(1) r1 r2 by auto
    then have "\<not> crashed s2" using "2.IH" r1 r2 \<open>e1 = None \<or> e1 = Some NotExist\<close> \<open>e2 = None\<close> "2.prems"(2) by fastforce
    then show ?thesis using Rename_alive [OF r2] by blast
  qed
  then show ?case using Rename_alive [OF r1] by blast
qed simp

lemma swap_step:
  assumes "Rename p q s = (e, s')" and "set (swap_paths b) \<inter> set (swap_paths c) = {}"
    and "p \<in> set (swap_paths b)" and "q \<in> set (swap_paths b)"
  shows "swapped f0 (files s') c = swapped f0 (files s) c" "untouched f0 (files s') c = untouched f0 (files s) c"
    "backed_up f0 (files s') c = backed_up f0 (files s) c"
  using same_paths [of c "files s'" "files s"] rename_other [OF assms(1,3,4,2)] by simp_all

lemma install_loop_result:
  assumes "install_loop ds bs s = (r, s')" and "\<not> crashed s'" and "paths_distinct (ds @ bs)"
    and "\<forall>d \<in> set ds. swapped f0 (files s) d" and "\<forall>b \<in> set bs. untouched f0 (files s) b \<and> f0 (sw_Live b) \<noteq> None"
  shows "case r of
      Installed is \<Rightarrow> is = ds @ bs \<and> (\<forall>b \<in> set is. swapped f0 (files s') b)
    | BackupFailed is b e \<Rightarrow> (\<exists>cs. ds @ bs = is @ b # cs \<and> (\<forall>d \<in> set is. swapped f0 (files s') d) \<and>
        (\<forall>c \<in> set (b # cs). untouched f0 (files s') c))
    | InstallFailed is b e \<Rightarrow> (\<exists>cs. ds @ bs = is @ cs \<and> (\<forall>d \<in> set is. backed_up f0 (files s') d) \<and>
        (\<forall>c \<in> set cs. untouched f0 (files s') c))"
  using assms
proof (induction bs arbitrary: ds s)
  case Nil
  then show ?case by auto
next
  case (Cons b bs)
  have dist: "distinct (swap_paths b)" and sep: "\<forall>c \<in> set ds \<union> set bs. set (swap_paths b) \<inter> set (swap_paths c) = {}"
    using Cons.prems(3) by (auto simp: paths_distinct_def)
  have neq: "sw_Live b \<noteq> sw_Bak b" "sw_New b \<noteq> sw_Live b" "sw_New b \<noteq> sw_Bak b"
    using dist by (auto simp: swap_paths_def)
  have b0: "files s (sw_Live b) = f0 (sw_Live b)" "files s (sw_New b) = f0 (sw_New b)" "f0 (sw_Live b) \<noteq> None"
    using Cons.prems(5) by (simp_all add: untouched_def)
  obtain e1 s1 where r1: "Rename (sw_Live b) (sw_Bak b) s = (e1, s1)" by fastforce
  obtain e2 s2 where r2: "Rename (sw_New b) (sw_Live b) s1 = (e2, s2)" by fastforce
  note st1 = swap_step [OF r1 _ swap_paths_mem(2) swap_paths_mem(3)]
  note st2 = swap_step [OF r2 _ swap_paths_mem(1) swap_paths_mem(2)]
  have ne: "e1 \<noteq> Some NotExist" using r1 Rename_NotExist b0 by fastforce
  show ?case
  proof (cases e1)
    case (Some e)
    then have e: "e = IOFault" using ne by (cases e) auto
    with Some Cons.prems(1) r1 have r: "r = BackupFailed ds b IOFault" "s' = s1" by auto
    then have "files s' = files s" using Rename_alive [OF r1] Cons.prems(2) Some by simp
    with r Cons.prems show ?thesis by (auto intro!: exI [of _ bs])
  next
    case None
    from r1 None have "Rename (sw_Live b) (sw_Bak b) s = (None, s1)" by simp
    from osfs.rename_success [OF this neq(1)] have b1: "files s1 (sw_Bak b) = f0 (sw_Live b)" using b0 by simp
    have n1: "files s1 (sw_New b) = f0 (sw_New b)"
      using osfs.rename_frame [OF r1, of "sw_New b"] neq b0 by simp
    have ds2: "\<forall>d \<in> set ds. swapped f0 (files s2) d" using Cons.prems(4) st1 st2 sep by simp
    have bs2: "\<forall>c \<in> set bs. untouched f0 (files s2) c \<and> f0 (sw_Live c) \<noteq> None"
      using Cons.prems(5) st1 st2 sep by simp
    have b2: "files s2 (sw_Bak b) = f0 (sw_Live b)"
      using osfs.rename_frame [OF r2, of "sw_Bak b"] neq b1 by simp
    show ?thesis
    proof (cases e2)
      case (Some e)
      then have r: "r = InstallFailed (ds @ [b]) b e" "s' = s2" using Cons.prems(1) r1 None r2 by simp_all
      have "\<forall>d \<in> set (ds @ [b]). backed_up f0 (files s') d"
        using ds2 b2 r swapped_backed_up by (auto simp: backed_up_def)
      with r bs2 show ?thesis by (auto intro!: exI [of _ bs])
    next
      case e2: None
      then have rest: "install_loop (ds @ [b]) bs s2 = (r, s')" using Cons.prems(1) r1 None r2 by simp
      from r2 e2 have "Rename (sw_New b) (sw_Live b) s1 = (None, s2)" by simp
      from osfs.rename_success [OF this neq(2)] have "swapped f0 (files s2) b"
        using n1 b2 by (simp add: swapped_def)
      with ds2 have "\<forall>d \<in> set (ds @ [b]). swapped f0 (files s2) d" by auto
      from Cons.IH [OF rest Cons.prems(2) _ this bs2] Cons.prems(3) show ?thesis
        by (cases r) simp_all
    qed
  qed
qed

lemma rollback_frame:
  assumes "rollback bs s = (n, s')" and "\<forall>b \<in> set bs. r \<notin> set (swap_paths b)"
  shows "files s' r = files s r"
  using assms
proof (induction bs arbitrary: n s)
  case (Cons b bs)
  obtain e s1 where r: "Rename (sw_Bak b) (sw_Live b) s = (e, s1)" by fastforce
  obtain n2 s2 where rb: "rollback bs s1 = (n2, s2)" by fastforce
  have "files s1 r = files s r"
    by (rule osfs.rename_frame [OF r]) (use Cons.prems in auto)
  moreover have "rollback bs s1 = (n2, s')" using Cons.prems(1) r rb by simp
  ultimately show ?case using Cons.IH [of s1 n2] Cons.prems(2) by simp
qed simp

lemma rollback_clean:
  assumes "rollback bs s = (0, s')" and "paths_distinct bs" and "\<forall>b \<in> set bs. backed_up f0 (files s) b"
  shows "\<forall>b \<in> set bs. files s' (sw_Live b) = f0 (sw_Live b)"
  using assms
proof (induction bs arbitrary: s)
  case (Cons b bs)
  obtain e s1 where r: "Rename (sw_Bak b) (sw_Live b) s = (e, s1)" by fastforce
  obtain n2 s2 where rb: "rollback bs s1 = (n2, s2)" by fastforce
  have e: "e = None" "n2 = 0" "s' = s2" using Cons.prems(1) r rb by (auto split: if_splits)
  have sep: "\<forall>c \<in> set bs. set (swap_paths b) \<inter> set (swap_paths c) = {}" "sw_Live b \<noteq> sw_Bak b"
    using Cons.prems(2) by (auto simp: paths_distinct_Cons swap_paths_def)
  have "files s1 (sw_Live b) = f0 (sw_Live b)"
    using osfs.rename_success [OF r [unfolded e]] sep(2) Cons.prems(3) by (simp add: backed_up_def)
  moreover have "files s2 (sw_Live b) = files s1 (sw_Live b)"
  proof (rule rollback_frame [OF rb], rule ballI)
    fix c assume "c \<in> set bs"
    with sep(1) show "sw_Live b \<notin> set (swap_paths c)" using swap_paths_mem(2) by blast
  qed
  moreover have "\<forall>c \<in> set bs. backed_up f0 (files s1) c"
    using Cons.prems(3) swap_step(3) [OF r _ swap_paths_mem(3) swap_paths_mem(2)] sep by simp
  ultimately show ?case
    using Cons.IH [of s1] Cons.prems(2) rb e by (simp add: paths_distinct_Cons)
qed simp


lemma recoverFailure_result:
  assumes "recoverFailure env cfg bs why (now, s) = (res, now', s')" and "paths_distinct bs"
    and "\<forall>b \<in> set bs. backed_up f0 (files s) b"
  shows "(res_Phase res = PhaseRolledBack \<or> res_Phase res = PhaseFailed) \<and>
    (\<exists>n h. res_Message res = Recovered why n h \<and> (res_Phase res = PhaseRolledBack \<longleftrightarrow> n = 0 \<and> h)) \<and>
    (res_Phase res = PhaseRolledBack \<longrightarrow> (\<forall>b \<in> set bs. files s' (sw_Live b) = f0 (sw_Live b))) \<and>
    (\<forall>r. (\<forall>b \<in> set bs. r \<notin> set (swap_paths b)) \<longrightarrow> files s' r = files s r) \<and>
    (\<not> crashed s' \<longrightarrow> \<not> crashed s)"
proof -
  obtain n s1 where rb: "rollback bs s = (n, s1)" by fastforce
  have "s' = s1" "res_Phase res = PhaseRolledBack \<longrightarrow> n = 0"
    and ph: "\<exists>h. res_Message res = Recovered why n h \<and> (res_Phase res = PhaseRolledBack \<longleftrightarrow> n = 0 \<and> h)"
      "res_Phase res = PhaseRolledBack \<or> res_Phase res = PhaseFailed"
    using assms(1) rb by (auto simp: recoverFailure_def Let_def mk_result_def split: prod.splits if_splits)
  then show ?thesis
    using rollback_clean [of bs s s1 f0] rollback_frame [OF rb] rollback_alive [OF rb] rb assms(2,3) ph by auto
qed

lemma paths_distinct_append:
  assumes "paths_distinct (xs @ ys)"
  shows "paths_distinct xs" and "c \<in> set ys \<Longrightarrow> p \<in> set (swap_paths c) \<Longrightarrow> b \<in> set xs \<Longrightarrow> p \<notin> set (swap_paths b)"
  using assms by (auto simp: paths_distinct_def)

lemma recovered_all:
  assumes "recoverFailure env cfg is why (now, s) = (res, now', s')" and "bs = is @ cs" and "paths_distinct bs"
    and "\<forall>d \<in> set is. backed_up f0 (files s) d" and "\<forall>c \<in> set cs. untouched f0 (files s) c"
  shows "(res_Phase res = PhaseRolledBack \<longrightarrow> (\<forall>b \<in> set bs. files s' (sw_Live b) = f0 (sw_Live b))) \<and>
    res_Phase res \<noteq> PhaseDone \<and> res_Message res \<noteq> NothingChanged"
proof -
  have d: "paths_distinct is" using assms(2,3) paths_distinct_append(1) by blast
  note R = recoverFailure_result [OF assms(1) d assms(4)]
  have "files s' (sw_Live c) = f0 (sw_Live c)" if "c \<in> set cs" for c
  proof -
    have "\<forall>b \<in> set is. sw_Live c \<notin> set (swap_paths b)"
      using paths_distinct_append(2) [of "is" cs c "sw_Live c"] assms(2,3) that by simp
    then have "files s' (sw_Live c) = files s (sw_Live c)" using R by blast
    with assms(5) that show ?thesis by (simp add: untouched_def)
  qed
  with R assms(2) show ?thesis by auto
qed

definition helper_ready :: "helper_config \<Rightarrow> fs \<Rightarrow> bool" where
  \<comment> \<open>no two of the configured paths are the same, and every live binary is there\<close>
  "helper_ready cfg s \<longleftrightarrow>
     paths_distinct (hc_Binaries cfg) \<and> (\<forall>b \<in> set (hc_Binaries cfg). files s (sw_Live b) \<noteq> None)"

lemma update_outcome_truthful_facts:
  assumes "runSequence env cfg (now, s) = (res, now', s')" and "helper_ready cfg s" and "\<not> crashed s'"
  shows "(res_Phase res = PhaseDone \<longrightarrow> (\<forall>b \<in> set (hc_Binaries cfg). swapped (files s) (files s') b)) \<and>
    (res_Phase res = PhaseRolledBack \<longrightarrow> (\<forall>b \<in> set (hc_Binaries cfg). files s' (sw_Live b) = files s (sw_Live b))) \<and>
    (res_Message res = NothingChanged \<longrightarrow> files s' = files s)"
proof -
  let ?bs = "hc_Binaries cfg"
  have dist: "paths_distinct ?bs" and live: "\<forall>b \<in> set ?bs. untouched (files s) (files s) b \<and> files s (sw_Live b) \<noteq> None"
    using assms(2) by (simp_all add: helper_ready_def untouched_def)
  obtain st now2 where w: "waitStopped env (hc_HealthURL cfg) (hc_HealthTimeout cfg)
      (runService env (hc_ServiceName cfg) ''stop'' now) = (st, now2)" by fastforce
  obtain r s1 where i: "install_loop [] ?bs s = (r, s1)" by fastforce
  show ?thesis
  proof (cases st)
    case False
    then show ?thesis using assms(1) w by (auto simp: runSequence_def Let_def mk_result_def)
  next
    case True
    have alive: "\<not> crashed s1"
      using assms(1,3) w i True
      by (auto simp: runSequence_def recoverFailure_def Let_def dest: rollback_alive
          split: install_result.splits prod.splits if_splits)
    have none: "\<forall>d \<in> set []. swapped (files s) (files s) d" by simp
    note I = install_loop_result [OF i alive _ none live, unfolded append_Nil, OF dist]
    show ?thesis
    proof (cases r)
      case (Installed xs)
      then have all: "xs = ?bs" "\<forall>b \<in> set ?bs. swapped (files s) (files s1) b" using I by auto
      obtain h now4 where h: "waitHealthy env (hc_HealthURL cfg) (hc_HealthTimeout cfg)
        (runService env (hc_ServiceName cfg) ''start'' now2) = (h, now4)" by fastforce
      show ?thesis
      proof (cases h)
        case True
        then show ?thesis using assms(1) w i Installed all h \<open>st\<close>
          by (auto simp: runSequence_def Let_def mk_result_def)
      next
        case False
        then have "recoverFailure env cfg ?bs (FailedHealthCheck (hc_TargetVersion cfg)) (now4, s1) = (res, now', s')"
          using assms(1) w i Installed all h \<open>st\<close> by (simp add: runSequence_def Let_def)
        from recovered_all [OF this, of ?bs "[]" "files s"] all dist swapped_backed_up show ?thesis by auto
      qed
    next
      case (BackupFailed xs b e)
      then obtain cs where c: "?bs = xs @ b # cs" "\<forall>d \<in> set xs. swapped (files s) (files s1) d"
        "\<forall>c \<in> set (b # cs). untouched (files s) (files s1) c" using I by auto
      have rec: "recoverFailure env cfg xs (CouldNotBackUp (path_base (sw_Live b)) e) (now2, s1) = (res, now', s')"
        using assms(1) w i BackupFailed True by (simp add: runSequence_def Let_def)
      have "\<forall>d \<in> set xs. backed_up (files s) (files s1) d" using c(2) swapped_backed_up by blast
      from recovered_all [OF rec c(1) dist this c(3)] show ?thesis by auto
    next
      case (InstallFailed xs b e)
      then obtain cs where c: "?bs = xs @ cs" "\<forall>d \<in> set xs. backed_up (files s) (files s1) d"
        "\<forall>c \<in> set cs. untouched (files s) (files s1) c" using I by auto
      have "recoverFailure env cfg xs (CouldNotInstall (path_base (sw_Live b)) e) (now2, s1) = (res, now', s')"
        using assms(1) w i InstallFailed True by (simp add: runSequence_def Let_def)
      from recovered_all [OF this c(1) dist c(2,3)] show ?thesis by auto
    qed
  qed
qed

text \<open>
  C9. The reported outcome of an update is the truth, for every behaviour of the service
  and every fault of the file system the process survives: "done" means every live path
  holds the new binary and its backup the old one; "rolled back" means every live path
  holds exactly what it held before; "nothing changed" means no file changed.
\<close>

theorem update_outcome_truthful:
  assumes "runSequence env cfg (now, s) = (res, now', s')" and "helper_ready cfg s" and "\<not> crashed s'"
  shows "(res_Phase res = PhaseDone \<longrightarrow> (\<forall>b \<in> set (hc_Binaries cfg). swapped (files s) (files s') b)) \<and>
    (res_Phase res = PhaseRolledBack \<longrightarrow> (\<forall>b \<in> set (hc_Binaries cfg). files s' (sw_Live b) = files s (sw_Live b))) \<and>
    (res_Message res = NothingChanged \<longrightarrow> files s' = files s)"
  by (rule update_outcome_truthful_facts) (fact assms)+


definition demo_swap :: swap where
  "demo_swap = \<lparr>sw_New = ''/w/new'', sw_Live = ''/b/wlcsim'', sw_Bak = ''/b/bak''\<rparr>"

definition demo_helper :: helper_config where
  "demo_helper = \<lparr>hc_ServiceName = ''wlcsim'', hc_HealthURL = ''h'', hc_HealthTimeout = 4,
     hc_TargetVersion = ''v2'', hc_PreviousVersion = ''v1'', hc_ResultPath = ''r'', hc_Binaries = [demo_swap]\<rparr>"

definition demo_files :: fs where
  "demo_files = empty_fs\<lparr>files := [''/w/new'' \<mapsto> ''NEW'', ''/b/wlcsim'' \<mapsto> ''OLD'']\<rparr>"

definition down_env :: helper_env where
  \<comment> \<open>the service is down for the first five seconds, then up again (so the new binary fails)\<close>
  "down_env = \<lparr>service_cmd = (\<lambda>_ _ _. (True, 0)), health = (\<lambda>_ t. (0, if t < 5000 then None else Some 200))\<rparr>"

lemma demo_ready: "helper_ready demo_helper demo_files"
  by (simp add: helper_ready_def demo_helper_def paths_distinct_def swap_paths_def demo_swap_def demo_files_def)

lemma demo_run:
  "(case runSequence down_env demo_helper (0, demo_files) of
      (res, t, s) \<Rightarrow> res_Phase res = PhaseRolledBack \<and> \<not> crashed s)"
  by (simp add: runSequence_def demo_helper_def demo_swap_def demo_files_def down_env_def waitStopped_def waitHealthy_def
      runService_def timeout_ms_def poll_stopped.simps poll_healthy.simps Rename_def next_fault_def empty_fs_def tick_def
      Let_def recoverFailure_def mk_result_def)

theorem update_outcome_truthful_witness:
  "files (snd (snd (runSequence down_env demo_helper (0, demo_files)))) ''/b/wlcsim'' = Some ''OLD''"
proof -
  obtain res t s where r: "runSequence down_env demo_helper (0, demo_files) = (res, t, s)" by (metis surj_pair)
  then have "res_Phase res = PhaseRolledBack" "\<not> crashed s" using demo_run by auto
  with update_outcome_truthful [OF r demo_ready] r show ?thesis
    by (simp add: demo_helper_def demo_swap_def demo_files_def)
qed

section \<open>Crashes\<close>

definition safe :: "(string \<Rightarrow> string option) \<Rightarrow> (string \<Rightarrow> string option) \<Rightarrow> swap \<Rightarrow> bool" where
  \<comment> \<open>the old binary is at its live path or in its backup\<close>
  "safe f0 f b \<longleftrightarrow> f (sw_Live b) = f0 (sw_Live b) \<or> f (sw_Bak b) = f0 (sw_Live b)"

fun to_restore :: "install_result \<Rightarrow> swap list" where
  "to_restore (Installed bs) = bs"
| "to_restore (BackupFailed bs b e) = bs"
| "to_restore (InstallFailed bs b e) = bs"

lemma backed_up_safe: "backed_up f0 f b \<Longrightarrow> safe f0 f b"
  by (simp add: backed_up_def safe_def)

lemma untouched_safe: "untouched f0 f b \<Longrightarrow> safe f0 f b"
  by (simp add: untouched_def safe_def swap_paths_def)

lemma install_loop_safe:
  assumes "install_loop ds bs s = (r, s')" and "paths_distinct (ds @ bs)"
    and "\<forall>d \<in> set ds. backed_up f0 (files s) d" and "\<forall>b \<in> set bs. untouched f0 (files s) b \<and> f0 (sw_Live b) \<noteq> None"
  shows "\<exists>cs. ds @ bs = to_restore r @ cs \<and> (\<forall>d \<in> set (to_restore r). backed_up f0 (files s') d) \<and>
    (\<forall>c \<in> set cs. safe f0 (files s') c)"
  using assms
proof (induction bs arbitrary: ds s)
  case Nil
  then show ?case by auto
next
  case (Cons b bs)
  have dist: "distinct (swap_paths b)" and sep: "\<forall>c \<in> set ds \<union> set bs. set (swap_paths b) \<inter> set (swap_paths c) = {}"
    using Cons.prems(2) by (auto simp: paths_distinct_def)
  have neq: "sw_Live b \<noteq> sw_Bak b" "sw_New b \<noteq> sw_Bak b" using dist by (auto simp: swap_paths_def)
  have b0: "files s (sw_Live b) = f0 (sw_Live b)" "f0 (sw_Live b) \<noteq> None"
    using Cons.prems(4) by (simp_all add: untouched_def)
  obtain e1 s1 where r1: "Rename (sw_Live b) (sw_Bak b) s = (e1, s1)" by fastforce
  obtain e2 s2 where r2: "Rename (sw_New b) (sw_Live b) s1 = (e2, s2)" by fastforce
  note st1 = swap_step [OF r1 _ swap_paths_mem(2) swap_paths_mem(3)]
  note st2 = swap_step [OF r2 _ swap_paths_mem(1) swap_paths_mem(2)]
  have ne: "e1 \<noteq> Some NotExist" using r1 Rename_NotExist b0 by fastforce
  show ?case
  proof (cases e1)
    case (Some e)
    then have "r = BackupFailed ds b IOFault \<and> s' = s1" using ne Cons.prems(1) r1 by (cases e) auto
    moreover have "safe f0 (files s1) b"
      using osfs.rename_all_or_nothing [OF r1 neq(1)] b0 by (auto simp: safe_def)
    moreover have "\<forall>d \<in> set ds. backed_up f0 (files s1) d" "\<forall>c \<in> set bs. safe f0 (files s1) c"
      using Cons.prems(3,4) st1 sep untouched_safe by simp_all
    ultimately show ?thesis by (intro exI [of _ "b # bs"]) simp
  next
    case None
    from r1 None have "Rename (sw_Live b) (sw_Bak b) s = (None, s1)" by simp
    from osfs.rename_success [OF this neq(1)] have "files s1 (sw_Bak b) = f0 (sw_Live b)" using b0 by simp
    then have b2: "backed_up f0 (files s2) b"
      using osfs.rename_frame [OF r2, of "sw_Bak b"] neq by (simp add: backed_up_def)
    have ds2: "\<forall>d \<in> set (ds @ [b]). backed_up f0 (files s2) d" using Cons.prems(3) st1 st2 sep b2 by auto
    have bs2: "\<forall>c \<in> set bs. untouched f0 (files s2) c \<and> f0 (sw_Live c) \<noteq> None"
      using Cons.prems(4) st1 st2 sep by simp
    show ?thesis
    proof (cases e2)
      case (Some e)
      then have "r = InstallFailed (ds @ [b]) b e \<and> s' = s2" using Cons.prems(1) r1 None r2 by simp
      with ds2 bs2 untouched_safe show ?thesis by (intro exI [of _ bs]) auto
    next
      case e2: None
      then have "install_loop (ds @ [b]) bs s2 = (r, s')" using Cons.prems(1) r1 None r2 by simp
      from Cons.IH [OF this _ ds2 bs2] Cons.prems(2) show ?thesis by simp
    qed
  qed
qed

lemma rollback_safe:
  assumes "rollback bs s = (n, s')" and "paths_distinct bs" and "\<forall>b \<in> set bs. backed_up f0 (files s) b"
  shows "\<forall>b \<in> set bs. safe f0 (files s') b"
  using assms
proof (induction bs arbitrary: n s)
  case (Cons b bs)
  obtain e s1 where r: "Rename (sw_Bak b) (sw_Live b) s = (e, s1)" by fastforce
  obtain n2 s2 where rb: "rollback bs s1 = (n2, s2)" by fastforce
  have s': "s' = s2" using Cons.prems(1) r rb by simp
  have sep: "\<forall>c \<in> set bs. set (swap_paths b) \<inter> set (swap_paths c) = {}" "sw_Bak b \<noteq> sw_Live b"
    using Cons.prems(2) by (auto simp: paths_distinct_Cons swap_paths_def)
  have "safe f0 (files s1) b"
    using osfs.rename_all_or_nothing [OF r sep(2)] Cons.prems(3) by (auto simp: safe_def backed_up_def)
  moreover have "files s2 p = files s1 p" if "p \<in> set (swap_paths b)" for p
    by (rule rollback_frame [OF rb]) (use sep that in blast)
  then have "files s2 (sw_Live b) = files s1 (sw_Live b)" "files s2 (sw_Bak b) = files s1 (sw_Bak b)" by simp_all
  ultimately have "safe f0 (files s2) b" by (simp add: safe_def)
  moreover have "\<forall>c \<in> set bs. backed_up f0 (files s1) c"
    using Cons.prems(3) swap_step(3) [OF r _ swap_paths_mem(3) swap_paths_mem(2)] sep by simp
  ultimately show ?case
    using Cons.IH [of s1 n2] Cons.prems(2) rb s' by (simp add: paths_distinct_Cons)
qed simp

lemma recover_safe:
  assumes "rollback is s = (n, s')" and "bs = is @ cs" and "paths_distinct bs"
    and "\<forall>d \<in> set is. backed_up f0 (files s) d" and "\<forall>c \<in> set cs. safe f0 (files s) c"
  shows "\<forall>b \<in> set bs. safe f0 (files s') b"
proof -
  have d: "paths_distinct is" using assms(2,3) paths_distinct_append(1) by blast
  have "safe f0 (files s') c" if c: "c \<in> set cs" for c
  proof -
    have "files s' p = files s p" if "p \<in> set (swap_paths c)" for p
      by (rule rollback_frame [OF assms(1)]) (use paths_distinct_append(2) [of "is" cs] assms(2,3) c that in blast)
    then show ?thesis using assms(5) c by (simp add: safe_def)
  qed
  with rollback_safe [OF assms(1) d assms(4)] assms(2) show ?thesis by auto
qed

lemma no_binary_lost_facts:
  assumes "runSequence env cfg (now, s) = (res, now', s')" and "helper_ready cfg s" and "b \<in> set (hc_Binaries cfg)"
  shows "files s' (sw_Live b) = files s (sw_Live b) \<or> files s' (sw_Bak b) = files s (sw_Live b)"
proof -
  let ?bs = "hc_Binaries cfg"
  have dist: "paths_distinct ?bs" and live: "\<forall>b \<in> set ?bs. untouched (files s) (files s) b \<and> files s (sw_Live b) \<noteq> None"
    using assms(2) by (simp_all add: helper_ready_def untouched_def)
  obtain r s1 where i: "install_loop [] ?bs s = (r, s1)" by fastforce
  have none: "\<forall>d \<in> set []. backed_up (files s) (files s) d" by simp
  obtain cs where c: "?bs = to_restore r @ cs" "\<forall>d \<in> set (to_restore r). backed_up (files s) (files s1) d"
      "\<forall>c \<in> set cs. safe (files s) (files s1) c"
    using install_loop_safe [OF i _ none live] dist by auto
  have "s' = s \<or> s' = s1 \<or> s' = snd (rollback (to_restore r) s1)"
    using assms(1) i
    by (auto simp: runSequence_def recoverFailure_def Let_def split: install_result.splits prod.splits if_splits)
  moreover have "safe (files s) (files s) b" by (simp add: safe_def)
  moreover have "safe (files s) (files s1) b" using c assms(3) backed_up_safe by (metis Un_iff set_append)
  moreover have "safe (files s) (files (snd (rollback (to_restore r) s1))) b"
    using recover_safe [OF prod.collapse [symmetric] c(1) dist c(2,3)] assms(3) by blast
  ultimately show ?thesis by (auto simp: safe_def)
qed

text \<open>
  C20. Wherever the process dies or a call fails: the old contents of every live binary are
  afterwards still at its live path or in its backup file; no fault can lose the binary the
  appliance was running.
\<close>

theorem no_binary_lost:
  assumes "runSequence env cfg (now, s) = (res, now', s')" and "helper_ready cfg s" and "b \<in> set (hc_Binaries cfg)"
  shows "files s' (sw_Live b) = files s (sw_Live b) \<or> files s' (sw_Bak b) = files s (sw_Live b)"
  by (rule no_binary_lost_facts) (fact assms)+

theorem no_binary_lost_witness:
  "files (snd (snd (runSequence down_env demo_helper (0, demo_files\<lparr>fault_at := [1 \<mapsto> CrashBefore]\<rparr>)))) ''/b/wlcsim'' = Some ''OLD'' \<or>
   files (snd (snd (runSequence down_env demo_helper (0, demo_files\<lparr>fault_at := [1 \<mapsto> CrashBefore]\<rparr>)))) ''/b/bak'' = Some ''OLD''"
proof -
  let ?s = "demo_files\<lparr>fault_at := [1 \<mapsto> CrashBefore]\<rparr>"
  obtain res t s where r: "runSequence down_env demo_helper (0, ?s) = (res, t, s)" by (metis surj_pair)
  have "helper_ready demo_helper ?s" using demo_ready by (simp add: helper_ready_def)
  from no_binary_lost [OF r this, of demo_swap] r show ?thesis
    by (simp add: demo_helper_def demo_swap_def demo_files_def)
qed

section \<open>Time\<close>

lemma poll_stopped_time:
  assumes "poll_stopped get deadline now = (b, t)" and "\<And>x. fst (get x) \<le> D"
  shows "t \<le> max now (deadline + D + 1000) \<and> (b \<longrightarrow> (\<exists>x \<ge> now. x < deadline \<and> snd (get x) \<noteq> Some 200)) \<and> now \<le> t"
  using assms
proof (induction get deadline now arbitrary: b t rule: poll_stopped.induct)
  case (1 get deadline now)
  obtain d st where g: "get now = (d, st)" by fastforce
  have d: "d \<le> D" using "1.prems"(2) [of now] g by simp
  show ?case
  proof (cases "now < deadline \<and> st = Some 200")
    case True
    then have rec: "poll_stopped get deadline (now + d + 1000) = (b, t)"
      using "1.prems"(1) g by (simp add: poll_stopped.simps [of get deadline now])
    have "t \<le> max (now + d + 1000) (deadline + D + 1000) \<and>
        (b \<longrightarrow> (\<exists>x \<ge> now + d + 1000. x < deadline \<and> snd (get x) \<noteq> Some 200)) \<and> now + d + 1000 \<le> t"
      using "1.IH" [OF _ g [symmetric] _ _ rec "1.prems"(2), of 200] True by simp
    with True d show ?thesis by (auto intro: add_leD1 order_trans)
  next
    case False
    then show ?thesis
      using "1.prems"(1) g d by (auto simp: poll_stopped.simps [of get deadline now] split: if_splits option.splits)
  qed
qed

lemma poll_healthy_time:
  assumes "poll_healthy get deadline now = (b, t)" and "\<And>x. fst (get x) \<le> D"
  shows "t \<le> max now (deadline + D + 2000) \<and> (b \<longrightarrow> (\<exists>x \<ge> now. x < deadline \<and> snd (get x) = Some 200)) \<and> now \<le> t"
  using assms
proof (induction get deadline now arbitrary: b t rule: poll_healthy.induct)
  case (1 get deadline now)
  obtain d st where g: "get now = (d, st)" by fastforce
  have d: "d \<le> D" using "1.prems"(2) [of now] g by simp
  show ?case
  proof (cases "now < deadline \<and> st \<noteq> Some 200")
    case True
    then have rec: "poll_healthy get deadline (now + d + 2000) = (b, t)"
      using "1.prems"(1) g by (simp add: poll_healthy.simps [of get deadline now])
    have "t \<le> max (now + d + 2000) (deadline + D + 2000) \<and>
        (b \<longrightarrow> (\<exists>x \<ge> now + d + 2000. x < deadline \<and> snd (get x) = Some 200)) \<and> now + d + 2000 \<le> t"
      using "1.IH" [OF _ g [symmetric] _ rec "1.prems"(2)] True by simp
    with True d show ?thesis by (auto intro: add_leD1 order_trans)
  next
    case False
    then show ?thesis
      using "1.prems"(1) g d by (auto simp: poll_healthy.simps [of get deadline now] split: if_splits)
  qed
qed


lemma waitHealthy_time:
  assumes "waitHealthy env url secs now = (b, t)" and "\<And>x. fst (health env url x) \<le> D"
  shows "t \<le> now + timeout_ms secs + D + 2000 \<and> now \<le> t"
  using poll_healthy_time [OF assms(1) [unfolded waitHealthy_def] assms(2)] by simp

lemma waitStopped_time:
  assumes "waitStopped env url secs now = (b, t)" and "\<And>x. fst (health env url x) \<le> D"
  shows "t \<le> now + timeout_ms secs + D + 1000 \<and> now \<le> t"
  using poll_stopped_time [OF assms(1) [unfolded waitStopped_def] assms(2)] by simp

lemma runService_time:
  "(\<And>t. snd (service_cmd env svc a t) \<le> S) \<Longrightarrow> runService env svc a now \<le> now + S"
  by (simp add: runService_def)

lemma recoverFailure_time:
  assumes "recoverFailure env cfg bs why (now, s) = (res, now', s')"
    and "\<And>x. fst (health env (hc_HealthURL cfg) x) \<le> D" and "\<And>a t. snd (service_cmd env (hc_ServiceName cfg) a t) \<le> S"
  shows "now' \<le> now + 2 * S + timeout_ms (hc_HealthTimeout cfg) + D + 2000"
proof -
  let ?n1 = "runService env (hc_ServiceName cfg) ''stop'' now"
  let ?n2 = "runService env (hc_ServiceName cfg) ''start'' ?n1"
  obtain h n3 where h: "waitHealthy env (hc_HealthURL cfg) (hc_HealthTimeout cfg) ?n2 = (h, n3)" by fastforce
  have "now' = n3" using assms(1) h by (auto simp: recoverFailure_def Let_def split: prod.splits)
  moreover have "?n1 \<le> now + S" "?n2 \<le> ?n1 + S" using assms(3) by (rule runService_time)+
  ultimately show ?thesis using waitHealthy_time [OF h assms(2)] by linarith
qed



section \<open>The console process\<close>

definition is_console :: "int \<Rightarrow> string \<times> string option \<Rightarrow> int option" where
  \<comment> \<open>an entry of \<^verbatim>\<open>/proc\<close>, with the name of the process when it can be read\<close>
  "is_console self e =
     (case Atoi (fst e) of
        None \<Rightarrow> None
      | Some pid \<Rightarrow>
          (case snd e of
             None \<Rightarrow> None
           | Some comm \<Rightarrow> if pid = self \<or> TrimSpace comm \<noteq> ''wlcsim-console'' then None else Some pid))"

definition restartConsole :: "int \<Rightarrow> (string \<times> string option) list option \<Rightarrow> int list" where
  \<comment> \<open>the processes signalled, in order; None: the directory cannot be read\<close>
  "restartConsole self proc = (case proc of None \<Rightarrow> [] | Some es \<Rightarrow> List.map_filter (is_console self) es)"

lemma in_map_filter: "y \<in> set (List.map_filter f xs) \<longleftrightarrow> (\<exists>x \<in> set xs. f x = Some y)"
  by (induction xs) (auto simp: List.map_filter_simps split: option.splits)

lemma is_console_iff:
  "is_console self (name, c) = Some pid \<longleftrightarrow>
     Atoi name = Some pid \<and> pid \<noteq> self \<and> (\<exists>comm. c = Some comm \<and> TrimSpace comm = ''wlcsim-console'')"
  by (cases "Atoi name"; cases c) (auto simp: is_console_def)

lemma restartConsole_targets:
  "pid \<in> set (restartConsole self (Some es)) \<longleftrightarrow>
     pid \<noteq> self \<and> (\<exists>name comm. (name, Some comm) \<in> set es \<and> Atoi name = Some pid \<and> TrimSpace comm = ''wlcsim-console'')"
  by (simp only: restartConsole_def option.case in_map_filter Bex_def split_paired_Ex is_console_iff) blast

end
