(* ===== verification/ShellText.thy ===== *)
theory ShellText
  imports Device
begin

text \<open>
  The answers of the simulated command line (\<^verbatim>\<open>internal/sshsim/server.go\<close>,
  the \<^verbatim>\<open>show\<close> functions) as functions of the device. The iteration order of
  the Go maps two of them range over is an argument.
\<close>

section \<open>Formatting\<close>

definition lines_crlf :: "string list \<Rightarrow> string" where
  "lines_crlf ls = concat (map (\<lambda>l. l @ crlf) ls)"

definition radioTypeShort :: "string \<Rightarrow> string" where
  "radioTypeShort rt =
     (if rt = ''client-radio-type-11ax-5ghz'' then ''802.11ax - 5 GHz''
      else if rt = ''client-radio-type-11ax-24ghz'' then ''802.11ax - 2.4 GHz''
      else if rt = ''client-radio-type-11ac'' then ''802.11ac''
      else if rt = ''client-radio-type-11n-5ghz'' then ''802.11n - 5 GHz''
      else if rt = ''client-radio-type-11n-24ghz'' then ''802.11n - 2.4 GHz''
      else rt)"

definition ssh_default :: "string \<Rightarrow> string \<Rightarrow> string" where
  "ssh_default v def = (if v \<noteq> [] then v else def)"

fun columns :: "(nat \<times> string) list \<Rightarrow> string" where
  \<comment> \<open>a line of \<^verbatim>\<open>%-Ns\<close> columns separated by blanks\<close>
  "columns [] = []"
| "columns [(n, s)] = pad_right n s"
| "columns ((n, s) # c # cs) = pad_right n s @ '' '' @ columns (c # cs)"

section \<open>Fixed texts\<close>

definition showHelp :: "string" where
  "showHelp = lines_crlf [
    ''Available commands:'',
    ''  show version                          - Display system version'',
    ''  show wireless client summary           - Display wireless client summary'',
    ''  show wireless client mac-address <mac>  - Display client detail'',
    ''  show ip interface brief                - Display interface summary'',
    ''  show ap summary                        - Display AP summary'',
    ''  show wlan summary                      - Display WLAN summary'',
    ''  exit                                   - Close connection'']"

definition showVersion :: "device \<Rightarrow> string" where
  "showVersion d = lines_crlf [
    ''Cisco IOS XE Software, Version '' @ d_Version d,
    ''Cisco IOS Software [Dublin], C9800-CL Software ('' @ d_Model d @ ''), Version '' @ d_Version d,
    ''Copyright (c) 1986-2024 by Cisco Systems, Inc.'',
    [],
    ''ROM: IOS-XE ROMMON'',
    [],
    d_Hostname d @ '' uptime is 45 days, 3 hours, 22 minutes'',
    ''System returned to ROM by reload'',
    [],
    ''System image file is \"bootflash:packages.conf\"'',
    [],
    ''cisco '' @ d_Model d @ '' ('' @ d_Model d @ '') processor with 8388608K/6147K bytes of memory.'',
    ''Processor board ID '' @ d_Serial d,
    ''1 Virtual Ethernet interface'',
    itoa (int (length (d_APs d))) @ '' APs, '' @ itoa (int (length (device_clients d))) @ '' Clients'',
    [],
    ''Configuration register is 0x2102'']"

definition client_detail :: "client \<Rightarrow> ap \<Rightarrow> string" where
  "client_detail c a = lines_crlf [
    ''Client MAC Address: '' @ c_MAC c,
    ''  Client IPv4 Address:       '' @ c_IPv4 c,
    ''  Client Username:           '' @ c_Username c,
    ''  Hostname:                  '' @ c_Hostname c,
    ''  AP MAC Address:            '' @ ap_MAC a,
    ''  AP Name:                   '' @ ap_Name a,
    ''  SSID:                      '' @ c_SSID c,
    ''  WLAN Id:                   '' @ itoa (c_WLANId c),
    ''  Channel:                   '' @ itoa (c_Channel c),
    ''  Radio Type:                '' @ radioTypeShort (c_RadioType c),
    ''  Security:                  '' @ c_SecurityMode c @ '' / '' @ c_EncryptionType c,
    ''  Auth Method:               '' @ c_AuthKeyMgmt c,
    ''  RSSI:                      '' @ itoa (c_RSSI c) @ '' dBm'',
    ''  SNR:                       '' @ itoa (c_SNR c) @ '' dB'',
    ''  Speed:                     '' @ itoa (c_Speed c) @ '' Mbps'',
    ''  Spatial Streams:           '' @ itoa (c_SpatialStreams c),
    ''  VLAN:                      '' @ itoa (c_VLAN c) @ '' ('' @ c_VLANName c @ '')'',
    ''  Bytes Rx/Tx:               '' @ itoa (c_BytesRx c) @ '' / '' @ itoa (c_BytesTx c),
    ''  Packets Rx/Tx:             '' @ itoa (c_PktsRx c) @ '' / '' @ itoa (c_PktsTx c),
    ''  Policy Profile:            '' @ c_PolicyProfile c,
    ''  Device Type:               '' @ ssh_default (c_DeviceType c) ''Unknown'',
    ''  Device OS:                 '' @ ssh_default (c_DeviceOS c) ''Unknown'',
    ''  State:                     '' @ c_State c]"


definition showSNMP :: "device \<Rightarrow> string" where
  "showSNMP d = lines_crlf [
    ''Chassis: '' @ d_Serial d,
    ''Contact: admin@'' @ d_Hostname d @ ''.local'',
    ''Location: '' @ d_Hostname d,
    ''0'' @ '' SNMP packets input'',
    ''    0 Bad SNMP version errors'',
    ''    0 Unknown community name'',
    ''    0 Illegal operation for community name supplied'',
    ''    0 Encoding errors'',
    ''    0 Number of requested variables'',
    ''    0 Number of altered variables'',
    ''    0 Get-request PDUs'',
    ''    0 Get-next PDUs'',
    ''    0 Set-request PDUs'',
    ''    0 Input queue packet drops (Maximum queue size 1000)'',
    ''0'' @ '' SNMP packets output'',
    ''    0 Too big errors (Maximum packet size 1500)'',
    ''    0 No such name errors'',
    ''    0 Bad values errors'',
    ''    0 General errors'',
    ''    0 Response PDUs'',
    ''    0 Trap PDUs'',
    ''SNMP Dispatcher:'',
    ''    queue 0/75 (current/max), 0 dropped'',
    ''SNMP Engine:'',
    ''    drops 0'',
    ''SNMP logging: enabled'']"

definition showInventory :: "device \<Rightarrow> string" where
  "showInventory d = lines_crlf [
    ''NAME: \"Chassis\", DESCR: \"Cisco Catalyst 9800-CL Wireless Controller\"'',
    ''PID: '' @ d_Model d @ ''          , VID: V01  , SN: '' @ d_Serial d,
    [],
    ''NAME: \"module 0\", DESCR: \"Cisco Catalyst 9800-CL Wireless Controller\"'',
    ''PID: '' @ d_Model d @ ''          , VID:      , SN:            '',
    [],
    ''NAME: \"module R0\", DESCR: \"Cisco Catalyst 9800-CL Wireless Controller\"'',
    ''PID: '' @ d_Model d @ ''          , VID: V01  , SN: '' @ d_Serial d,
    [],
    ''NAME: \"module F0\", DESCR: \"Cisco Catalyst 9800-CL Wireless Controller\"'',
    ''PID: '' @ d_Model d @ ''          , VID:      , SN:            '']"

definition showDiag :: "device \<Rightarrow> string" where
  "showDiag d = lines_crlf [
    ''Chassis type: '' @ d_Model d,
    [],
    ''Slot 0:'',
    ''  Main CPU:'',
    ''    Hardware Revision     : 1.0'',
    ''    Board Revision        : 0'',
    ''    Part Number           : 73-19923-02'',
    ''    Board Serial Number   : '' @ d_Serial d,
    ''    Top Assy. Part Number : 68-6190-02'',
    ''    PID                   : '' @ d_Model d,
    ''    VID                   : V01'',
    ''    Processor type        : x86_64'',
    ''    CLEI Code             : N/A'']"

definition showInstallRunning :: "device \<Rightarrow> string" where
  "showInstallRunning d = lines_crlf [
    ''Type  Profile       State'',
    ''--------------------------------------------------------------'',
    ''IMG   default       Running'',
    [],
    ''Packages:'',
    ''  bootflash:packages.conf'',
    ''    Provisioning file: /bootflash/packages.conf'',
    ''    File: /bootflash/'' @ d_Model d @ ''.'' @ d_Version d @ ''.SPA.bin'',
    ''    Built: 2024-01-15_01.00'',
    ''    Package: rpboot, version: '' @ d_Version d,
    ''    Package: rpbase, version: '' @ d_Version d,
    ''    Package: srdriver, version: '' @ d_Version d]"

definition interfaces_text :: "device \<Rightarrow> string" where
  "interfaces_text d = lines_crlf [
    ''GigabitEthernet1 is up, line protocol is up'',
    ''  Hardware is CSR vNIC, address is 0200.0c9a.0001 (bia 0200.0c9a.0001)'',
    ''  Internet address is '' @ d_IP d @ ''/24'',
    ''  MTU 1500 bytes, BW 1000000 Kbit/sec, DLY 10 usec,'',
    ''     reliability 255/255, txload 1/255, rxload 1/255'',
    ''  Encapsulation ARPA, loopback not set'',
    ''  Keepalive set (10 sec)'',
    ''  Full Duplex, 1000Mbps, link type is auto, media type is Virtual'',
    ''  output flow-control is unsupported, input flow-control is unsupported'',
    ''  ARP type: ARPA, ARP Timeout 04:00:00'',
    ''  Last input 00:00:00, output 00:00:01, output hang never'',
    ''  Last clearing of \"show interface\" counters never'',
    ''  Input queue: 0/375/0/0 (size/max/drops/flushes); Total output drops: 0'',
    ''  Queueing strategy: fifo'',
    ''  Output queue: 0/40 (size/max)'',
    ''  5 minute input rate 1000 bits/sec, 1 packets/sec'',
    ''  5 minute output rate 1000 bits/sec, 1 packets/sec'',
    ''     12345 packets input, 1234567 bytes, 0 no buffer'',
    ''     Received 0 broadcasts (0 IP multicasts)'',
    ''     0 runts, 0 giants, 0 throttles'',
    ''     0 input errors, 0 CRC, 0 frame, 0 overrun, 0 ignored'',
    ''     0 watchdog, 0 multicast, 0 pause input'',
    ''     12345 packets output, 1234567 bytes, 0 underruns'',
    ''     0 output errors, 0 collisions, 0 interface resets'',
    ''     0 unknown protocol drops'',
    ''     0 babbles, 0 late collision, 0 deferred'',
    ''     0 lost carrier, 0 no carrier, 0 pause output'',
    ''     0 output buffer failures, 0 output buffers swapped out'',
    ''Loopback0 is up, line protocol is up'',
    ''  Hardware is Loopback'',
    ''  Internet address is '' @ d_IP d @ ''/32'',
    ''  MTU 1514 bytes, BW 8000000 Kbit/sec, DLY 5000 usec,'',
    ''     reliability 255/255, txload 1/255, rxload 1/255'',
    ''  Encapsulation LOOPBACK, loopback not set'',
    ''  Last input never, output never, output hang never'',
    ''  Last clearing of \"show interface\" counters never'']"

definition showVRF :: "string" where
  "showVRF = lines_crlf [
    ''  Name                             Default RD            Protocols   Interfaces'']"

definition showVTPStatus :: "device \<Rightarrow> string" where
  "showVTPStatus d = lines_crlf [
    ''VTP Version capable             : 1 to 3'',
    ''VTP version running             : 1'',
    ''VTP Domain Name                 : '',
    ''VTP Pruning Mode                : Disabled'',
    ''VTP Traps Generation            : Disabled'',
    ''Device ID                       : '' @ d_Serial d,
    ''Configuration last modified by '' @ d_IP d @ '' at 0-0-00 00:00:00'',
    ''Local updater ID is '' @ d_IP d @ '' on interface Gi1 (lowest numbered VLAN interface found)'',
    [],
    ''Feature VLAN:'',
    ''-----------'',
    ''VTP Operating Mode                : Transparent'',
    ''Maximum VLANs supported locally   : 1005'',
    ''Number of existing VLANs          : 7'',
    ''Configuration Revision            : 0'',
    ''MD5 digest                        : 0x00 0x00 0x00 0x00 0x00 0x00 0x00 0x00'']"

definition directory_text :: "string" where
  "directory_text = lines_crlf [
    ''Directory of bootflash:/'',
    [],
    ''  11  -rw-       4096  Jan 15 2024 01:00:00 +00:00  packages.conf'',
    ''  12  -rw-   83886080  Jan 15 2024 01:00:00 +00:00  C9800-CL-K9.bin'',
    [],
    ''2097152000 bytes total (1900000000 bytes free)'']"

section \<open>Tables\<close>

definition client_row :: "client_with_ap \<Rightarrow> string" where
  "client_row w =
     (let c = cwa_Client w;
          state = (if c_State c \<noteq> ''co-client-run'' then c_State c else ''Run'')
      in columns [(20, c_MAC c), (16, ap_Name (cwa_AP w)), (8, itoa (c_WLANId c)), (6, state),
           (20, radioTypeShort (c_RadioType c)), (18, c_AuthKeyMgmt c), (6, itoa (c_RSSI c))])"

definition showWirelessClientSummary :: "device \<Rightarrow> string" where
  "showWirelessClientSummary d =
     lines_crlf ([''Number of Clients: '' @ itoa (int (length (AllClients d))), [],
       columns [(20, ''MAC Address''), (16, ''AP Name''), (8, ''WLAN''), (6, ''State''), (20, ''Protocol''),
         (18, ''Method''), (6, ''RSSI'')],
       replicate 100 (CHR ''-'')] @ map client_row (AllClients d))"

definition showWirelessClientDetail :: "device \<Rightarrow> string \<Rightarrow> string" where
  "showWirelessClientDetail d mac0 =
     (let mac = ToLower mac0
      in case find (\<lambda>w. ToLower (c_MAC (cwa_Client w)) = mac) (AllClients d) of
           Some w \<Rightarrow> client_detail (cwa_Client w) (cwa_AP w)
         | None \<Rightarrow> lines_crlf [''% Client '' @ mac @ '' not found.''])"

definition showIPInterfaceBrief :: "device \<Rightarrow> string" where
  "showIPInterfaceBrief d =
     (let row = (\<lambda>a b c e f g. columns [(24, a), (16, b), (8, c), (22, e), (10, f), (8, g)])
      in lines_crlf [
           row ''Interface'' ''IP-Address'' ''OK?'' ''Method'' ''Status'' ''Protocol'',
           row ''GigabitEthernet1'' (d_IP d) ''YES'' ''manual'' ''up'' ''up'',
           row ''Loopback0'' (d_IP d) ''YES'' ''manual'' ''up'' ''up''])"

definition ap_row :: "ap \<Rightarrow> string" where
  "ap_row a =
     columns [(20, ap_Name a), (8, ''2''), (18, if ap_Model a = [] then ''C9120AXI-B'' else ap_Model a),
       (16, ap_MAC a), (8, itoa (int (length (ap_Clients a))))]"

definition showAPSummary :: "device \<Rightarrow> string" where
  "showAPSummary d =
     lines_crlf ([''Number of APs: '' @ itoa (int (length (d_APs d))), [],
       columns [(20, ''AP Name''), (8, ''Slots''), (18, ''AP Model''), (16, ''Ethernet MAC''), (8, ''Clients'')],
       replicate 75 (CHR ''-'')] @ map ap_row (d_APs d))"

fun count_ssid :: "client \<Rightarrow> (string \<times> int) list \<Rightarrow> (string \<times> int) list" where
  "count_ssid c m = upsert (c_SSID c) ((case map_of m (c_SSID c) of None \<Rightarrow> 0 | Some n \<Rightarrow> n) + 1) m"

definition ssid_counts :: "device \<Rightarrow> (string \<times> int) list" where
  "ssid_counts d = fold count_ssid (device_clients d) []"

fun wlan_rows :: "int \<Rightarrow> (string \<times> int) list \<Rightarrow> string list" where
  "wlan_rows i [] = []"
| "wlan_rows i ((ssid, n) # m) =
     columns [(6, itoa i), (32, ssid), (10, ''Enabled''), (10, itoa n)] # wlan_rows (i + 1) m"

definition showWLANSummary :: "((string \<times> int) list \<Rightarrow> (string \<times> int) list) \<Rightarrow> device \<Rightarrow> string" where
  "showWLANSummary iter d =
     (let m = ssid_counts d
      in lines_crlf ([''Number of WLANs: '' @ itoa (int (length m)), [],
           columns [(6, ''ID''), (32, ''Profile Name/SSID''), (10, ''Status''), (10, ''Clients'')],
           replicate 62 (CHR ''-'')] @ wlan_rows 1 (iter m)))"

definition vlan_row :: "int \<times> string \<Rightarrow> string" where
  "vlan_row kv = columns [(4, itoa (fst kv)), (32, snd kv), (9, ''active'')] @ '' ''"

definition showVLAN :: "((int \<times> string) list \<Rightarrow> (int \<times> string) list) \<Rightarrow> device \<Rightarrow> string" where
  "showVLAN iter d =
     lines_crlf ([
       ''VLAN Name                             Status    Ports'',
       ''---- -------------------------------- --------- -------------------------------'',
       ''1    default                          active    ''] @
       map vlan_row (iter (fold collect_vlan (device_clients d) [])) @ [
       ''1002 fddi-default                     act/unsup '',
       ''1003 trcrf-default                    act/unsup '',
       ''1004 fddinet-default                  act/unsup '',
       ''1005 trbrf-default                    act/unsup ''])"

section \<open>Configuration, interfaces, directory\<close>

definition showRunningConfig :: "render_env \<Rightarrow> device \<Rightarrow> string \<times> device" where
  "showRunningConfig env d =
     (let (raw, d1) = RunningConfig env d
      in (lines_crlf [''Building configuration...'', [],
            ''Current configuration : '' @ itoa (int (length raw)) @ '' bytes''] @ ReplaceAll_nl raw, d1))"

definition showStartupConfig :: "render_env \<Rightarrow> device \<Rightarrow> string \<times> device" where
  "showStartupConfig env d =
     (let (raw, d1) = StartupConfig env d
      in (lines_crlf [''Using '' @ itoa (int (length raw)) @ '' out of 2097152 bytes''] @ ReplaceAll_nl raw, d1))"

definition showInterfaces :: "device \<Rightarrow> panic + string" where
  \<comment> \<open>the first four bytes of the address are indexed before anything is known about it\<close>
  "showInterfaces d = (if length (d_IP d) < 4 then Inl IndexOutOfRange else Inr (interfaces_text d))"

definition showClock :: "string \<Rightarrow> string" where
  "showClock now = now @ crlf"

definition showNTP :: string where
  "showNTP = lines_crlf [''NTP is not enabled.'']"

definition showDir :: "string list \<Rightarrow> string" where
  "showDir parts =
     (case parts of
        _ # file # _ \<Rightarrow> lines_crlf [''% Error opening '' @ file @ '' (No such file or directory)'']
      | _ \<Rightarrow> directory_text)"

end
