(* ===== verification/Shell.thy ===== *)
theory Shell
  imports ShellText
begin

text \<open>
  The SSH front end of a device (\<^verbatim>\<open>internal/sshsim/server.go\<close>): command matching and
  dispatch, the interactive shell with its line editing, the dialogs of \<^verbatim>\<open>copy\<close>, exec
  requests with the SCP download, and the virtual file system behind SFTP. A channel's
  input is the list of chunks that successive reads find; what the code writes, logs and
  asks of other services is a trace of events in order.
\<close>

section \<open>Channels and events\<close>

datatype shell_event =
    Out string
  | LogCmd string
  | EnsureTFTP
  | PushTFTP (push_addr: string) (push_name: string) (push_content: string)

record shell_env =
  sh_render :: render_env
  sh_iter_ssids :: "(string \<times> int) list \<Rightarrow> (string \<times> int) list"
  sh_iter_vlans :: "(int \<times> string) list \<Rightarrow> (int \<times> string) list"
  sh_now :: string

definition chan_read :: "nat \<Rightarrow> string list \<Rightarrow> (string \<times> string list) option" where
  \<comment> \<open>\<^verbatim>\<open>channel.Read\<close> into a buffer of \<open>k\<close> bytes; None is an error or the end of the input\<close>
  "chan_read k ch =
     (case ch of
        [] \<Rightarrow> None
      | c # cs \<Rightarrow> Some (take k c, if length c \<le> k then cs else drop k c # cs))"

definition chan_size :: "string list \<Rightarrow> nat" where
  "chan_size ch = sum_list (map (\<lambda>c. Suc (length c)) ch)"

lemma chan_read_size: "chan_read k ch = Some (b, ch') \<Longrightarrow> k > 0 \<Longrightarrow> chan_size ch' < chan_size ch"
  by (cases ch) (auto simp: chan_read_def chan_size_def split: if_splits)

definition is_eol :: "char \<Rightarrow> bool" where
  "is_eol c \<longleftrightarrow> c = CHR 0x0D \<or> c = CHR 0x0A"

definition is_erase :: "char \<Rightarrow> bool" where
  "is_erase c \<longleftrightarrow> c = CHR 0x7F \<or> c = CHR 0x08"

definition rubout :: string where
  "rubout = [CHR 0x08, CHR '' '', CHR 0x08]"

section \<open>Commands\<close>

definition matchCmd :: "string list \<Rightarrow> string list \<Rightarrow> bool" where
  "matchCmd parts expected \<longleftrightarrow>
     length expected \<le> length parts \<and>
     list_all (\<lambda>(p, e). HasPrefix e (ToLower p)) (zip parts expected)"

definition strip_admin :: "string \<Rightarrow> string list \<Rightarrow> string \<times> string list" where
  "strip_admin cmd parts =
     (if length parts > 1 \<and> ToLower (hd parts) = ''admin''
      then (str_join (tl parts) '' '', tl parts) else (cmd, parts))"

definition dispatch :: "shell_env \<Rightarrow> device \<Rightarrow> string \<Rightarrow> string list \<Rightarrow> panic + (string \<times> device)" where
  "dispatch env d cmd parts =
     (let m = matchCmd parts; ok = (\<lambda>s. Inr (s, d))
      in if m [''show'', ''version''] then ok (showVersion d)
         else if m [''show'', ''wireless'', ''client'', ''summary''] then ok (showWirelessClientSummary d)
         else if m [''show'', ''wireless'', ''client'', ''mac-address''] \<and> length parts \<ge> 5
              then ok (showWirelessClientDetail d (parts ! 4))
         else if m [''show'', ''ip'', ''interface'', ''brief''] then ok (showIPInterfaceBrief d)
         else if m [''show'', ''ap'', ''summary''] then ok (showAPSummary d)
         else if m [''show'', ''wlan'', ''summary''] then ok (showWLANSummary (sh_iter_ssids env) d)
         else if m [''show'', ''running-config''] then Inr (showRunningConfig (sh_render env) d)
         else if m [''show'', ''startup-config''] then Inr (showStartupConfig (sh_render env) d)
         else if m [''show'', ''sdwan'', ''running-config''] then Inr (showRunningConfig (sh_render env) d)
         else if m [''show'', ''snmp''] then ok (showSNMP d)
         else if m [''show'', ''inventory''] then ok (showInventory d)
         else if m [''show'', ''diagbus''] then ok (showDiag d)
         else if m [''show'', ''diag''] then ok (showDiag d)
         else if m [''show'', ''install'', ''running''] then ok (showInstallRunning d)
         else if m [''show'', ''interfaces''] then on_ok ok (showInterfaces d)
         else if m [''show'', ''ip'', ''ospf'', ''interface''] then ok []
         else if m [''show'', ''standby''] then ok []
         else if m [''show'', ''vrrp''] then ok []
         else if m [''show'', ''glbp''] then ok []
         else if m [''show'', ''vrf''] then ok showVRF
         else if m [''show'', ''vlan''] then ok (showVLAN (sh_iter_vlans env) d)
         else if m [''show'', ''vtp'', ''status''] then ok (showVTPStatus d)
         else if m [''show'', ''clock''] then ok (showClock (sh_now env))
         else if m [''show'', ''ntp''] then ok showNTP
         else if m [''dir''] then ok (showDir parts)
         else if hd parts = ''enable'' then ok []
         else if m [''terminal'', ''length''] then ok []
         else if m [''terminal'', ''width''] then ok []
         else if m [''copy''] then ok (''!!'' @ crlf)
         else if m [''configure'', ''terminal''] then ok []
         else if hd parts = ''end'' then ok []
         else if hd parts = ''?'' \<or> cmd = ''help'' then ok showHelp
         else ok (''% Invalid input detected at '' @ [CHR 0x27, CHR 0x5E, CHR 0x27] @ '' marker.'' @ crlf))"

definition executeCommand :: "shell_env \<Rightarrow> string \<Rightarrow> device \<Rightarrow> panic + (string \<times> device)" where
  "executeCommand env cmd0 d =
     (let cmd = TrimSpace cmd0; parts = Fields cmd
      in if parts = [] then Inr ([], d)
         else let (cmd', parts') = strip_admin cmd parts in dispatch env d cmd' parts')"

section \<open>The copy dialogs\<close>

function readLine :: "string \<Rightarrow> string list \<Rightarrow> string \<times> shell_event list \<times> string list" where
  "readLine line ch =
     (case chan_read 1 ch of
        None \<Rightarrow> (line, [], ch)
      | Some (b, ch') \<Rightarrow>
          (case b of
             [] \<Rightarrow> (line, [], ch')
           | c # _ \<Rightarrow>
               if is_eol c then (TrimSpace line, [Out crlf], ch')
               else if is_erase c then
                 (if line \<noteq> [] then
                    let (r, ev, ch'') = readLine (butlast line) ch' in (r, Out rubout # ev, ch'')
                  else readLine line ch')
               else let (r, ev, ch'') = readLine (line @ [c]) ch' in (r, Out [c] # ev, ch'')))"
  by pat_completeness auto
termination
  by (relation "measure (\<lambda>(line, ch). chan_size ch)") (auto dest: chan_read_size)

declare readLine.simps [simp del]

definition readLinePrompt :: "string \<Rightarrow> string list \<Rightarrow> string \<times> shell_event list \<times> string list" where
  "readLinePrompt prompt ch = (let (r, ev, ch') = readLine [] ch in (r, Out prompt # ev, ch'))"

definition pushTFTP :: "string \<Rightarrow> string \<Rightarrow> string \<Rightarrow> shell_event list" where
  "pushTFTP host filename config =
     (if host = [] then []
      else [PushTFTP (if Contains host '':'' then host else host @ '':69'') filename config])"

definition copied :: "string \<Rightarrow> string \<Rightarrow> int \<Rightarrow> string" where
  "copied config secs k =
     lines_crlf [''!!'', itoa (int (length config)) @ '' bytes copied in '' @ secs @ '' secs ('' @
       itoa (int (length config) * k) @ '' bytes/sec)'']"

definition copy_url ::
  "string \<Rightarrow> string \<Rightarrow> string \<Rightarrow> string list \<Rightarrow> shell_event list \<times> string list" where
  "copy_url source config p ch =
     (let u = TrimPrefix p ''tftp://'';
          (ev, ch') =
            (case str_index u ''/'' of
               Some slash \<Rightarrow>
                 if slash > 0 then
                   let host = take slash u; filename = drop (slash + 1) u;
                       (r, ev, ch') = readLinePrompt (''Destination filename ['' @ filename @ '']? '') ch;
                       resp = (if r = [] then filename else r)
                   in (ev @ [LogCmd (''tftp-push '' @ source @ '' -> '' @ host @ '':'' @ resp)] @
                         pushTFTP host resp config, ch')
                 else ([], ch)
             | None \<Rightarrow> ([], ch))
      in (EnsureTFTP # ev @ [Out (copied config ''0.5'' 2)], ch'))"

definition ask_target :: "string \<Rightarrow> string list \<Rightarrow> string \<times> string \<times> shell_event list \<times> string list" where
  "ask_target hostname ch =
     (let (host, ev1, ch1) = readLinePrompt ''Address or name of remote host []? '' ch;
          defName = ToLower hostname @ ''-confg'';
          (r, ev2, ch2) = readLinePrompt (''Destination filename ['' @ defName @ '']? '') ch1
      in (host, if r = [] then defName else r, ev1 @ ev2, ch2))"

definition handleInteractiveCopy ::
  "shell_env \<Rightarrow> string \<Rightarrow> device \<Rightarrow> string list \<Rightarrow> bool \<times> shell_event list \<times> string list \<times> device" where
  "handleInteractiveCopy env cmd d ch =
     (let parts = Fields cmd
      in if length parts < 2 \<or> \<not> matchCmd parts [''copy''] then (False, [], ch, d)
         else
           let (config, d1) = RunningConfig (sh_render env) d;
               source = parts ! 1
           in case find (\<lambda>p. HasPrefix p ''tftp://'') (tl parts) of
                Some p \<Rightarrow> let (ev, ch') = copy_url source config p ch in (True, ev, ch', d1)
              | None \<Rightarrow>
                  if length parts \<ge> 3 \<and> ToLower (parts ! 2) = ''tftp'' then
                    let (host, filename, ev, ch') = ask_target (d_Hostname d1) ch
                    in (True, EnsureTFTP # ev @
                          [LogCmd (''tftp-push '' @ source @ '' -> '' @ host @ '':'' @ filename)] @
                          pushTFTP host filename config @ [Out (copied config ''0.5'' 2)], ch', d1)
                  else if length parts \<ge> 3 \<and> ToLower (parts ! 2) = ''scp'' then
                    let (host, filename, ev, ch') = ask_target (d_Hostname d1) ch
                    in (True, ev @
                          [LogCmd (''scp-push '' @ source @ '' -> '' @ host @ '':'' @ filename),
                           Out (copied config ''0.3'' 3)], ch', d1)
                  else (False, [], ch, d1))"

section \<open>The shell\<close>

record session =
  s_line :: string
  s_trace :: "shell_event list"
  s_in :: "string list"
  s_dev :: device

type_synonym world = "shell_event list \<Rightarrow> shell_env"

definition emit :: "shell_event list \<Rightarrow> session \<Rightarrow> session" where
  "emit ev s = s\<lparr>s_trace := s_trace s @ ev\<rparr>"

definition run_command :: "world \<Rightarrow> string \<Rightarrow> session \<Rightarrow> panic + session" where
  \<comment> \<open>the body under \<^verbatim>\<open>if cmd != ""\<close>; the world answers by what has happened so far\<close>
  "run_command w cmd s0 =
     (let s = emit [LogCmd cmd] s0; env = w (s_trace s);
          (handled, ev, ch, d) = handleInteractiveCopy env cmd (s_dev s) (s_in s);
          s1 = (emit ev s)\<lparr>s_in := ch, s_dev := d\<rparr>
      in if handled then Inr s1
         else on_ok (\<lambda>(output, d'). Inr ((emit [Out output] s1)\<lparr>s_dev := d'\<rparr>))
                (executeCommand env cmd d))"

definition enter_line :: "world \<Rightarrow> string \<Rightarrow> session \<Rightarrow> panic + (bool \<times> session)" where
  \<comment> \<open>the case of a line end; False is the return from the shell\<close>
  "enter_line w prompt s0 =
     (let s = emit [Out crlf] s0; cmd = TrimSpace (s_line s)
      in if cmd = ''exit'' \<or> cmd = ''quit'' \<or> cmd = ''logout''
         then Inr (False, emit [Out (''Connection closed.'' @ crlf)] s)
         else on_ok (\<lambda>s'. Inr (True, emit [Out prompt] (s'\<lparr>s_line := []\<rparr>)))
                (if cmd \<noteq> [] then run_command w cmd s else Inr s))"

definition shell_byte :: "world \<Rightarrow> string \<Rightarrow> char \<Rightarrow> session \<Rightarrow> panic + (bool \<times> session)" where
  "shell_byte w prompt c s =
     (if is_eol c then enter_line w prompt s
      else if is_erase c then
        (if s_line s \<noteq> [] then Inr (True, emit [Out rubout] (s\<lparr>s_line := butlast (s_line s)\<rparr>))
         else Inr (True, s))
      else if c = CHR 0x03 then Inr (True, emit [Out (''^C'' @ crlf @ prompt)] (s\<lparr>s_line := []\<rparr>))
      else Inr (True, emit [Out [c]] (s\<lparr>s_line := s_line s @ [c]\<rparr>)))"

fun shell_bytes :: "world \<Rightarrow> string \<Rightarrow> string \<Rightarrow> session \<Rightarrow> panic + (bool \<times> session)" where
  "shell_bytes w prompt [] s = Inr (True, s)"
| "shell_bytes w prompt (c # cs) s =
     on_ok (\<lambda>(go, s'). if go then shell_bytes w prompt cs s' else Inr (False, s')) (shell_byte w prompt c s)"

subsection \<open>The dialogs consume input\<close>

lemma readLine_size: "readLine line ch = (r, ev, ch') \<Longrightarrow> chan_size ch' \<le> chan_size ch"
proof (induction line ch arbitrary: r ev ch' rule: readLine.induct)
  case (1 line ch)
  show ?case
  proof (cases "chan_read 1 ch")
    case None
    with 1(4) show ?thesis by (subst (asm) readLine.simps) simp
  next
    case (Some bc)
    obtain b ch1 where bc: "bc = (b, ch1)" by force
    with Some have lt: "chan_size ch1 < chan_size ch" by (auto dest: chan_read_size)
    note IH = 1(1-3) [OF Some bc [symmetric]]
    show ?thesis
    proof (cases b)
      case Nil
      with 1(4) Some bc lt show ?thesis by (subst (asm) readLine.simps) simp
    next
      case (Cons c cs)
      note IH' = IH [OF Cons]
      consider (eol) "is_eol c" | (rub) "\<not> is_eol c" "is_erase c" "line \<noteq> []"
        | (skip) "\<not> is_eol c" "is_erase c" "line = []" | (char) "\<not> is_eol c" "\<not> is_erase c" by blast
      then show ?thesis
        using 1(4) Some bc lt Cons IH'
        by cases (subst (asm) readLine.simps; fastforce split: prod.splits)+
    qed
  qed
qed

lemma readLinePrompt_size: "readLinePrompt p ch = (r, ev, ch') \<Longrightarrow> chan_size ch' \<le> chan_size ch"
  by (auto simp: readLinePrompt_def split: prod.splits dest: readLine_size)

lemma ask_target_size: "ask_target h ch = (x, y, ev, ch') \<Longrightarrow> chan_size ch' \<le> chan_size ch"
  by (fastforce simp: ask_target_def Let_def split: prod.splits dest: readLinePrompt_size)

lemma copy_url_size: "copy_url src conf p ch = (ev, ch') \<Longrightarrow> chan_size ch' \<le> chan_size ch"
  by (auto simp: copy_url_def Let_def split: prod.splits option.splits if_splits dest: readLinePrompt_size)

lemma handleInteractiveCopy_size:
  "handleInteractiveCopy env cmd d ch = (h, ev, ch', d') \<Longrightarrow> chan_size ch' \<le> chan_size ch"
  by (auto simp: handleInteractiveCopy_def Let_def split: prod.splits option.splits if_splits
      dest: copy_url_size ask_target_size)

lemma on_ok_elim:
  assumes "on_ok f r = Inr y" obtains x where "r = Inr x" "f x = Inr y"
  using assms by (auto simp: on_ok_Inr_iff)

lemma run_command_size: "run_command w cmd s = Inr s' \<Longrightarrow> chan_size (s_in s') \<le> chan_size (s_in s)"
  by (auto simp: run_command_def Let_def emit_def split: prod.splits if_splits
      elim!: on_ok_elim dest: handleInteractiveCopy_size)

lemma shell_byte_size: "shell_byte w prompt c s = Inr (go, s') \<Longrightarrow> chan_size (s_in s') \<le> chan_size (s_in s)"
  by (auto simp: shell_byte_def enter_line_def Let_def emit_def split: if_splits
      elim!: on_ok_elim dest: run_command_size)

lemma shell_bytes_size: "shell_bytes w prompt cs s = Inr (go, s') \<Longrightarrow> chan_size (s_in s') \<le> chan_size (s_in s)"
proof (induction cs arbitrary: s)
  case (Cons c cs)
  from Cons.prems obtain g t where t: "shell_byte w prompt c s = Inr (g, t)"
    and r: "(if g then shell_bytes w prompt cs t else Inr (False, t)) = Inr (go, s')"
    by (auto elim!: on_ok_elim)
  from r Cons.IH [of t] have "chan_size (s_in s') \<le> chan_size (s_in t)" by (cases g) auto
  with shell_byte_size [OF t] show ?case by simp
qed simp

function shell_loop :: "world \<Rightarrow> string \<Rightarrow> session \<Rightarrow> panic + session" where
  "shell_loop w prompt s =
     (case chan_read 1024 (s_in s) of
        None \<Rightarrow> Inr s
      | Some (b, ch) \<Rightarrow>
          (case shell_bytes w prompt b (s\<lparr>s_in := ch\<rparr>) of
             Inl p \<Rightarrow> Inl p
           | Inr (go, s') \<Rightarrow> if go then shell_loop w prompt s' else Inr s'))"
  by pat_completeness auto
termination
proof (relation "measure (\<lambda>(w, prompt, s). chan_size (s_in s))", goal_cases)
  case (2 w prompt s x b ch y go s')
  then have "chan_size ch < chan_size (s_in s)"
    by (auto dest: chan_read_size)
  moreover have "chan_size (s_in s') \<le> chan_size ch"
    using 2 shell_bytes_size [of w prompt b "s\<lparr>s_in := ch\<rparr>" go s'] by simp
  ultimately show ?case by simp
qed simp

declare shell_loop.simps [simp del]

definition shell_prompt :: "device \<Rightarrow> string" where
  "shell_prompt d = d_Hostname d @ ''#''"

definition runShell :: "world \<Rightarrow> device \<Rightarrow> string list \<Rightarrow> panic + session" where
  "runShell w d ch =
     shell_loop w (shell_prompt d)
       \<lparr>s_line = [], s_trace = [Out (crlf @ shell_prompt d)], s_in = ch, s_dev = d\<rparr>"

section \<open>What a session executes\<close>

definition leaves_shell :: "string \<Rightarrow> bool" where
  "leaves_shell cmd \<longleftrightarrow> cmd = ''exit'' \<or> cmd = ''quit'' \<or> cmd = ''logout''"

fun typed_commands :: "string \<Rightarrow> string \<Rightarrow> string list" where
  \<comment> \<open>the specification of the line editor: the commands a stream of bytes enters\<close>
  "typed_commands l [] = []"
| "typed_commands l (c # cs) =
     (if is_eol c then
        let cmd = TrimSpace l
        in if leaves_shell cmd then []
           else (if cmd \<noteq> [] then [cmd] else []) @ typed_commands [] cs
      else if is_erase c then typed_commands (butlast l) cs
      else if c = CHR 0x03 then typed_commands [] cs
      else typed_commands (l @ [c]) cs)"

definition opens_dialog :: "string \<Rightarrow> bool" where
  "opens_dialog cmd \<longleftrightarrow>
     (let parts = Fields cmd
      in length parts \<ge> 2 \<and> matchCmd parts [''copy''] \<and>
         (list_ex (\<lambda>p. HasPrefix p ''tftp://'') (tl parts) \<or>
          length parts \<ge> 3 \<and> ToLower (parts ! 2) \<in> {''tftp'', ''scp''}))"

fun logged :: "shell_event list \<Rightarrow> string list" where
  "logged [] = []"
| "logged (LogCmd c # ev) = c # logged ev"
| "logged (_ # ev) = logged ev"

lemma logged_append [simp]: "logged (a @ b) = logged a @ logged b"
  by (induction a rule: logged.induct) auto

definition clear_in :: "session \<Rightarrow> session" where
  "clear_in s = s\<lparr>s_in := []\<rparr>"

lemma clear_in_idem [simp]: "clear_in (clear_in s) = clear_in s"
  by (simp add: clear_in_def)

lemma clear_in_eqD: "clear_in s = clear_in t \<Longrightarrow> s_trace s = s_trace t \<and> s_dev s = s_dev t"
  unfolding clear_in_def by (metis session.select_convs(2,4) session.surjective session.update_convs(3))

lemma matchCmd_simps [simp]:
  "matchCmd ps []" "\<not> matchCmd [] (e # es)"
  "matchCmd (p # ps) (e # es) \<longleftrightarrow> HasPrefix e (ToLower p) \<and> matchCmd ps es"
  by (auto simp: matchCmd_def)

lemma no_dialog:
  assumes "\<not> opens_dialog cmd"
  shows "\<exists>f. \<forall>ch. handleInteractiveCopy env cmd d ch = (False, [], ch, f)"
proof (cases "length (Fields cmd) < 2 \<or> \<not> matchCmd (Fields cmd) [''copy'']")
  case True
  then show ?thesis by (intro exI [of _ d]) (auto simp: handleInteractiveCopy_def Let_def)
next
  case False
  with assms have none: "find (\<lambda>p. HasPrefix p ''tftp://'') (tl (Fields cmd)) = None"
    by (simp add: opens_dialog_def Let_def find_None_list_ex)
  from False assms have "\<not> (length (Fields cmd) \<ge> 3 \<and> ToLower (Fields cmd ! 2) = ''tftp'')"
    "\<not> (length (Fields cmd) \<ge> 3 \<and> ToLower (Fields cmd ! 2) = ''scp'')"
    by (auto simp: opens_dialog_def Let_def)
  then show ?thesis
    using False none
    by (intro exI [of _ "snd (RunningConfig (sh_render env) d)"])
      (auto simp: handleInteractiveCopy_def Let_def split: prod.splits)
qed

lemma run_command_frame:
  assumes "\<not> opens_dialog cmd"
  shows "run_command w cmd (s\<lparr>s_in := ch\<rparr>) = map_sum id (\<lambda>t. t\<lparr>s_in := ch\<rparr>) (run_command w cmd s)"
    and "run_command w cmd s = Inr s' \<Longrightarrow> logged (s_trace s') = logged (s_trace s) @ [cmd] \<and> s_in s' = s_in s"
proof -
  let ?env = "w (s_trace s @ [LogCmd cmd])"
  obtain f where f: "\<And>ch. handleInteractiveCopy ?env cmd (s_dev s) ch = (False, [], ch, f)"
    using no_dialog [OF assms] by blast
  show "run_command w cmd (s\<lparr>s_in := ch\<rparr>) = map_sum id (\<lambda>t. t\<lparr>s_in := ch\<rparr>) (run_command w cmd s)"
    using f by (cases "executeCommand ?env cmd f") (auto simp: run_command_def emit_def Let_def)
  show "run_command w cmd s = Inr s' \<Longrightarrow> logged (s_trace s') = logged (s_trace s) @ [cmd] \<and> s_in s' = s_in s"
    using f by (auto simp: run_command_def emit_def Let_def elim!: on_ok_elim)
qed

lemma emit_simps [simp]:
  "emit ev (s\<lparr>s_in := ch\<rparr>) = (emit ev s)\<lparr>s_in := ch\<rparr>"
  "s_line (emit ev s) = s_line s" "s_in (emit ev s) = s_in s" "s_dev (emit ev s) = s_dev s"
  "s_trace (emit ev s) = s_trace s @ ev"
  by (simp_all add: emit_def)

lemma shell_byte_frame:
  assumes "list_all (\<lambda>c. \<not> opens_dialog c) (typed_commands (s_line s) [c])"
  shows "shell_byte w p c (s\<lparr>s_in := ch\<rparr>) =
     map_sum id (map_prod id (\<lambda>t. t\<lparr>s_in := ch\<rparr>)) (shell_byte w p c s)"
proof (cases "is_eol c \<and> \<not> leaves_shell (TrimSpace (s_line s)) \<and> TrimSpace (s_line s) \<noteq> []")
  case True
  let ?cmd = "TrimSpace (s_line s)"
  have "\<not> opens_dialog ?cmd" using True assms by (simp add: Let_def)
  note f = run_command_frame(1) [OF this, where w = w and s = "emit [Out crlf] s" and ch = ch]
  show ?thesis
    using True f
    by (cases "run_command w ?cmd (emit [Out crlf] s)")
      (auto simp: shell_byte_def enter_line_def Let_def leaves_shell_def emit_def [of "[Out p]"])
next
  case False
  then show ?thesis
    by (auto simp: shell_byte_def enter_line_def Let_def emit_def leaves_shell_def)
qed

lemma shell_byte_commands:
  assumes "list_all (\<lambda>c. \<not> opens_dialog c) (typed_commands (s_line s) [c])"
    and "shell_byte w p c s = Inr (go, s')"
  shows "logged (s_trace s') = logged (s_trace s) @ typed_commands (s_line s) [c]"
    and "s_in s' = s_in s"
    and "go \<Longrightarrow> typed_commands (s_line s) (c # cs) = typed_commands (s_line s) [c] @ typed_commands (s_line s') cs"
    and "\<not> go \<Longrightarrow> typed_commands (s_line s) (c # cs) = typed_commands (s_line s) [c]"
  using assms
  by (auto simp: shell_byte_def enter_line_def Let_def emit_def leaves_shell_def
      split: if_splits elim!: on_ok_elim dest: run_command_frame(2))

lemma shell_bytes_commands:
  assumes "list_all (\<lambda>c. \<not> opens_dialog c) (typed_commands (s_line s) cs)"
  shows "shell_bytes w p cs (s\<lparr>s_in := ch\<rparr>) =
      map_sum id (map_prod id (\<lambda>t. t\<lparr>s_in := ch\<rparr>)) (shell_bytes w p cs s)"
    and "shell_bytes w p cs s = Inr (go, s') \<Longrightarrow>
      logged (s_trace s') = logged (s_trace s) @ typed_commands (s_line s) cs \<and> s_in s' = s_in s \<and>
      typed_commands (s_line s) (cs @ rest) =
        typed_commands (s_line s) cs @ (if go then typed_commands (s_line s') rest else [])"
  using assms
proof (induction cs arbitrary: s)
  case Nil
  { case 1 show ?case by simp }
  { case 2 then show ?case by simp }
next
  case (Cons c cs)
  have hd: "list_all (\<lambda>c. \<not> opens_dialog c) (typed_commands (s_line s) [c])"
    if "list_all (\<lambda>c. \<not> opens_dialog c) (typed_commands (s_line s) (c # cs))" for s :: session
    using that by (auto simp: Let_def split: if_splits)
  { case 1
    note b = shell_byte_frame [OF hd [OF 1], of w p ch]
    show ?case
    proof (cases "shell_byte w p c s")
      case (Inl a)
      with b show ?thesis by simp
    next
      case (Inr r)
      obtain g t where r: "r = (g, t)" by force
      note k = shell_byte_commands [OF hd [OF 1] Inr [unfolded r]]
      show ?thesis
        using b Inr r k(1,2) k(3,4) [of cs] 1 Cons.IH(1) [of t] by (cases g) (auto simp del: typed_commands.simps)
    qed }
  { case 2
   then obtain g t where t: "shell_byte w p c s = Inr (g, t)"
      and r: "(if g then shell_bytes w p cs t else Inr (False, t)) = Inr (go, s')"
      by (auto elim!: on_ok_elim)
    note k = shell_byte_commands [OF hd [OF 2(2)] t]
    show ?case
      using r k(1,2) k(3,4) [of cs] k(3,4) [of "cs @ rest"] 2(2) Cons.IH(2) [of t]
      by (cases g) (auto simp del: typed_commands.simps) }
qed

lemma concat_chan_read: "chan_read k ch = Some (b, ch') \<Longrightarrow> concat ch = b @ concat ch'"
  by (cases ch) (auto simp: chan_read_def split: if_splits)

lemma chan_read_None: "chan_read k ch = None \<longleftrightarrow> ch = []"
  by (cases ch) (auto simp: chan_read_def)

lemma typed_commands_prefix: "\<exists>t. typed_commands l (b @ r) = typed_commands l b @ t"
  by (induction l b rule: typed_commands.induct) (auto simp: Let_def)

lemma shell_bytes_append:
  "shell_bytes w p (xs @ ys) s =
     on_ok (\<lambda>(go, s'). if go then shell_bytes w p ys s' else Inr (False, s')) (shell_bytes w p xs s)"
proof (induction xs arbitrary: s)
  case (Cons c cs)
  show ?case
    by (cases "shell_byte w p c s") (use Cons.IH in \<open>auto split: prod.splits\<close>)
qed simp

lemma shell_loop_stream:
  assumes "list_all (\<lambda>c. \<not> opens_dialog c) (typed_commands (s_line s) (concat (s_in s)))"
  shows "map_sum id clear_in (shell_loop w p s) =
      map_sum id (clear_in \<circ> snd) (shell_bytes w p (concat (s_in s)) (clear_in s))"
  using assms
proof (induction w p s rule: shell_loop.induct)
  case (1 w p s)
  show ?case
  proof (cases "chan_read 1024 (s_in s)")
    case None
    then have "s_in s = []" by (simp add: chan_read_None)
    with None show ?thesis by (subst shell_loop.simps) (simp add: clear_in_def)
  next
    case (Some bc)
    obtain b ch where bc: "bc = (b, ch)" by force
    have cat: "concat (s_in s) = b @ concat ch" using Some bc by (simp add: concat_chan_read)
    let ?s = "s\<lparr>s_in := ch\<rparr>"
    have nd: "list_all (\<lambda>c. \<not> opens_dialog c) (typed_commands (s_line ?s) b)"
      using 1(2) typed_commands_prefix [of "s_line s" b "concat ch"] by (auto simp: cat)
    have b: "shell_bytes w p b (clear_in s) = map_sum id (map_prod id clear_in) (shell_bytes w p b ?s)"
      using shell_bytes_commands(1) [OF nd, of w p "[]"] by (simp add: clear_in_def [abs_def])
    show ?thesis
    proof (cases "shell_bytes w p b ?s")
      case (Inl e)
      then show ?thesis
        by (subst shell_loop.simps) (simp add: Some bc cat shell_bytes_append b)
    next
      case (Inr r)
      obtain go t where r: "r = (go, t)" by force
      note k = shell_bytes_commands(2) [OF nd Inr [unfolded r], of "concat ch"]
      show ?thesis
      proof (cases go)
        case False
        with Inr r show ?thesis
          by (subst shell_loop.simps) (simp add: Some bc cat shell_bytes_append b)
      next
        case True
        have "list_all (\<lambda>c. \<not> opens_dialog c) (typed_commands (s_line t) (concat (s_in t)))"
          using 1(2) k True by (simp add: cat)
        note IH = 1(1) [OF Some bc [symmetric] Inr r [symmetric] True this]
        show ?thesis
          using IH k True Inr r
          by (subst shell_loop.simps) (simp add: Some bc cat shell_bytes_append b id_def o_def)
      qed
    qed
  qed
qed


definition quiet_world :: world where
  \<comment> \<open>a concrete world for the examples\<close>
  "quiet_world tr = \<lparr>sh_render = plain_env, sh_iter_ssids = (\<lambda>m. m), sh_iter_vlans = rev, sh_now = ''12:00:00''\<rparr>"

definition cr :: string where "cr = [CHR 0x0D]"

lemma plain_words: "TrimSpace ''end'' = ''end''" "Fields ''end'' = [''end'']" "ToLower ''end'' = ''end''"
  by (simp_all add: TrimSpace_def is_space_def ToLower_def to_lower_char_def char_code_def Fields_word(1))

lemma execute_end: "executeCommand env ''end'' d = Inr ([], d)"
  by (simp add: executeCommand_def plain_words strip_admin_def dispatch_def)


section \<open>Exec requests and SCP\<close>

definition ssh_length :: "string \<Rightarrow> int" where
  "ssh_length p =
     (let b = (\<lambda>i. of_char (p ! i) :: int)
      in or (or (or (push_bit 24 (b 0)) (push_bit 16 (b 1))) (push_bit 8 (b 2))) (b 3))"

definition ssh_string :: "string \<Rightarrow> string option" where
  \<comment> \<open>the length-prefixed string of an exec or subsystem payload\<close>
  "ssh_string p =
     (if length p > 4 \<and> ssh_length p \<le> int (length p) - 4
      then Some (take (nat (ssh_length p)) (drop 4 p)) else None)"

definition scp_file :: "string list \<Rightarrow> string" where
  "scp_file parts = fold (\<lambda>p f. if HasPrefix p ''-'' then f else p) (tl parts) ''running-config''"

definition scp_config :: "render_env \<Rightarrow> string \<Rightarrow> device \<Rightarrow> string \<times> device" where
  "scp_config env filename d =
     (if filename = ''startup-config'' then StartupConfig env d else RunningConfig env d)"

definition skip_byte :: "string list \<Rightarrow> string list" where
  \<comment> \<open>a one-byte read whose result nobody looks at\<close>
  "skip_byte ch = (case chan_read 1 ch of None \<Rightarrow> ch | Some (_, ch') \<Rightarrow> ch')"

definition handleSCP ::
  "shell_env \<Rightarrow> string \<Rightarrow> device \<Rightarrow> string list \<Rightarrow> (shell_event list \<times> string list \<times> device) option" where
  "handleSCP env cmd d ch =
     (let parts = Fields cmd
      in if length parts < 2 \<or> hd parts \<noteq> ''scp'' \<or> \<not> list_ex (\<lambda>p. p = ''-f'') parts then None
         else
           let filename = scp_file parts;
               (config, d') = scp_config (sh_render env) filename d;
               ch1 = skip_byte ch;
               header = ''C0644 '' @ itoa (int (length config)) @ '' '' @ filename @ [CHR 0x0A];
               ch2 = skip_byte ch1;
               ch3 = skip_byte ch2
           in Some ([Out header, Out config, Out [CHR 0x00]], ch3, d'))"

datatype request = PtyReq | ShellReq | ExecReq string | SubsystemReq string | OtherReq

datatype session_event =
    Reply bool
  | Command string
  | Sent shell_event
  | ShellTrace "shell_event list"
  | ServeSFTP

definition exec_request ::
  "shell_env \<Rightarrow> string \<Rightarrow> device \<Rightarrow> string list \<Rightarrow> panic + (session_event list \<times> device)" where
  "exec_request env payload d ch =
     (case ssh_string payload of
        None \<Rightarrow> Inr ([], d)
      | Some cmd \<Rightarrow>
          (case handleSCP env cmd d ch of
             Some (ev, _, d') \<Rightarrow> Inr (Command cmd # map Sent ev, d')
           | None \<Rightarrow> on_ok (\<lambda>(output, d'). Inr ([Command cmd, Sent (Out output)], d')) (executeCommand env cmd d)))"

fun handleSession ::
  "world \<Rightarrow> request list \<Rightarrow> device \<Rightarrow> string list \<Rightarrow> panic + (session_event list \<times> device)" where
  "handleSession w [] d ch = Inr ([], d)"
| "handleSession w (PtyReq # rs) d ch =
     on_ok (\<lambda>(ev, d'). Inr (Reply True # ev, d')) (handleSession w rs d ch)"
| "handleSession w (ShellReq # rs) d ch =
     on_ok (\<lambda>s. Inr ([Reply True, ShellTrace (s_trace s)], s_dev s)) (runShell w d ch)"
| "handleSession w (ExecReq p # rs) d ch =
     on_ok (\<lambda>(ev, d'). Inr (Reply True # ev, d')) (exec_request (w []) p d ch)"
| "handleSession w (SubsystemReq p # rs) d ch =
     (if ssh_string p = Some ''sftp'' then Inr ([Reply True, ServeSFTP], d)
      else on_ok (\<lambda>(ev, d'). Inr (Reply False # ev, d')) (handleSession w rs d ch))"
| "handleSession w (OtherReq # rs) d ch =
     on_ok (\<lambda>(ev, d'). Inr (Reply False # ev, d')) (handleSession w rs d ch)"

subsection \<open>The virtual file system\<close>

definition serveSFTP :: "render_env \<Rightarrow> device \<Rightarrow> (string \<times> string) list \<times> device" where
  \<comment> \<open>the files the handlers serve\<close>
  "serveSFTP env d =
     (let (r, d1) = RunningConfig env d; (s, d2) = StartupConfig env d1
      in ([(''running-config'', r), (''startup-config'', s)], d2))"

datatype sftp_error = NotExist | PermissionDenied

definition vfs_resolve :: "(string \<times> string) list \<Rightarrow> string \<Rightarrow> string option" where
  "vfs_resolve files path = map_of files (TrimPrefix path ''/'')"

definition Fileread :: "(string \<times> string) list \<Rightarrow> string \<Rightarrow> sftp_error + string" where
  "Fileread files path = (case vfs_resolve files path of Some c \<Rightarrow> Inr c | None \<Rightarrow> Inl NotExist)"

definition Filewrite :: "(string \<times> string) list \<Rightarrow> string \<Rightarrow> sftp_error + unit" where
  "Filewrite files path = Inl PermissionDenied"

definition Filecmd :: "(string \<times> string) list \<Rightarrow> string \<Rightarrow> sftp_error + unit" where
  "Filecmd files path = Inr ()"

record file_info =
  fi_name :: string
  fi_size :: int

definition file_info :: "string \<times> string \<Rightarrow> file_info" where
  "file_info f = \<lparr>fi_name = fst f, fi_size = int (length (snd f))\<rparr>"

definition Filelist ::
  "((string \<times> string) list \<Rightarrow> (string \<times> string) list) \<Rightarrow> (string \<times> string) list \<Rightarrow> string \<Rightarrow> string \<Rightarrow>
     sftp_error + file_info list" where
  "Filelist iter files meth path =
     (if meth = ''Stat'' then
        (if (path = ''/'' \<or> path = ''.'') \<and> files \<noteq> [] then Inr [file_info (hd (iter files))]
         else case vfs_resolve files path of
                Some c \<Rightarrow> Inr [file_info (TrimPrefix path ''/'', c)]
              | None \<Rightarrow> Inl NotExist)
      else if meth = ''List'' then Inr (map file_info (iter files))
      else Inl PermissionDenied)"

definition ListAt :: "'a list \<Rightarrow> nat \<Rightarrow> int \<Rightarrow> panic + ('a list \<times> bool)" where
  \<comment> \<open>into a buffer of \<open>k\<close> entries; the flag is \<^verbatim>\<open>io.EOF\<close>\<close>
  "ListAt l k offset =
     (if offset \<ge> int (length l) then Inr ([], True)
      else if offset < 0 then Inl SliceBoundsOutOfRange
      else let copied = take k (drop (nat offset) l)
           in Inr (copied, int (length copied) + offset \<ge> int (length l)))"

subsection \<open>Where the command line can panic\<close>

lemma dispatch_panics: "dispatch env d cmd parts = Inl p \<Longrightarrow> length (d_IP d) < 4"
  unfolding dispatch_def Let_def showInterfaces_def by (simp split: if_splits)

lemma executeCommand_panics: "executeCommand env cmd d = Inl p \<Longrightarrow> length (d_IP d) < 4"
  by (auto simp: executeCommand_def Let_def split: if_splits prod.splits dest: dispatch_panics)

lemma show_interfaces_words:
  "Fields ''show interfaces'' = [''show'', ''interfaces'']"
  "TrimSpace ''show interfaces'' = ''show interfaces''"
proof -
  have "Fields (''show'' @ CHR '' '' # ''interfaces'') = [''show'', ''interfaces'']"
    by (subst Fields_word(2)) (simp_all add: is_space_def Fields_space Fields_word(1))
  then show "Fields ''show interfaces'' = [''show'', ''interfaces'']" by simp
  show "TrimSpace ''show interfaces'' = ''show interfaces''" by (simp add: TrimSpace_def is_space_def)
qed

lemma ToLower_show: "ToLower ''show'' = ''show''" "ToLower ''interfaces'' = ''interfaces''"
  by (simp_all add: ToLower_def to_lower_char_def char_code_def)

text \<open>
  Where the simulated command line can bring the process down: with an address of at
  least four bytes no command of any kind panics; with a shorter one, which is what a device
  configured without an address has outside LAN mode, \<^verbatim>\<open>show interfaces\<close> indexes past
  the end of the address.
\<close>

theorem show_interfaces_panics:
  "(length (d_IP d) \<ge> 4 \<longrightarrow> (\<forall>env cmd. \<exists>r. executeCommand env cmd d = Inr r)) \<and>
   (length (d_IP d) < 4 \<longrightarrow> executeCommand env ''show interfaces'' d = Inl IndexOutOfRange)"
proof (intro conjI impI allI)
  fix env cmd assume "length (d_IP d) \<ge> 4"
  then show "\<exists>r. executeCommand env cmd d = Inr r"
    by (cases "executeCommand env cmd d") (auto dest: executeCommand_panics)
next
  assume "length (d_IP d) < 4"
  then show "executeCommand env ''show interfaces'' d = Inl IndexOutOfRange"
    by (simp add: executeCommand_def show_interfaces_words strip_admin_def dispatch_def ToLower_show showInterfaces_def)
qed

theorem show_interfaces_panics_witness:
  "executeCommand (quiet_world []) ''show interfaces'' (empty_device\<lparr>d_IP := []\<rparr>) = Inl IndexOutOfRange \<and>
   (\<exists>r. executeCommand (quiet_world []) ''show interfaces'' (empty_device\<lparr>d_IP := ''10.0.0.1''\<rparr>) = Inr r)"
  using show_interfaces_panics [of "empty_device\<lparr>d_IP := []\<rparr>" "quiet_world []"]
    show_interfaces_panics [of "empty_device\<lparr>d_IP := ''10.0.0.1''\<rparr>"] by simp

subsection \<open>Paging\<close>

fun read_pages :: "nat \<Rightarrow> 'a list \<Rightarrow> nat \<Rightarrow> int \<Rightarrow> panic + ('a list \<times> bool)" where
  \<comment> \<open>the loop of a caller: at most \<open>n\<close> calls, stopping at the end of file\<close>
  "read_pages 0 l k off = Inr ([], False)"
| "read_pages (Suc n) l k off =
     on_ok (\<lambda>(xs, eof).
         if eof then Inr (xs, True)
         else on_ok (\<lambda>(ys, e). Inr (xs @ ys, e)) (read_pages n l k (off + int (length xs))))
       (ListAt l k off)"

text \<open>
  C35. Listing a directory over SFTP is complete and terminates: with a buffer of any positive
  size, a caller that repeats ListAt from offset 0 until it reports the end of the file has
  every entry exactly once, in order, after at most one call per entry plus one, and no slice
  bound is ever violated on the way.
\<close>

theorem ListAt_pages:
  assumes "k > 0" and "length l < n"
  shows "read_pages n l k 0 = Inr (l, True)"
proof -
  have "read_pages n l k (int m) = Inr (drop m l, True)" if "m \<le> length l" "length l - m < n" for m
    using that
  proof (induction n arbitrary: m)
    case (Suc n)
    show ?case
    proof (cases "m + k \<ge> length l")
      case True
      with Suc.prems show ?thesis by (cases "m = length l") (auto simp: ListAt_def Let_def)
    next
      case False
      with assms(1) have "m + k \<le> length l" "length l - (m + k) < n" using Suc.prems by auto
      note Suc.IH [OF this]
      with False show ?thesis
        using append_take_drop_id [of k "drop m l"] by (simp add: ListAt_def Let_def add.commute)
    qed
  qed simp
  from this [of 0] assms show ?thesis by simp
qed

theorem ListAt_pages_witness: "read_pages 4 [1, 2, 3 :: nat] 2 0 = Inr ([1, 2, 3], True)"
  by (rule ListAt_pages) simp_all

subsection \<open>Downloading a configuration with scp\<close>

definition ssh_encode :: "string \<Rightarrow> string" where
  \<comment> \<open>a client's encoding of a string, as SSH defines it\<close>
  "ssh_encode s =
     (let n = int (length s)
      in [char_of (n div 2 ^ 24), char_of (n div 2 ^ 16), char_of (n div 2 ^ 8), char_of n] @ s)"

lemma or_bytes:
  fixes a b :: int
  assumes "0 \<le> b" "b < 2 ^ n"
  shows "or (a * 2 ^ n) b = a * 2 ^ n + b"
proof -
  have "\<And>i. bit b i \<Longrightarrow> i < n"
    using assms by (metis bit_take_bit_iff take_bit_int_eq_self)
  then have "and (push_bit n a) b = 0"
    by (intro bit_eqI) (fastforce simp: bit_and_iff bit_push_bit_iff)
  then show ?thesis by (simp add: disjunctive_add_eq_or push_bit_eq_mult)
qed

lemma or_four_bytes:
  fixes a b c d :: int
  assumes "0 \<le> b" "b < 256" "0 \<le> c" "c < 256" "0 \<le> d" "d < 256"
  shows "or (or (or (a * 2 ^ 24) (b * 2 ^ 16)) (c * 2 ^ 8)) d = ((a * 256 + b) * 256 + c) * 256 + d"
proof -
  have "or (a * 2 ^ 24) (b * 2 ^ 16) = (a * 256 + b) * 2 ^ 16"
    using or_bytes [of "b * 2 ^ 16" 24 a] assms(1,2) by (simp add: algebra_simps)
  moreover have "or ((a * 256 + b) * 2 ^ 16) (c * 2 ^ 8) = ((a * 256 + b) * 256 + c) * 2 ^ 8"
    using or_bytes [of "c * 2 ^ 8" 16 "a * 256 + b"] assms(3,4) by (simp add: algebra_simps)
  moreover have "or (((a * 256 + b) * 256 + c) * 2 ^ 8) d = ((a * 256 + b) * 256 + c) * 256 + d"
    using or_bytes [of d 8 "(a * 256 + b) * 256 + c"] assms(5,6) by (simp add: algebra_simps)
  ultimately show ?thesis by simp
qed

lemma four_digits:
  fixes n :: int
  assumes "0 \<le> n" "n < 2 ^ 32"
  shows "((n div 2 ^ 24 mod 256 * 256 + n div 2 ^ 16 mod 256) * 256 + n div 2 ^ 8 mod 256) * 256 + n mod 256 = n"
proof -
  define q1 q2 q3 where q: "q1 = n div 256" "q2 = q1 div 256" "q3 = q2 div 256"
  have d: "n div 2 ^ 8 = q1" "n div 2 ^ 16 = q2" "n div 2 ^ 24 = q3"
    by (simp_all add: q zdiv_zmult2_eq [symmetric])
  have "0 \<le> q3" "q3 < 256" using assms by (simp_all add: d(3) [symmetric])
  then have "q3 mod 256 = q3" by simp
  then show ?thesis
    unfolding d by (simp add: q div_mult_mod_eq)
qed

lemma ssh_length_encode:
  assumes "length s < 2 ^ 32"
  shows "ssh_length (ssh_encode s) = int (length s)"
proof -
  define n where "n = int (length s)"
  have n: "0 \<le> n" "n < 2 ^ 32" using assms by (simp_all add: n_def)
  have b: "of_char (ssh_encode s ! 0) = n div 2 ^ 24 mod 256" "of_char (ssh_encode s ! 1) = n div 2 ^ 16 mod 256"
    "of_char (ssh_encode s ! 2) = n div 2 ^ 8 mod 256" "of_char (ssh_encode s ! 3) = n mod 256"
    unfolding ssh_encode_def Let_def n_def [symmetric] by (simp_all only: append_Cons nth_Cons_numeral nth_Cons_0
      One_nat_def nth_Cons_Suc of_char_of diff_numeral_simps numeral_2_eq_2 numeral_3_eq_3)
  have "ssh_length (ssh_encode s) =
      or (or (or (n div 2 ^ 24 mod 256 * 2 ^ 24) (n div 2 ^ 16 mod 256 * 2 ^ 16)) (n div 2 ^ 8 mod 256 * 2 ^ 8)) (n mod 256)"
    by (simp only: ssh_length_def Let_def b push_bit_eq_mult)
  also have "\<dots> = n"
    using or_four_bytes [of "n div 2 ^ 16 mod 256" "n div 2 ^ 8 mod 256" "n mod 256" "n div 2 ^ 24 mod 256"]
      four_digits [OF n] by (simp only: pos_mod_sign pos_mod_bound zero_less_numeral simp_thms)
  finally show ?thesis by (simp add: n_def)
qed

lemma ssh_string_encode:
  assumes "s \<noteq> []" "length s < 2 ^ 32"
  shows "ssh_string (ssh_encode s) = Some s"
proof -
  have "length (ssh_encode s) = length s + 4" "drop 4 (ssh_encode s) = s"
    by (simp_all add: ssh_encode_def Let_def)
  then show ?thesis using assms by (simp add: ssh_string_def ssh_length_encode)
qed

definition scp_receive :: "string \<Rightarrow> (string \<times> string) option" where
  \<comment> \<open>the receiving side of the protocol: file name and content\<close>
  "scp_receive out =
     (if HasPrefix out ''C0644 '' then
        let r = drop 6 out; n = takeWhile (\<lambda>c. c \<noteq> CHR '' '') r; r2 = drop (length n + 1) r;
            name = takeWhile (\<lambda>c. c \<noteq> CHR 0x0A) r2; body = drop (length name + 1) r2
        in case Atoi n of
             Some k \<Rightarrow> if k \<ge> 0 \<and> drop (nat k) body = [CHR 0x00] then Some (name, take (nat k) body) else None
           | None \<Rightarrow> None
      else None)"

fun sent_bytes :: "session_event list \<Rightarrow> string" where
  "sent_bytes (Sent (Out s) # ev) = s @ sent_bytes ev"
| "sent_bytes (_ # ev) = sent_bytes ev"
| "sent_bytes [] = []"

lemma scp_file_memb: "scp_file (p # ps) \<in> insert ''running-config'' (set ps)"
proof -
  have "fold (\<lambda>p f. if HasPrefix p ''-'' then f else p) ps f \<in> insert f (set ps)" for f
  proof (induction ps arbitrary: f)
    case (Cons p ps)
    from Cons [of "if HasPrefix p ''-'' then f else p"] show ?case by (auto split: if_splits)
  qed simp
  then show ?thesis by (simp add: scp_file_def)
qed

lemma scp_receive_file:
  assumes "CHR 0x0A \<notin> set name" and "length content < 2 ^ 63"
  shows "scp_receive (''C0644 '' @ itoa (int (length content)) @ '' '' @ name @ [CHR 0x0A] @ content @ [CHR 0x00]) =
     Some (name, content)"
proof -
  have sp: "CHR '' '' \<notin> set (itoa (int (length content)))"
    by (auto simp: itoa_def dest: nat_digits_char)
  have "Atoi (itoa (int (length content))) = Some (int (length content))"
    using assms(2) by (intro Atoi_itoa) auto
  moreover have "takeWhile (\<lambda>c. c \<noteq> CHR '' '') (itoa (int (length content)) @ CHR '' '' # r) = itoa (int (length content))" for r
    using sp by (subst takeWhile_append2) auto
  moreover have "takeWhile (\<lambda>c. c \<noteq> CHR 0x0A) (name @ CHR 0x0A # r) = name" for r
    using assms(1) by (subst takeWhile_append2) auto
  ultimately show ?thesis by (simp add: scp_receive_def Let_def)
qed

text \<open>
  C23. Fetching a configuration with scp works end to end: for every exec request whose
  command, of fewer than \<open>2 ^ 32\<close> bytes, is an scp source invocation, the payload decodes to
  that command, the command is logged, the device's configuration is what a receiver that
  follows the protocol obtains, byte for byte, under the name that was asked for, and the
  device is changed only by rendering its configuration.
\<close>

theorem scp_downloads_config:
  assumes "Fields cmd = ''scp'' # args" and "''-f'' \<in> set args" and "length cmd < 2 ^ 32"
    and "length (fst (RunningConfig (sh_render env) d)) < 2 ^ 63"
  shows "\<exists>ev. exec_request env (ssh_encode cmd) d ch = Inr (ev, snd (RunningConfig (sh_render env) d)) \<and>
     hd ev = Command cmd \<and>
     scp_receive (sent_bytes ev) = Some (scp_file (''scp'' # args), fst (RunningConfig (sh_render env) d))"
proof -
  let ?parts = "''scp'' # args" and ?cfg = "RunningConfig (sh_render env) d"
  let ?name = "scp_file ?parts"
  have "cmd \<noteq> []" using assms(1) by auto
  then have dec: "ssh_string (ssh_encode cmd) = Some cmd" using assms(3) by (rule ssh_string_encode)
  have cfg: "scp_config (sh_render env) ?name d = ?cfg"
    by (simp add: scp_config_def StartupConfig_def)
  have len: "length args \<ge> 1" using assms(2) by (cases args) auto
  have "\<forall>x \<in> set ?parts. CHR 0x0A \<notin> set x"
    using Fields_no_space [of _ cmd] assms(1) by (auto simp: is_space_def)
  then have nl: "CHR 0x0A \<notin> set ?name"
    using scp_file_memb [of "''scp''" args] by auto
  have ex: "\<exists>ch'. handleSCP env cmd d ch =
      Some ([Out (''C0644 '' @ itoa (int (length (fst ?cfg))) @ '' '' @ ?name @ [CHR 0x0A]), Out (fst ?cfg), Out [CHR 0x00]],
        ch', snd ?cfg)"
    using assms(1,2) len cfg by (auto simp: handleSCP_def Let_def list_ex_iff split: prod.splits)
  then show ?thesis
    using scp_receive_file [OF nl assms(4)]
    by (auto simp: exec_request_def dec intro!: exI [of _ "[Command cmd, _, _, _]"])
qed


theorem scp_downloads_config_witness:
  "\<exists>ev. exec_request (quiet_world []) (ssh_encode ''scp -f startup-config'')
       (empty_device\<lparr>d_cachedConfig := ''hostname w''\<rparr>) [] = Inr (ev, empty_device\<lparr>d_cachedConfig := ''hostname w''\<rparr>) \<and>
     scp_receive (sent_bytes ev) = Some (''startup-config'', ''hostname w'')"
proof -
  have "Fields (''-f'' @ CHR '' '' # ''startup-config'') = [''-f'', ''startup-config'']"
    by (subst Fields_word(2)) (simp_all add: is_space_def Fields_space Fields_word(1))
  then have "Fields (''scp'' @ CHR '' '' # ''-f startup-config'') = [''scp'', ''-f'', ''startup-config'']"
    by (subst Fields_word(2)) (simp_all add: is_space_def Fields_space)
  then have f: "Fields ''scp -f startup-config'' = ''scp'' # [''-f'', ''startup-config'']" by simp
  let ?d = "empty_device\<lparr>d_cachedConfig := ''hostname w''\<rparr>"
  have c: "RunningConfig env ?d = (''hostname w'', ?d)" for env
    by (simp add: RunningConfig_def)
  have n: "scp_file [''scp'', ''-f'', ''startup-config''] = ''startup-config''"
    by (simp add: scp_file_def)
  show ?thesis
    using scp_downloads_config [OF f, of "quiet_world []" ?d "[]"] by (auto simp: c n)
qed

subsection \<open>Dialogs and pasted input\<close>

lemma copy_words:
  "TrimSpace ''copy run tftp'' = ''copy run tftp''" "Fields ''copy run tftp'' = [''copy'', ''run'', ''tftp'']"
  "ToLower ''copy'' = ''copy''" "ToLower ''tftp'' = ''tftp''"
  "TrimSpace ''10.0.0.1'' = ''10.0.0.1''" "Fields ''10.0.0.1'' = [''10.0.0.1'']" "ToLower ''10.0.0.1'' = ''10.0.0.1''"
proof -
  have "Fields (''run'' @ CHR '' '' # ''tftp'') = [''run'', ''tftp'']"
    by (subst Fields_word(2)) (simp_all add: is_space_def Fields_space Fields_word(1))
  then have "Fields (''copy'' @ CHR '' '' # ''run tftp'') = [''copy'', ''run'', ''tftp'']"
    by (subst Fields_word(2)) (simp_all add: is_space_def Fields_space)
  then show "Fields ''copy run tftp'' = [''copy'', ''run'', ''tftp'']" by simp
  show "Fields ''10.0.0.1'' = [''10.0.0.1'']" by (rule Fields_word(1)) (simp_all add: is_space_def)
qed (simp_all add: TrimSpace_def is_space_def ToLower_def to_lower_char_def char_code_def)

fun pushed :: "shell_event list \<Rightarrow> (string \<times> string) list" where
  "pushed [] = []"
| "pushed (PushTFTP a n c # ev) = (a, n) # pushed ev"
| "pushed (_ # ev) = pushed ev"

lemma execute_address: "executeCommand env ''10.0.0.1'' d =
    Inr (''% Invalid input detected at '' @ [CHR 0x27, CHR 0x5E, CHR 0x27] @ '' marker.'' @ crlf, d)"
  by (simp add: executeCommand_def copy_words strip_admin_def dispatch_def)

definition plain_char :: "char \<Rightarrow> bool" where
  "plain_char c \<longleftrightarrow> \<not> is_eol c \<and> \<not> is_erase c \<and> c \<noteq> CHR 0x03"

definition echo :: "string \<Rightarrow> shell_event list" where
  "echo l = map (\<lambda>c. Out [c]) l"

lemma logged_echo [simp]: "logged (echo l) = []" "pushed (echo l) = []"
  by (induction l) (auto simp: echo_def)

lemma pushed_append [simp]: "pushed (a @ b) = pushed a @ pushed b"
  by (induction a rule: pushed.induct) auto

lemma shell_bytes_plain:
  "list_all plain_char l \<Longrightarrow>
   shell_bytes w p (l @ r) s = shell_bytes w p r (emit (echo l) (s\<lparr>s_line := s_line s @ l\<rparr>))"
  by (induction l arbitrary: s) (simp_all add: shell_byte_def plain_char_def emit_def echo_def)

lemma shell_bytes_line:
  "list_all plain_char l \<Longrightarrow> s_line s = [] \<Longrightarrow>
   shell_bytes w p (l @ cr @ r) s =
     on_ok (\<lambda>(go, s'). if go then shell_bytes w p r s' else Inr (False, s'))
       (enter_line w p (emit (echo l) (s\<lparr>s_line := l\<rparr>)))"
  by (simp add: shell_bytes_plain cr_def shell_byte_def is_eol_def)

lemma readLine_plain:
  "list_all plain_char xs \<Longrightarrow>
   readLine l ((xs @ cr @ cs) # ch) = (TrimSpace (l @ xs), echo xs @ [Out crlf], if cs = [] then ch else cs # ch)"
proof (induction xs arbitrary: l)
  case Nil
  then show ?case by (subst readLine.simps) (simp add: chan_read_def cr_def is_eol_def echo_def)
next
  case (Cons x xs)
  from Cons.IH [of "l @ [x]"] Cons.prems show ?case
    by (subst readLine.simps) (simp add: chan_read_def plain_char_def cr_def echo_def)
qed

lemma readLine_end: "readLine l [] = (l, [], [])"
  by (subst readLine.simps) (simp add: chan_read_def)

lemma shell_loop_chunk:
  "s_in s = b # ch \<Longrightarrow> length b \<le> 1024 \<Longrightarrow> shell_bytes w p b (s\<lparr>s_in := ch\<rparr>) = Inr (True, t) \<Longrightarrow>
   shell_loop w p s = shell_loop w p t"
  by (subst shell_loop.simps) (simp add: chan_read_def)

lemma shell_loop_end: "s_in s = [] \<Longrightarrow> shell_loop w p s = Inr s"
  by (subst shell_loop.simps) (simp add: chan_read_def)

lemma plain_lines: "list_all plain_char ''copy run tftp''" "list_all plain_char ''10.0.0.1''"
  by (simp_all add: plain_char_def is_eol_def is_erase_def)

lemma RunningConfig_Hostname: "d_Hostname (snd (RunningConfig env d)) = d_Hostname d"
  by (simp add: RunningConfig_def Let_def)

lemma str_index_char_None: "c \<notin> set s \<Longrightarrow> str_index s [c] = None"
  by (induction s) auto

lemma enter_copy:
  assumes "TrimSpace (s_line s) = ''copy run tftp''" and "readLine [] (s_in s) = (host, ev, [])"
    and "CHR '':'' \<notin> set host"
  shows "\<exists>t. enter_line w p s = Inr (True, t) \<and> s_line t = [] \<and> s_in t = [] \<and>
     d_Hostname (s_dev t) = d_Hostname (s_dev s) \<and>
     logged (s_trace t) = logged (s_trace s) @ ''copy run tftp'' # logged ev @
        [''tftp-push run -> '' @ host @ '':'' @ ToLower (d_Hostname (s_dev s)) @ ''-confg''] \<and>
     pushed (s_trace t) = pushed (s_trace s) @ pushed ev @
        (if host = [] then [] else [(host @ '':69'', ToLower (d_Hostname (s_dev s)) @ ''-confg'')])"
proof -
  obtain cfg d1 where r: "RunningConfig (sh_render (w (s_trace s @ [Out crlf, LogCmd ''copy run tftp'']))) (s_dev s) = (cfg, d1)"
    by force
  have h: "d_Hostname d1 = d_Hostname (s_dev s)"
    using RunningConfig_Hostname [of _ "s_dev s"] r by (metis snd_conv)
  have c: "\<not> Contains host '':''"
    using assms(3) by (simp add: Contains_def str_index_char_None)
  show ?thesis
    using assms(1,2) r h c
    by (simp add: enter_line_def Let_def copy_words run_command_def handleInteractiveCopy_def ask_target_def
        readLinePrompt_def readLine_end pushTFTP_def emit_def)
qed

lemma enter_address:
  assumes "s_line s = ''10.0.0.1''"
  shows "\<exists>t. enter_line w p s = Inr (True, t) \<and> s_line t = [] \<and> s_in t = s_in s \<and>
     logged (s_trace t) = logged (s_trace s) @ [''10.0.0.1''] \<and> pushed (s_trace t) = pushed (s_trace s)"
  using assms
  by (simp add: enter_line_def Let_def copy_words run_command_def handleInteractiveCopy_def execute_address emit_def)

text \<open>
  C37. A copy dialog does not read the line it was pasted with: when the answers arrive in the
  same packet as the command, as a script sends them, the dialog sees no answer, pushes nothing,
  and the first answer is executed and logged as a command of its own; the same bytes in one
  packet per line push the configuration to the host that was given.
\<close>

theorem pasted_copy_answers_are_executed:
  "\<exists>s t. runShell w d [''copy run tftp'' @ cr @ ''10.0.0.1'' @ cr] = Inr s \<and>
     logged (s_trace s) = [''copy run tftp'', ''tftp-push run -> :'' @ ToLower (d_Hostname d) @ ''-confg'', ''10.0.0.1''] \<and>
     pushed (s_trace s) = [] \<and>
     runShell w d [''copy run tftp'' @ cr, ''10.0.0.1'' @ cr] = Inr t \<and>
     logged (s_trace t) = [''copy run tftp'', ''tftp-push run -> 10.0.0.1:'' @ ToLower (d_Hostname d) @ ''-confg''] \<and>
     pushed (s_trace t) = [(''10.0.0.1:69'', ToLower (d_Hostname d) @ ''-confg'')]"
proof -
  let ?p = "shell_prompt d" and ?c = "''copy run tftp''" and ?a = "''10.0.0.1''"
  let ?f = "ToLower (d_Hostname d) @ ''-confg''"
  let ?i = "\<lambda>ch. \<lparr>s_line = [], s_trace = [Out (crlf @ ?p)], s_in = ch, s_dev = d\<rparr>"
  have len: "length (?c @ cr @ ?a @ cr) \<le> 1024" "length (?c @ cr) \<le> 1024" by (simp_all add: cr_def)
  obtain u where u: "enter_line w ?p (emit (echo ?c) ((?i [])\<lparr>s_line := ?c\<rparr>)) = Inr (True, u)"
    "s_line u = []" "s_in u = []" "logged (s_trace u) = [?c, ''tftp-push run -> :'' @ ?f]" "pushed (s_trace u) = []"
    using enter_copy [of "emit (echo ?c) ((?i [])\<lparr>s_line := ?c\<rparr>)" "[]" "[]" w ?p]
    by (auto simp: copy_words readLine_end)
  obtain v where v: "enter_line w ?p (emit (echo ?a) (u\<lparr>s_line := ?a\<rparr>)) = Inr (True, v)"
    "s_line v = []" "s_in v = []" "logged (s_trace v) = logged (s_trace u) @ [?a]" "pushed (s_trace v) = []"
    using enter_address [of "emit (echo ?a) (u\<lparr>s_line := ?a\<rparr>)" w ?p] u(3,5) by auto
  have "runShell w d [?c @ cr @ ?a @ cr] = Inr v"
    using shell_loop_chunk [of "?i [?c @ cr @ ?a @ cr]", OF _ len(1), of "[]" w ?p v]
      shell_bytes_line [OF plain_lines(1), of "?i []" w ?p "?a @ cr"]
      shell_bytes_line [OF plain_lines(2) u(2), of w ?p "[]"] u(1) v(1,3)
    by (simp add: runShell_def shell_loop_end)
  moreover obtain t where t: "enter_line w ?p (emit (echo ?c) ((?i [?a @ cr])\<lparr>s_line := ?c\<rparr>)) = Inr (True, t)"
    "s_line t = []" "s_in t = []" "logged (s_trace t) = [?c, ''tftp-push run -> 10.0.0.1:'' @ ?f]"
    "pushed (s_trace t) = [(''10.0.0.1:69'', ?f)]"
    using enter_copy [of "emit (echo ?c) ((?i [?a @ cr])\<lparr>s_line := ?c\<rparr>)" ?a "echo ?a @ [Out crlf]" w ?p]
      readLine_plain [OF plain_lines(2), of "[]" "[]" "[]"]
    by (auto simp: copy_words)
  moreover have "runShell w d [?c @ cr, ?a @ cr] = Inr t"
    using shell_loop_chunk [of "?i [?c @ cr, ?a @ cr]", OF _ len(2), of "[?a @ cr]" w ?p t]
      shell_bytes_line [OF plain_lines(1), of "?i [?a @ cr]" w ?p "[]"] t(1,3)
    by (simp add: runShell_def shell_loop_end)
  ultimately show ?thesis using u(4) v(4,5) t(4,5) by auto
qed

end
