(* ===== verification/Restconf.thy ===== *)
theory Restconf
  imports Device AccessLog "HOL-Library.Multiset"
begin

text \<open>
  \<^verbatim>\<open>internal/restconf\<close>: the operational data a controller answers over
  RESTCONF. A \<^verbatim>\<open>map[string]any\<close> is an association list with distinct keys, the
  order in which the XML writer's range loop visits one is an argument; JSON bodies stay
  values, since their text is the encoder's of the standard library. The value types are
  those the builders produce (no \<^verbatim>\<open>[]any\<close> occurs).
\<close>

section \<open>Values and their XML\<close>

datatype jval =
    JStr string
  | JInt int
  | JBool bool
  | JMap "(string \<times> jval) list"
  | JMaps "(string \<times> jval) list list"

type_synonym go_map = "(string \<times> jval) list"
type_synonym xml_order = "string list \<Rightarrow> string list"

definition nl :: string where "nl = [CHR 0x0A]"

definition quote :: string where "quote = [CHR 0x22]"

definition xml_open :: "string \<Rightarrow> string" where
  "xml_open k = ''<'' @ k @ ''>''"

definition xml_close :: "string \<Rightarrow> string" where
  "xml_close k = ''</'' @ k @ ''>''"

definition xml_prefix :: "nat \<Rightarrow> string" where
  "xml_prefix n = replicate (2 * n) (CHR '' '')"

definition xml_leaf :: "nat \<Rightarrow> string \<Rightarrow> string \<Rightarrow> string" where
  "xml_leaf n k s = xml_prefix n @ xml_open k @ s @ xml_close k @ nl"

definition xml_block :: "nat \<Rightarrow> string \<Rightarrow> string \<Rightarrow> string" where
  "xml_block n k body = xml_prefix n @ xml_open k @ nl @ body @ xml_prefix n @ xml_close k @ nl"

fun writeXMLMap :: "xml_order \<Rightarrow> go_map \<Rightarrow> nat \<Rightarrow> string"
  and xml_entry :: "xml_order \<Rightarrow> nat \<Rightarrow> string \<Rightarrow> jval \<Rightarrow> string" where
  "writeXMLMap it m n = concat (it (map (\<lambda>(k, v). xml_entry it n k v) m))"
| "xml_entry it n k (JMaps ms) = concat (map (\<lambda>m. xml_block n k (writeXMLMap it m (n + 1))) ms)"
| "xml_entry it n k (JMap m) = xml_block n k (writeXMLMap it m (n + 1))"
| "xml_entry it n k (JBool b) = xml_leaf n k (if b then ''true'' else ''false'')"
| "xml_entry it n k (JStr s) = xml_leaf n k s"
| "xml_entry it n k (JInt i) = xml_leaf n k (itoa i)"

definition xml_root :: "string \<Rightarrow> string \<Rightarrow> string \<Rightarrow> string" where
  "xml_root root ns body =
     ''<'' @ root @ '' xmlns='' @ quote @ ns @ quote @ ''>'' @ nl @ body @ xml_close root @ nl"

definition toXML :: "xml_order \<Rightarrow> go_map \<Rightarrow> string \<Rightarrow> string \<Rightarrow> string" where
  "toXML it v root ns =
     (case v of
        (_, JMaps items) # _ \<Rightarrow> concat (map (\<lambda>m. xml_root root ns (writeXMLMap it m 1)) items)
      | (_, JMap m) # _ \<Rightarrow> xml_root root ns (writeXMLMap it m 1)
      | _ \<Rightarrow> xml_root root ns [])"

datatype body = JsonBody go_map | XmlBody string | TextBody string

record response =
  rs_code :: int
  rs_type :: string
  rs_headers :: "(string \<times> string) list"   \<comment> \<open>the other fields set\<close>
  rs_body :: body

record request =
  rq_path :: string
  rq_method :: string
  rq_accept :: string
  rq_auth :: "(string \<times> string) option"
  rq_source :: string

definition wantsJSON :: "request \<Rightarrow> bool" where
  "wantsJSON r = Contains (rq_accept r) ''json''"

definition xml_header :: string where
  \<comment> \<open>\<^verbatim>\<open>xml.Header\<close>\<close>
  "xml_header = ''<?xml version='' @ quote @ ''1.0'' @ quote @ '' encoding='' @ quote @ ''UTF-8'' @ quote @ ''?>'' @ nl"

definition writeResponse :: "xml_order \<Rightarrow> request \<Rightarrow> go_map \<Rightarrow> string \<Rightarrow> string \<Rightarrow> response" where
  "writeResponse it r v root ns =
     (if wantsJSON r
      then \<lparr>rs_code = 200, rs_type = ''application/yang-data+json'', rs_headers = [], rs_body = JsonBody v\<rparr>
      else \<lparr>rs_code = 200, rs_type = ''application/yang-data+xml'', rs_headers = [],
            rs_body = XmlBody (xml_header @ toXML it v root ns)\<rparr>)"

section \<open>Client operational data\<close>

definition assocTime :: "string \<Rightarrow> client \<Rightarrow> string" where
  \<comment> \<open>the first argument is half an hour ago, formatted\<close>
  "assocTime ago c = (if c_AssocTime c \<noteq> [] then c_AssocTime c else ago)"

definition methodID :: "string \<Rightarrow> string" where
  "methodID akm =
     (if akm = ''8021x'' then ''dot1x-auth-id''
      else if akm = ''psk'' then ''psk-auth-id''
      else if akm = ''sae'' then ''sae-auth-id''
      else ''dot1x-auth-id'')"

definition wlanProfile :: "client \<Rightarrow> string" where
  "wlanProfile c = (if c_WLANProfile c \<noteq> [] then c_WLANProfile c else c_SSID c)"

definition orDefault :: "string \<Rightarrow> string \<Rightarrow> string" where
  "orDefault v def = (if v \<noteq> [] then v else def)"

definition common_entry :: "client_with_ap \<Rightarrow> go_map" where
  "common_entry w =
     (let c = cwa_Client w in [
        (''client-mac'', JStr (c_MAC c)),
        (''ap-name'', JStr (ap_Name (cwa_AP w))),
        (''ms-ap-slot-id'', JInt 1),
        (''ms-radio-type'', JStr (c_RadioType c)),
        (''wlan-id'', JInt (c_WLANId c)),
        (''client-type'', JStr ''dot11-client''),
        (''co-state'', JStr (c_State c)),
        (''wlan-policy'', JMap [
           (''current-switching-mode'', JStr ''central''),
           (''wlan-switching-mode'', JStr ''central''),
           (''central-authentication'', JBool True),
           (''central-dhcp'', JBool True),
           (''central-assoc-enable'', JBool True),
           (''vlan-central-switching'', JBool False),
           (''is-fabric-client'', JBool False),
           (''is-guest-fabric-client'', JBool False)]),
        (''username'', JStr (c_Username c)),
        (''method-id'', JStr (methodID (c_AuthKeyMgmt c))),
        (''idle-timeout'', JInt 300),
        (''session-timeout'', JInt 1800),
        (''vrf-name'', JStr []),
        (''is-locally-administered-mac'', JBool False),
        (''aaa-override-passphrase'', JBool False)])"

definition buildCommonOperData :: "client_with_ap list \<Rightarrow> go_map list" where
  "buildCommonOperData ws = map common_entry ws"

definition dot11_entry :: "string \<Rightarrow> client_with_ap \<Rightarrow> go_map" where
  "dot11_entry ago w =
     (let c = cwa_Client w;
          bssid = (if c_BSSID c = [] then ap_MAC (cwa_AP w) else c_BSSID c)
      in [
        (''ms-mac-address'', JStr (c_MAC c)),
        (''dot11-state'', JStr ''dot11-state-associated''),
        (''ms-bssid'', JStr bssid),
        (''ap-mac-address'', JStr (ap_MAC (cwa_AP w))),
        (''current-channel'', JInt (c_Channel c)),
        (''ms-wlan-id'', JInt (c_WLANId c)),
        (''vap-ssid'', JStr (c_SSID c)),
        (''policy-profile'', JStr (c_PolicyProfile c)),
        (''ms-ap-slot-id'', JInt 1),
        (''radio-type'', JStr (c_RadioType c)),
        (''ms-assoc-time'', JStr (assocTime ago c)),
        (''wlan-profile'', JStr (wlanProfile c)),
        (''encryption-type'', JStr (c_EncryptionType c)),
        (''security-mode'', JStr (c_SecurityMode c)),
        (''dot11-6ghz-cap'', JBool False),
        (''ms-wifi'', JMap [
           (''wpa-version'', JStr (c_SecurityMode c)),
           (''cipher-suite'', JStr (c_EncryptionType c)),
           (''auth-key-mgmt'', JStr (c_AuthKeyMgmt c)),
           (''group-mgmt-cipher-suite'', JStr (c_EncryptionType c)),
           (''group-cipher-suite'', JStr (c_EncryptionType c)),
           (''pwe-mode'', JStr ''sae-pwe-mode-none'')]),
        (''ms-wme-enabled'', JBool True),
        (''dot11w-enabled'', JBool True),
        (''bss-trans-capable'', JBool True),
        (''ewlc-ms-phy-type'', JStr (c_RadioType c)),
        (''dms-capable'', JBool False),
        (''qosmap-capable'', JBool True),
        (''link-local-enable'', JBool False)])"

definition buildDot11OperData :: "string \<Rightarrow> client_with_ap list \<Rightarrow> go_map list" where
  "buildDot11OperData ago ws = map (dot11_entry ago) ws"

definition traffic_entry :: "client_with_ap \<Rightarrow> go_map" where
  "traffic_entry w =
     (let c = cwa_Client w in [
        (''ms-mac-address'', JStr (c_MAC c)),
        (''bytes-rx'', JInt (c_BytesRx c)),
        (''bytes-tx'', JInt (c_BytesTx c)),
        (''pkts-rx'', JInt (c_PktsRx c)),
        (''pkts-tx'', JInt (c_PktsTx c)),
        (''data-retries'', JInt (c_DataRetries c)),
        (''rts-retries'', JInt 0),
        (''duplicate-rcv'', JInt 0),
        (''decrypt-failed'', JInt 0),
        (''mic-mismatch'', JInt 0),
        (''mic-missing'', JInt 0),
        (''most-recent-rssi'', JInt (c_RSSI c)),
        (''most-recent-snr'', JInt (c_SNR c)),
        (''tx-excessive-retries'', JInt 0),
        (''tx-retries'', JInt (wrap64 (c_DataRetries c * 2))),
        (''power-save-state'', JInt 0),
        (''current-rate'', JStr (itoa (c_Speed c) @ ''.0'')),
        (''speed'', JInt (c_Speed c)),
        (''spatial-stream'', JInt (c_SpatialStreams c)),
        (''client-active'', JBool True),
        (''rx-group-counter'', JInt 0),
        (''tx-total-drops'', JInt 0)])"

definition buildTrafficStats :: "client_with_ap list \<Rightarrow> go_map list" where
  "buildTrafficStats ws = map traffic_entry ws"

definition ip_key :: "string \<Rightarrow> go_map" where
  "ip_key a = [(''ip-key'', JMap [(''zone-id'', JInt 0), (''ip-addr'', JStr a)])]"

definition sisf_entry :: "client_with_ap \<Rightarrow> go_map" where
  "sisf_entry w =
     (let c = cwa_Client w
      in [(''mac-addr'', JStr (c_MAC c))] @
         (if c_IPv4 c \<noteq> [] then [(''ipv4-binding'', JMap (ip_key (c_IPv4 c)))] else []) @
         (if c_IPv6 c \<noteq> [] then [(''ipv6-binding'', JMaps (map ip_key (c_IPv6 c)))] else []))"

definition buildSisfDbMac :: "client_with_ap list \<Rightarrow> go_map list" where
  "buildSisfDbMac ws = map sisf_entry ws"

definition dc_entry :: "client_with_ap \<Rightarrow> go_map" where
  "dc_entry w =
     (let c = cwa_Client w in [
        (''client-mac'', JStr (c_MAC c)),
        (''device-type'', JStr (orDefault (c_DeviceType c) ''Microsoft-Workstation'')),
        (''confidence-level'', JInt 30),
        (''device-os'', JStr (orDefault (c_DeviceOS c) ''Windows'')),
        (''device-name'', JStr (c_Hostname c))])"

definition buildDcInfo :: "client_with_ap list \<Rightarrow> go_map list" where
  "buildDcInfo ws = map dc_entry ws"

definition policy_entry :: "client_with_ap \<Rightarrow> go_map" where
  "policy_entry w =
     (let c = cwa_Client w in [
        (''mac'', JStr (c_MAC c)),
        (''res-vlan-id'', JInt (c_VLAN c)),
        (''res-vlan-name'', JStr (c_VLANName c))])"

definition buildPolicyData :: "client_with_ap list \<Rightarrow> go_map list" where
  "buildPolicyData ws = map policy_entry ws"

section \<open>Access point operational data\<close>

definition capwap_entry :: "device \<Rightarrow> ap \<Rightarrow> go_map" where
  "capwap_entry d a =
     (let model = (if ap_Model a = [] then ''C9120AXI-B'' else ap_Model a) in [
        (''wtp-mac'', JStr (ap_MAC a)),
        (''ap-name'', JStr (ap_Name a)),
        (''device-detail'', JMap [
           (''static-info'', JMap [
              (''board-data'', JMap [
                 (''wtp-model-no'', JStr model),
                 (''wtp-serial-no'', JStr [])]),
              (''ap-model-name'', JStr model)]),
           (''ap-ip-addr'', JStr (d_IP d)),
           (''wtp-version'', JStr (d_Version d))]),
        (''tag-info'', JMap [
           (''site-tag'', JMap [(''site-tag-name'', JStr ''default-site-tag'')]),
           (''policy-tag'', JMap [(''policy-tag-name'', JStr ''default-policy-tag'')]),
           (''rf-tag'', JMap [(''rf-tag-name'', JStr ''default-rf-tag'')])]),
        (''admin-state'', JBool True),
        (''client-count'', JInt (int (length (ap_Clients a)))),
        (''ap-operation-state'', JStr ''ap-state-registered''),
        (''ap-join-state'', JStr ''ap-join-state-joined'')])"

definition buildCapwapData :: "device \<Rightarrow> go_map list" where
  "buildCapwapData d = map (capwap_entry d) (d_APs d)"

definition buildAPNameMacMap :: "device \<Rightarrow> go_map list" where
  "buildAPNameMacMap d =
     map (\<lambda>a. [(''wtp-name'', JStr (ap_Name a)), (''wtp-mac'', JStr (ap_MAC a))]) (d_APs d)"

definition radio_entry :: "ap \<Rightarrow> int \<Rightarrow> string \<Rightarrow> int \<Rightarrow> int \<Rightarrow> string \<Rightarrow> int \<Rightarrow> int \<Rightarrow> int \<Rightarrow> go_map" where
  "radio_entry a slot rtype ch tx width stations util noise = [
     (''wtp-mac'', JStr (ap_MAC a)),
     (''radio-slot-id'', JInt slot),
     (''slot-id'', JInt slot),
     (''radio-type'', JStr rtype),
     (''oper-state'', JBool True),
     (''radio-mode'', JStr ''radio-mode-local''),
     (''current-channel'', JInt ch),
     (''current-tx-power'', JInt tx),
     (''channel-width'', JStr width),
     (''station-count'', JInt stations),
     (''utilization'', JInt util),
     (''noise'', JInt noise)]"

definition count_5ghz :: "client \<Rightarrow> int \<times> int \<Rightarrow> int \<times> int" where
  "count_5ghz c nc = (if c_Channel c \<ge> 36 then (fst nc + 1, c_Channel c) else nc)"

definition ap_radios :: "ap \<Rightarrow> go_map list" where
  "ap_radios a =
     (let (clientCount, ch) = fold count_5ghz (ap_Clients a) (0, 36)
      in [radio_entry a 0 ''radio-type-dot11bg'' 6 17 ''cw-20-mhz'' 0 10 (-95),
          radio_entry a 1 ''radio-type-dot11a'' ch 20 ''cw-80-mhz'' clientCount 25 (-92)])"

definition buildRadioOperData :: "device \<Rightarrow> go_map list" where
  "buildRadioOperData d = concat (map ap_radios (d_APs d))"

section \<open>Endpoints\<close>

definition yangNS :: string where
  "yangNS = ''http://cisco.com/ns/yang/Cisco-IOS-XE-wireless-client-oper''"

definition apYangNS :: string where
  "apYangNS = ''http://cisco.com/ns/yang/Cisco-IOS-XE-wireless-access-point-oper''"

definition client_mod :: string where "client_mod = ''Cisco-IOS-XE-wireless-client-oper:''"

definition ap_mod :: string where "ap_mod = ''Cisco-IOS-XE-wireless-access-point-oper:''"

definition handleClientOperData :: "string \<Rightarrow> xml_order \<Rightarrow> request \<Rightarrow> device \<Rightarrow> response" where
  "handleClientOperData ago it r d =
     (let ws = AllClients d
      in writeResponse it r
           [(client_mod @ ''client-oper-data'', JMap [
              (''common-oper-data'', JMaps (buildCommonOperData ws)),
              (''dot11-oper-data'', JMaps (buildDot11OperData ago ws)),
              (''traffic-stats'', JMaps (buildTrafficStats ws)),
              (''sisf-db-mac'', JMaps (buildSisfDbMac ws)),
              (''dc-info'', JMaps (buildDcInfo ws)),
              (''policy-data'', JMaps (buildPolicyData ws))])]
           ''client-oper-data'' yangNS)"

definition handleCommonOperData :: "xml_order \<Rightarrow> request \<Rightarrow> device \<Rightarrow> response" where
  "handleCommonOperData it r d =
     writeResponse it r [(client_mod @ ''common-oper-data'', JMaps (buildCommonOperData (AllClients d)))]
       ''common-oper-data'' yangNS"

definition handleDot11OperData :: "string \<Rightarrow> xml_order \<Rightarrow> request \<Rightarrow> device \<Rightarrow> response" where
  "handleDot11OperData ago it r d =
     writeResponse it r [(client_mod @ ''dot11-oper-data'', JMaps (buildDot11OperData ago (AllClients d)))]
       ''dot11-oper-data'' yangNS"

definition handleTrafficStats :: "xml_order \<Rightarrow> request \<Rightarrow> device \<Rightarrow> response" where
  "handleTrafficStats it r d =
     writeResponse it r [(client_mod @ ''traffic-stats'', JMaps (buildTrafficStats (AllClients d)))]
       ''traffic-stats'' yangNS"

definition handleSisfDbMac :: "xml_order \<Rightarrow> request \<Rightarrow> device \<Rightarrow> response" where
  "handleSisfDbMac it r d =
     writeResponse it r [(client_mod @ ''sisf-db-mac'', JMaps (buildSisfDbMac (AllClients d)))]
       ''sisf-db-mac'' yangNS"

definition handleDcInfo :: "xml_order \<Rightarrow> request \<Rightarrow> device \<Rightarrow> response" where
  "handleDcInfo it r d =
     writeResponse it r [(client_mod @ ''dc-info'', JMaps (buildDcInfo (AllClients d)))] ''dc-info'' yangNS"

definition handlePolicyData :: "xml_order \<Rightarrow> request \<Rightarrow> device \<Rightarrow> response" where
  "handlePolicyData it r d =
     writeResponse it r [(client_mod @ ''policy-data'', JMaps (buildPolicyData (AllClients d)))]
       ''policy-data'' yangNS"

definition handleAPOperData :: "xml_order \<Rightarrow> request \<Rightarrow> device \<Rightarrow> response" where
  "handleAPOperData it r d =
     writeResponse it r
       [(ap_mod @ ''access-point-oper-data'', JMap [
          (''capwap-data'', JMaps (buildCapwapData d)),
          (''ap-name-mac-map'', JMaps (buildAPNameMacMap d)),
          (''radio-oper-data'', JMaps (buildRadioOperData d))])]
       ''access-point-oper-data'' apYangNS"

definition handleCapwapData :: "xml_order \<Rightarrow> request \<Rightarrow> device \<Rightarrow> response" where
  "handleCapwapData it r d =
     writeResponse it r [(ap_mod @ ''capwap-data'', JMaps (buildCapwapData d))] ''capwap-data'' apYangNS"

definition handleAPNameMacMap :: "xml_order \<Rightarrow> request \<Rightarrow> device \<Rightarrow> response" where
  "handleAPNameMacMap it r d =
     writeResponse it r [(ap_mod @ ''ap-name-mac-map'', JMaps (buildAPNameMacMap d))] ''ap-name-mac-map'' apYangNS"

definition handleRadioOperData :: "xml_order \<Rightarrow> request \<Rightarrow> device \<Rightarrow> response" where
  "handleRadioOperData it r d =
     writeResponse it r [(ap_mod @ ''radio-oper-data'', JMaps (buildRadioOperData d))] ''radio-oper-data'' apYangNS"

section \<open>The server\<close>

definition client_data_path :: string where
  "client_data_path = ''/restconf/data/'' @ client_mod @ ''client-oper-data''"

definition ap_data_path :: string where
  "ap_data_path = ''/restconf/data/'' @ ap_mod @ ''access-point-oper-data''"

definition host_meta :: response where
  "host_meta =
     \<lparr>rs_code = 200, rs_type = ''application/xrd+xml'', rs_headers = [],
      rs_body = XmlBody (''<XRD xmlns='' @ quote @ ''http://docs.oasis-open.org/ns/xri/xrd-1.0'' @ quote @
        ''><Link rel='' @ quote @ ''restconf'' @ quote @ '' href='' @ quote @ ''/restconf'' @ quote @ ''/></XRD>'')\<rparr>"

definition http_error :: "string \<Rightarrow> int \<Rightarrow> response" where
  \<comment> \<open>\<^verbatim>\<open>http.Error\<close>\<close>
  "http_error msg code = \<lparr>rs_code = code, rs_type = ''text/plain; charset=utf-8'',
     rs_headers = [(''X-Content-Type-Options'', ''nosniff'')], rs_body = TextBody (msg @ nl)\<rparr>"

definition restconf_mux :: "string \<Rightarrow> xml_order \<Rightarrow> device \<Rightarrow> request \<Rightarrow> response" where
  "restconf_mux ago it d r =
     (let p = rq_path r
      in if p = ''/.well-known/host-meta'' then host_meta
         else if p = client_data_path then handleClientOperData ago it r d
         else if p = client_data_path @ ''/common-oper-data'' then handleCommonOperData it r d
         else if p = client_data_path @ ''/dot11-oper-data'' then handleDot11OperData ago it r d
         else if p = client_data_path @ ''/traffic-stats'' then handleTrafficStats it r d
         else if p = client_data_path @ ''/sisf-db-mac'' then handleSisfDbMac it r d
         else if p = client_data_path @ ''/dc-info'' then handleDcInfo it r d
         else if p = client_data_path @ ''/policy-data'' then handlePolicyData it r d
         else if p = ap_data_path then handleAPOperData it r d
         else if p = ap_data_path @ ''/capwap-data'' then handleCapwapData it r d
         else if p = ap_data_path @ ''/ap-name-mac-map'' then handleAPNameMacMap it r d
         else if p = ap_data_path @ ''/radio-oper-data'' then handleRadioOperData it r d
         else http_error ''404 page not found'' 404)"

definition unauthorized :: response where
  "unauthorized =
     (let rs = http_error ''Unauthorized'' 401
      in rs\<lparr>rs_headers := (''WWW-Authenticate'', ''Basic realm='' @ quote @ ''RESTCONF'' @ quote) # rs_headers rs\<rparr>)"

definition basicAuth :: "string \<Rightarrow> string \<Rightarrow> (request \<Rightarrow> response) \<Rightarrow> request \<Rightarrow> response" where
  "basicAuth user pass next r =
     (case rq_auth r of
        None \<Rightarrow> unauthorized
      | Some (u, p) \<Rightarrow> if u \<noteq> user \<or> p \<noteq> pass then unauthorized else next r)"

definition logRequests :: "int \<Rightarrow> device \<Rightarrow> (request \<Rightarrow> response) \<Rightarrow> request \<Rightarrow> store \<Rightarrow> panic + (response \<times> store)" where
  "logRequests now d next r logs =
     (let rs = next r;
          user = (case rq_auth r of None \<Rightarrow> [] | Some (u, _) \<Rightarrow> u)
      in on_ok (\<lambda>logs'. Inr (rs, logs'))
           (Add now (empty_entry\<lparr>e_DeviceHost := d_Hostname d, e_DeviceIP := d_IP d, e_Type := ''restconf'',
              e_Source := rq_source r, e_Method := rq_method r, e_Path := rq_path r,
              e_Status := rs_code rs, e_User := user\<rparr>) logs))"

definition serve_restconf ::
  "string \<Rightarrow> xml_order \<Rightarrow> int \<Rightarrow> string \<Rightarrow> string \<Rightarrow> device \<Rightarrow> request \<Rightarrow> store \<Rightarrow> panic + (response \<times> store)" where
  \<comment> \<open>the handler chain one request goes through\<close>
  "serve_restconf ago it now user pass d r logs =
     logRequests now d (basicAuth user pass (restconf_mux ago it d)) r logs"

section \<open>Reading the XML back\<close>

definition mark_parent :: "(string \<times> bool) list \<Rightarrow> (string \<times> bool) list" where
  "mark_parent st = (case st of [] \<Rightarrow> [] | (n, _) # st' \<Rightarrow> (n, False) # st')"

definition blank :: "string \<Rightarrow> bool" where
  "blank t \<longleftrightarrow> list_all is_space t"

definition not_gt :: "char \<Rightarrow> bool" where
  "not_gt c \<longleftrightarrow> c \<noteq> CHR ''>''"

lemma open_shorter: "length (dropWhile P s) - Suc 0 \<le> length s"
  by (rule order_trans [OF diff_le_self length_dropWhile_le])

lemma close_shorter: "length (dropWhile P (tl s)) - Suc 0 \<le> length s"
  by (rule order_trans [OF open_shorter]) simp

function read_xml :: "(string \<times> bool) list \<Rightarrow> string \<Rightarrow> string \<Rightarrow> (string list \<times> string) list option" where
  \<comment> \<open>a reader of element-only XML without entities: the texts of the leaf elements with their
     paths; the flag of an open element says that no child has been seen\<close>
  "read_xml st t [] = (if st = [] \<and> blank t then Some [] else None)"
| "read_xml st t (c # s) =
     (if c = CHR ''<'' then
        (if s \<noteq> [] \<and> hd s = CHR ''/'' then
           let name = takeWhile not_gt (tl s); r = drop 1 (dropWhile not_gt (tl s))
           in (case st of
                 [] \<Rightarrow> None
               | (n, leaf) # st' \<Rightarrow>
                   if n \<noteq> name then None
                   else if leaf then map_option (\<lambda>ls. (rev (map fst st), t) # ls) (read_xml st' [] r)
                   else if blank t then read_xml st' [] r else None)
         else if blank t then
           let name = takeWhile (\<lambda>c. c \<noteq> CHR '' '') (takeWhile not_gt s); r = drop 1 (dropWhile not_gt s)
           in read_xml ((name, True) # mark_parent st) [] r
         else None)
      else if c = CHR ''&'' then None
      else read_xml st (t @ [c]) s)"
  by pat_completeness auto
termination
  by (relation "measure (\<lambda>(st, t, s). length s)") (auto simp: less_Suc_eq_le close_shorter open_shorter)

declare read_xml.simps [simp del]

subsection \<open>One step of the reader\<close>

definition inner :: "(string \<times> bool) list \<Rightarrow> bool" where
  \<comment> \<open>between elements: no open element still waits for its text\<close>
  "inner st \<longleftrightarrow> mark_parent st = st"

lemma inner_mark [simp]: "inner (mark_parent st)"
  by (auto simp: inner_def mark_parent_def split: list.splits)

lemma inner_simps [simp]: "inner []" "inner ((n, leaf) # st) \<longleftrightarrow> \<not> leaf"
  by (auto simp: inner_def mark_parent_def)

lemma blank_simps [simp]: "blank []" "blank (c # t) \<longleftrightarrow> is_space c \<and> blank t" "blank (a @ b) \<longleftrightarrow> blank a \<and> blank b"
  "blank (replicate n (CHR '' ''))"
  by (auto simp: blank_def is_space_def list_all_iff)

lemma not_gt_takeWhile:
  assumes "CHR ''>'' \<notin> set k"
  shows "takeWhile not_gt (k @ CHR ''>'' # r) = k" "dropWhile not_gt (k @ CHR ''>'' # r) = CHR ''>'' # r"
proof -
  have "\<And>c. c \<in> set k \<Longrightarrow> not_gt c" using assms by (auto simp: not_gt_def)
  then show "takeWhile not_gt (k @ CHR ''>'' # r) = k" "dropWhile not_gt (k @ CHR ''>'' # r) = CHR ''>'' # r"
    by (simp_all add: takeWhile_append2 dropWhile_append2 not_gt_def)
qed

lemma read_plain: "c \<noteq> CHR ''<'' \<Longrightarrow> c \<noteq> CHR ''&'' \<Longrightarrow> read_xml st t (c # s) = read_xml st (t @ [c]) s"
  by (simp add: read_xml.simps(2))

lemma read_entity: "read_xml st t (CHR ''&'' # s) = None"
  by (simp add: read_xml.simps(2))

lemma read_end_tag:
  "read_xml st t (CHR ''<'' # CHR ''/'' # s) =
     (case st of
        [] \<Rightarrow> None
      | (n, leaf) # st' \<Rightarrow>
          if n \<noteq> takeWhile not_gt s then None
          else if leaf then map_option (\<lambda>ls. (rev (map fst st), t) # ls) (read_xml st' [] (drop 1 (dropWhile not_gt s)))
          else if blank t then read_xml st' [] (drop 1 (dropWhile not_gt s)) else None)"
  by (auto simp add: read_xml.simps(2) Let_def split: list.splits)

lemma read_start_tag:
  "s = [] \<or> hd s \<noteq> CHR ''/'' \<Longrightarrow>
   read_xml st t (CHR ''<'' # s) =
     (if blank t
      then read_xml ((takeWhile (\<lambda>c. c \<noteq> CHR '' '') (takeWhile not_gt s), True) # mark_parent st) []
             (drop 1 (dropWhile not_gt s))
      else None)"
  by (auto simp add: read_xml.simps(2) Let_def)

lemma read_text:
  assumes "CHR ''<'' \<notin> set x" "CHR ''&'' \<notin> set x"
  shows "read_xml st t (x @ rest) = read_xml st (t @ x) rest"
  using assms
proof (induction x arbitrary: t)
  case (Cons c x)
  then have "c \<noteq> CHR ''<''" "c \<noteq> CHR ''&''" by auto
  with Cons show ?case by (simp add: read_plain)
qed simp

lemma read_amp:
  assumes "CHR ''<'' \<notin> set x" "CHR ''&'' \<in> set x"
  shows "read_xml st t (x @ rest) = None"
  using assms
proof (induction x arbitrary: t)
  case (Cons c x)
  show ?case
  proof (cases "c = CHR ''&''")
    case True
    then show ?thesis by (simp add: read_entity)
  next
    case False
    with Cons have "c \<noteq> CHR ''<''" "CHR ''<'' \<notin> set x" "CHR ''&'' \<in> set x" by auto
    with False Cons.IH show ?thesis by (simp add: read_plain)
  qed
qed simp

lemma blank_mem: "blank x \<Longrightarrow> c \<in> set x \<Longrightarrow> is_space c"
  by (simp add: blank_def list_all_iff)

lemma read_blank: "blank x \<Longrightarrow> read_xml st t (x @ rest) = read_xml st (t @ x) rest"
  by (rule read_text) (use blank_mem [of x] in \<open>auto simp: is_space_def\<close>)

lemma blank_irrelevant:
  assumes "inner st" "blank t"
  shows "read_xml st (t @ u) s = read_xml st u s"
proof (induction s arbitrary: u)
  case Nil
  show ?case using assms(2) by (simp add: read_xml.simps(1))
next
  case (Cons c s)
  consider (amp) "c = CHR ''&''" | (close) r where "c = CHR ''<''" "s = CHR ''/'' # r"
    | (start) "c = CHR ''<''" "s = [] \<or> hd s \<noteq> CHR ''/''" | (plain) "c \<noteq> CHR ''<''" "c \<noteq> CHR ''&''"
    by (cases s) auto
  then show ?case
  proof cases
    case close
    with assms show ?thesis by (cases st) (auto simp: read_end_tag)
  next
    case plain
    with Cons [of "u @ [c]"] show ?thesis by (simp add: read_plain)
  qed (use assms(2) in \<open>simp_all add: read_entity read_start_tag\<close>)
qed

lemma read_inner_blank: "inner st \<Longrightarrow> blank x \<Longrightarrow> read_xml st [] (x @ rest) = read_xml st [] rest"
  using blank_irrelevant [of st x "[]" rest] by (simp add: read_blank)

definition name_ok :: "string \<Rightarrow> bool" where
  "name_ok k \<longleftrightarrow> k \<noteq> [] \<and> hd k \<noteq> CHR ''/'' \<and> CHR ''>'' \<notin> set k \<and> CHR '' '' \<notin> set k"

lemma read_open:
  assumes "name_ok k" "blank t"
  shows "read_xml st t (xml_open k @ rest) = read_xml ((k, True) # mark_parent st) [] rest"
proof -
  have tk: "takeWhile (\<lambda>c. c \<noteq> CHR '' '') k = k"
    using assms(1) by (auto simp: name_ok_def takeWhile_eq_all_conv)
  have "hd (k @ CHR ''>'' # rest) \<noteq> CHR ''/''"
    using assms(1) by (cases k) (auto simp: name_ok_def)
  then show ?thesis
    using assms by (simp add: xml_open_def read_start_tag not_gt_takeWhile name_ok_def tk)
qed

lemma read_close:
  assumes "name_ok k"
  shows "read_xml ((k, True) # st) t (xml_close k @ rest) =
      map_option (\<lambda>ls. (rev (map fst ((k, True) # st)), t) # ls) (read_xml st [] rest)"
    and "blank t \<Longrightarrow> read_xml ((k, False) # st) t (xml_close k @ rest) = read_xml st [] rest"
  using assms by (simp_all add: xml_close_def read_end_tag not_gt_takeWhile name_ok_def)


subsection \<open>What a written map reads as\<close>

definition under :: "string list \<Rightarrow> (string list \<times> string) list \<Rightarrow> (string list \<times> string) list" where
  "under p ls = map (\<lambda>(q, x). (p @ q, x)) ls"

lemma under_simps [simp]: "under p [] = []" "under p (a @ b) = under p a @ under p b" "under [] ls = ls"
  "under p (under q ls) = under (p @ q) ls" "under p [(q, x)] = [(p @ q, x)]"
  by (auto simp: under_def)

definition reads :: "string \<Rightarrow> (string list \<times> string) list \<Rightarrow> bool" where
  \<comment> \<open>a text of whole elements, wherever it stands\<close>
  "reads s ls \<longleftrightarrow>
     (\<forall>st rest. inner st \<longrightarrow>
        read_xml st [] (s @ rest) = map_option (\<lambda>r. under (rev (map fst st)) ls @ r) (read_xml st [] rest))"

definition rejects :: "string \<Rightarrow> bool" where
  "rejects s \<longleftrightarrow> (\<forall>st rest. inner st \<longrightarrow> read_xml st [] (s @ rest) = None)"

definition starts_element :: "string \<Rightarrow> bool" where
  "starts_element s \<longleftrightarrow> (\<exists>ws k r. s = ws @ xml_open k @ r \<and> blank ws \<and> name_ok k)"

lemma starts_elementI: "blank ws \<Longrightarrow> name_ok k \<Longrightarrow> starts_element (ws @ xml_open k @ r)"
  unfolding starts_element_def by blast

lemma reads_Nil [simp]: "reads [] []"
  by (simp add: reads_def option.map_ident)

lemma reads_append: "reads a la \<Longrightarrow> reads b lb \<Longrightarrow> reads (a @ b) (la @ lb)"
  by (simp add: reads_def option.map_comp o_def)

lemma rejects_append: "rejects a \<Longrightarrow> rejects (a @ b)" "reads a la \<Longrightarrow> rejects b \<Longrightarrow> rejects (a @ b)"
  by (simp_all add: reads_def rejects_def)

lemma starts_element_parent:
  assumes "starts_element s"
  shows "read_xml ((k, True) # st) [] (s @ rest) = read_xml ((k, False) # st) [] (s @ rest)"
proof -
  obtain ws n r where "s = ws @ xml_open n @ r" "blank ws" "name_ok n"
    using assms by (auto simp: starts_element_def)
  then show ?thesis by (simp add: read_blank read_open mark_parent_def)
qed

lemma starts_element_append: "starts_element s \<Longrightarrow> starts_element (s @ t)"
  unfolding starts_element_def by (metis append.assoc)

lemma starts_element_blank: "blank ws \<Longrightarrow> starts_element s \<Longrightarrow> starts_element (ws @ s)"
  unfolding starts_element_def by (metis append.assoc blank_simps(3))

lemma blank_nl [simp]: "blank nl" and blank_prefix [simp]: "blank (xml_prefix n)"
  by (simp_all add: nl_def xml_prefix_def is_space_def)

lemma read_nl: "inner st \<Longrightarrow> read_xml st [] (nl @ rest) = read_xml st [] rest"
  by (simp add: read_inner_blank)

lemma read_element:
  assumes "name_ok k" "inner st"
  shows "read_xml st [] (xml_prefix n @ xml_open k @ rest) = read_xml ((k, True) # st) [] rest"
  using assms by (simp add: read_blank read_open inner_def)

lemma leaf_reads:
  assumes "name_ok k" "CHR ''<'' \<notin> set x"
  shows "CHR ''&'' \<notin> set x \<Longrightarrow> reads (xml_leaf n k x) [([k], x)]"
    and "CHR ''&'' \<in> set x \<Longrightarrow> rejects (xml_leaf n k x)"
    and "starts_element (xml_leaf n k x)"
proof -
  show "reads (xml_leaf n k x) [([k], x)]" if "CHR ''&'' \<notin> set x"
    using assms that
    by (auto simp: reads_def xml_leaf_def read_element read_text read_close read_nl under_def
        option.map_comp o_def)
  show "rejects (xml_leaf n k x)" if "CHR ''&'' \<in> set x"
    using assms that by (auto simp: rejects_def xml_leaf_def read_element read_amp)
  show "starts_element (xml_leaf n k x)"
    unfolding xml_leaf_def by (rule starts_elementI) (use assms(1) in simp_all)
qed

lemma block_reads:
  assumes "name_ok k" "starts_element body"
  shows "reads body ls \<Longrightarrow> reads (xml_block n k body) (under [k] ls)"
    and "rejects body \<Longrightarrow> rejects (xml_block n k body)"
    and "starts_element (xml_block n k body)"
proof -
  have r: "read_xml st [] (xml_block n k body @ rest) =
      read_xml ((k, False) # st) [] (body @ xml_prefix n @ xml_close k @ nl @ rest)" if "inner st" for st rest
  proof -
    have "read_xml st [] (xml_block n k body @ rest) =
        read_xml ((k, True) # st) [] (nl @ body @ xml_prefix n @ xml_close k @ nl @ rest)"
      using assms(1) that by (simp add: xml_block_def read_element)
    also have "\<dots> = read_xml ((k, False) # st) [] (nl @ body @ xml_prefix n @ xml_close k @ nl @ rest)"
      using starts_element_parent [OF starts_element_blank [OF blank_nl assms(2)]] by simp
    also have "\<dots> = read_xml ((k, False) # st) [] (body @ xml_prefix n @ xml_close k @ nl @ rest)"
      by (simp add: read_inner_blank)
    finally show ?thesis .
  qed
  have c: "read_xml ((k, False) # st) [] (xml_prefix n @ xml_close k @ nl @ rest) = read_xml st [] rest"
    if "inner st" for st rest
    using assms(1) that by (simp add: read_blank [of "xml_prefix n"] read_close read_nl)
  show "reads (xml_block n k body) (under [k] ls)" if "reads body ls"
    using that by (auto simp: reads_def r c)
  show "rejects (xml_block n k body)" if "rejects body"
    using that by (auto simp: rejects_def r)
  show "starts_element (xml_block n k body)"
    unfolding xml_block_def by (rule starts_elementI) (use assms(1) in simp_all)
qed


fun map_ok :: "go_map \<Rightarrow> bool" and val_ok :: "jval \<Rightarrow> bool" where
  \<comment> \<open>element names as keys, nothing empty, no tag in a text\<close>
  "map_ok m \<longleftrightarrow> m \<noteq> [] \<and> (\<forall>(k, v) \<in> set m. name_ok k \<and> val_ok v)"
| "val_ok (JStr s) \<longleftrightarrow> CHR ''<'' \<notin> set s"
| "val_ok (JInt i) \<longleftrightarrow> True"
| "val_ok (JBool b) \<longleftrightarrow> True"
| "val_ok (JMap m) \<longleftrightarrow> map_ok m"
| "val_ok (JMaps ms) \<longleftrightarrow> ms \<noteq> [] \<and> (\<forall>m \<in> set ms. map_ok m)"

fun map_plain :: "go_map \<Rightarrow> bool" and val_plain :: "jval \<Rightarrow> bool" where
  \<comment> \<open>no ampersand in a text\<close>
  "map_plain m \<longleftrightarrow> (\<forall>(k, v) \<in> set m. val_plain v)"
| "val_plain (JStr s) \<longleftrightarrow> CHR ''&'' \<notin> set s"
| "val_plain (JInt i) \<longleftrightarrow> True"
| "val_plain (JBool b) \<longleftrightarrow> True"
| "val_plain (JMap m) \<longleftrightarrow> map_plain m"
| "val_plain (JMaps ms) \<longleftrightarrow> (\<forall>m \<in> set ms. map_plain m)"

fun map_leaves :: "go_map \<Rightarrow> (string list \<times> string) list"
  and val_leaves :: "string \<Rightarrow> jval \<Rightarrow> (string list \<times> string) list" where
  "map_leaves m = concat (map (\<lambda>(k, v). val_leaves k v) m)"
| "val_leaves k (JStr s) = [([k], s)]"
| "val_leaves k (JInt i) = [([k], itoa i)]"
| "val_leaves k (JBool b) = [([k], if b then ''true'' else ''false'')]"
| "val_leaves k (JMap m) = under [k] (map_leaves m)"
| "val_leaves k (JMaps ms) = concat (map (\<lambda>m. under [k] (map_leaves m)) ms)"

definition reads_as :: "string \<Rightarrow> bool \<Rightarrow> (string list \<times> string) list \<Rightarrow> bool" where
  "reads_as s plain ls \<longleftrightarrow> (if plain then \<exists>ls'. reads s ls' \<and> mset ls' = mset ls else rejects s)"

definition written_as :: "string \<Rightarrow> bool \<Rightarrow> (string list \<times> string) list \<Rightarrow> bool" where
  "written_as s plain ls \<longleftrightarrow> starts_element s \<and> reads_as s plain ls"

lemma reads_as_append:
  assumes "reads_as a P la" "reads_as b Q lb"
  shows "reads_as (a @ b) (P \<and> Q) (la @ lb)"
proof (cases P)
  case False
  with assms(1) show ?thesis by (simp add: reads_as_def rejects_append)
next
  case True
  with assms(1) obtain la' where la: "reads a la'" "mset la' = mset la" by (auto simp: reads_as_def)
  show ?thesis
  proof (cases Q)
    case False
    with assms(2) la(1) show ?thesis by (auto simp: reads_as_def rejects_append(2))
  next
    case True
    with assms(2) obtain lb' where "reads b lb'" "mset lb' = mset lb" by (auto simp: reads_as_def)
    with la \<open>P\<close> True show ?thesis by (auto simp: reads_as_def intro!: exI [of _ "la' @ lb'"] reads_append)
  qed
qed

lemma reads_as_concat:
  assumes "\<forall>x \<in> set xs. reads_as (f x) (P x) (L x)"
  shows "reads_as (concat (map f xs)) (\<forall>x \<in> set xs. P x) (concat (map L xs))"
  using assms
proof (induction xs)
  case (Cons x xs)
  then show ?case using reads_as_append [of "f x" "P x" "L x"] by simp
qed (simp add: reads_as_def exI [of _ "[]"])

lemma written_as_concat:
  assumes "xs \<noteq> []" and "\<forall>x \<in> set xs. written_as (f x) (P x) (L x)"
  shows "written_as (concat (map f xs)) (\<forall>x \<in> set xs. P x) (concat (map L xs))"
  using assms reads_as_concat [of xs f P L]
  by (cases xs) (auto simp: written_as_def starts_element_append)

lemma permuted_map:
  assumes "mset ys = mset (map f xs)"
  shows "\<exists>xs'. ys = map f xs' \<and> mset xs' = mset xs"
  using assms
proof (induction ys arbitrary: xs)
  case (Cons y ys)
  then have "y \<in> f ` set xs" by (metis image_set list.set_intros(1) mset_eq_setD)
  then obtain x where x: "x \<in> set xs" "y = f x" by blast
  have m: "mset xs = add_mset x (mset (remove1 x xs))" using x(1) by simp
  have "add_mset y (mset ys) = add_mset y (mset (map f (remove1 x xs)))"
    using Cons.prems m x(2) by (metis image_mset_add_mset mset.simps(2) mset_map)
  then have "mset ys = mset (map f (remove1 x xs))" by simp
  from Cons.IH [OF this] obtain xs' where "ys = map f xs'" "mset xs' = mset (remove1 x xs)" by blast
  then show ?case using x(2) m by (intro exI [of _ "x # xs'"]) (simp only: list.map mset.simps simp_thms)
qed simp

lemma written_as_mset: "written_as s P ls \<Longrightarrow> mset ls = mset ls' \<Longrightarrow> written_as s P ls'"
  by (auto simp: written_as_def reads_as_def split: if_splits)

lemma mset_concat_map_cong:
  assumes "mset xs = mset ys"
  shows "mset (concat (map f xs)) = mset (concat (map f ys))"
proof -
  have "mset (concat (map f zs)) = sum_mset (image_mset (\<lambda>z. mset (f z)) (mset zs))" for zs
    by (induction zs) simp_all
  with assms show ?thesis by simp
qed


lemma mset_under: "mset ls' = mset ls \<Longrightarrow> mset (under p ls') = mset (under p ls)"
  by (simp add: under_def)

lemma written_as_block:
  assumes "name_ok k" "written_as s P ls"
  shows "written_as (xml_block n k s) P (under [k] ls)"
proof -
  have s: "starts_element s" using assms(2) by (simp add: written_as_def)
  note b = block_reads [OF assms(1) s]
  show ?thesis
  proof (cases P)
    case True
    with assms(2) obtain ls' where r: "reads s ls'" "mset ls' = mset ls" by (auto simp: written_as_def reads_as_def)
    have "\<exists>l. reads (xml_block n k s) l \<and> mset l = mset (under [k] ls)"
      using b(1) [OF r(1)] mset_under [OF r(2)] by blast
    with True b(3) show ?thesis by (simp add: written_as_def reads_as_def)
  next
    case False
    with assms(2) b(2,3) show ?thesis by (simp add: written_as_def reads_as_def)
  qed
qed

lemma written_as_leaf:
  "name_ok k \<Longrightarrow> CHR ''<'' \<notin> set x \<Longrightarrow> written_as (xml_leaf n k x) (CHR ''&'' \<notin> set x) [([k], x)]"
  using leaf_reads [of k x] by (auto simp: written_as_def reads_as_def)

lemma itoa_plain [simp]: "CHR ''<'' \<notin> set (itoa i)" "CHR ''&'' \<notin> set (itoa i)"
  by (auto simp: itoa_def is_digit_def char_code_def dest!: nat_digits_char)

lemma writeXMLMap_written:
  shows "is_order it \<Longrightarrow> map_ok m \<Longrightarrow> written_as (writeXMLMap it m n) (map_plain m) (map_leaves m)"
    and "is_order it \<Longrightarrow> name_ok k \<Longrightarrow> val_ok v \<Longrightarrow>
      written_as (xml_entry it n k v) (val_plain v) (val_leaves k v)"
proof (induction it m n and it n k v rule: writeXMLMap_xml_entry.induct)
  case (1 it m n)
  let ?f = "\<lambda>(k, v). xml_entry it n k v"
  have "mset (it (map ?f m)) = mset (map ?f m)" using 1(2) by (simp add: is_order_def)
  then obtain m' where m': "it (map ?f m) = map ?f m'" "mset m' = mset m" using permuted_map by blast
  have set: "set m' = set m" using m'(2) by (rule mset_eq_setD)
  have "m' \<noteq> []" using 1(3) m'(2) by auto
  moreover have "\<forall>e \<in> set m'. written_as (?f e) ((\<lambda>(k, v). val_plain v) e) ((\<lambda>(k, v). val_leaves k v) e)"
    using 1 by (auto simp: set)
  ultimately have "written_as (concat (map ?f m')) (\<forall>e \<in> set m'. (\<lambda>(k, v). val_plain v) e)
      (concat (map (\<lambda>(k, v). val_leaves k v) m'))"
    by (rule written_as_concat)
  from written_as_mset [OF this mset_concat_map_cong [OF m'(2)]]
  show ?case by (simp add: m'(1) set)
next
  case (2 it n k ms)
  then have "\<forall>m \<in> set ms. written_as (xml_block n k (writeXMLMap it m (n + 1))) (map_plain m) (under [k] (map_leaves m))"
    by (auto intro: written_as_block simp del: map_ok.simps map_plain.simps map_leaves.simps writeXMLMap.simps)
  with 2 show ?case
    using written_as_concat [of ms "\<lambda>m. xml_block n k (writeXMLMap it m (n + 1))" map_plain]
    by (simp del: map_ok.simps map_plain.simps map_leaves.simps writeXMLMap.simps)
next
  case (3 it n k m)
  then show ?case
    by (auto intro: written_as_block simp del: map_ok.simps map_plain.simps map_leaves.simps writeXMLMap.simps)
next
  case (4 it n k b)
  then show ?case using written_as_leaf [of k "if b then ''true'' else ''false''" n] by (cases b) auto
next
  case (6 it n k i)
  then show ?case using written_as_leaf [of k "itoa i" n] by simp
qed (simp add: written_as_leaf)


lemma root_reads_as:
  assumes "name_ok k" "CHR ''>'' \<notin> set ns" "written_as body P ls"
  shows "reads_as (xml_root k ns body) P (under [k] ls)"
proof -
  let ?tag = "k @ '' xmlns='' @ quote @ ns @ quote"
  have tk: "takeWhile (\<lambda>c. c \<noteq> CHR '' '') ?tag = k"
    using assms(1) by (auto simp: name_ok_def takeWhile_append2 intro: takeWhile_append2 [THEN trans])
  have gt: "CHR ''>'' \<notin> set ?tag" using assms(1,2) by (auto simp: name_ok_def quote_def)
  have h: "hd (?tag @ r) \<noteq> CHR ''/''" for r
    using assms(1) by (cases k) (auto simp: name_ok_def)
  have open_k: "read_xml st [] (xml_root k ns body @ rest) =
      read_xml ((k, True) # st) [] (nl @ body @ xml_close k @ nl @ rest)" if "inner st" for st rest
  proof -
    have "read_xml st [] (xml_root k ns body @ rest) =
        read_xml st [] (CHR ''<'' # ?tag @ CHR ''>'' # nl @ body @ xml_close k @ nl @ rest)"
      by (simp add: xml_root_def)
    also have "\<dots> = read_xml ((k, True) # mark_parent st) [] (nl @ body @ xml_close k @ nl @ rest)"
      by (simp only: read_start_tag [OF disjI2 [OF h]] not_gt_takeWhile [OF gt] tk blank_simps if_True
          drop_Suc_Cons drop_0 One_nat_def)
    finally show ?thesis using that by (simp add: inner_def)
  qed
  have body: "read_xml ((k, True) # st) [] (nl @ body @ xml_close k @ nl @ rest) =
      read_xml ((k, False) # st) [] (body @ xml_close k @ nl @ rest)" for st rest
    using starts_element_parent [OF starts_element_blank [OF blank_nl], of body k st] assms(3)
    by (simp add: written_as_def read_nl)
  have close: "read_xml ((k, False) # st) [] (xml_close k @ nl @ rest) = read_xml st [] rest" if "inner st" for st rest
    using assms(1) that by (simp add: read_close read_nl)
  show ?thesis
  proof (cases P)
    case True
    with assms(3) obtain ls' where ls': "reads body ls'" "mset ls' = mset ls"
      by (auto simp: written_as_def reads_as_def)
    then have "reads (xml_root k ns body) (under [k] ls')"
      by (auto simp: reads_def open_k body close)
    with True mset_under [OF ls'(2), of "[k]"] show ?thesis unfolding reads_as_def by auto
  next
    case False
    with assms(3) show ?thesis
      by (auto simp: written_as_def reads_as_def rejects_def open_k body)
  qed
qed

definition document_leaves :: "string \<Rightarrow> jval \<Rightarrow> (string list \<times> string) list" where
  "document_leaves root v =
     (case v of JMaps ms \<Rightarrow> concat (map (\<lambda>m. under [root] (map_leaves m)) ms)
      | JMap m \<Rightarrow> under [root] (map_leaves m) | _ \<Rightarrow> [])"

lemma toXML_reads:
  assumes it: "is_order it" and "name_ok root" "CHR ''>'' \<notin> set ns"
    and "(\<exists>ms. v = JMaps ms \<and> (\<forall>m \<in> set ms. map_ok m)) \<or> (\<exists>m. v = JMap m \<and> map_ok m)"
  shows "if val_plain v
     then \<exists>ls. read_xml [] [] (toXML it [(x, v)] root ns) = Some ls \<and> mset ls = mset (document_leaves root v)
     else read_xml [] [] (toXML it [(x, v)] root ns) = None"
proof -
  note w = root_reads_as [OF assms(2,3) writeXMLMap_written(1) [OF it]]
  have "reads_as (toXML it [(x, v)] root ns) (val_plain v) (document_leaves root v)"
    using assms(4) w
      reads_as_concat [of _ "\<lambda>m. xml_root root ns (writeXMLMap it m 1)" map_plain "\<lambda>m. under [root] (map_leaves m)"]
    by (auto simp: toXML_def document_leaves_def
        simp del: map_ok.simps map_plain.simps map_leaves.simps writeXMLMap.simps)
  moreover have "read_xml [] [] [] = Some []" by (simp add: read_xml.simps)
  ultimately show ?thesis
    unfolding reads_as_def reads_def rejects_def
    by (metis append_Nil2 inner_simps(1) list.map(1) option.map(2) rev.simps(1) under_simps(3))
qed

subsection \<open>Every endpoint\<close>

definition client_strings :: "client \<Rightarrow> string list" where
  "client_strings c = [c_MAC c, c_IPv4 c, c_Username c, c_Hostname c, c_SSID c, c_BSSID c, c_RadioType c,
     c_SecurityMode c, c_EncryptionType c, c_AuthKeyMgmt c, c_DeviceType c, c_DeviceOS c, c_VLANName c,
     c_State c, c_PolicyProfile c, c_WLANProfile c, c_AssocTime c] @ c_IPv6 c"

definition ap_strings :: "ap \<Rightarrow> string list" where
  "ap_strings a = [ap_Name a, ap_MAC a, ap_Model a] @ concat (map client_strings (ap_Clients a))"

definition device_strings :: "device \<Rightarrow> string list" where
  "device_strings d = [d_IP d, d_Version d] @ concat (map ap_strings (d_APs d))"

definition tagless :: "string \<Rightarrow> bool" where
  "tagless s \<longleftrightarrow> CHR ''<'' \<notin> set s"

definition endpoint :: "string \<Rightarrow> device \<Rightarrow> string \<Rightarrow> (string \<times> jval \<times> string \<times> string) option" where
  \<comment> \<open>the resource a path names: qualified name, value, element name, namespace\<close>
  "endpoint ago d p =
     (let ws = AllClients d;
          cl = (\<lambda>n ms. (client_mod @ n, JMaps ms, n, yangNS)); ap = (\<lambda>n ms. (ap_mod @ n, JMaps ms, n, apYangNS))
      in if p = client_data_path
         then Some (client_mod @ ''client-oper-data'', JMap [
              (''common-oper-data'', JMaps (buildCommonOperData ws)),
              (''dot11-oper-data'', JMaps (buildDot11OperData ago ws)),
              (''traffic-stats'', JMaps (buildTrafficStats ws)),
              (''sisf-db-mac'', JMaps (buildSisfDbMac ws)),
              (''dc-info'', JMaps (buildDcInfo ws)),
              (''policy-data'', JMaps (buildPolicyData ws))], ''client-oper-data'', yangNS)
         else if p = client_data_path @ ''/common-oper-data'' then Some (cl ''common-oper-data'' (buildCommonOperData ws))
         else if p = client_data_path @ ''/dot11-oper-data'' then Some (cl ''dot11-oper-data'' (buildDot11OperData ago ws))
         else if p = client_data_path @ ''/traffic-stats'' then Some (cl ''traffic-stats'' (buildTrafficStats ws))
         else if p = client_data_path @ ''/sisf-db-mac'' then Some (cl ''sisf-db-mac'' (buildSisfDbMac ws))
         else if p = client_data_path @ ''/dc-info'' then Some (cl ''dc-info'' (buildDcInfo ws))
         else if p = client_data_path @ ''/policy-data'' then Some (cl ''policy-data'' (buildPolicyData ws))
         else if p = ap_data_path
         then Some (ap_mod @ ''access-point-oper-data'', JMap [
              (''capwap-data'', JMaps (buildCapwapData d)),
              (''ap-name-mac-map'', JMaps (buildAPNameMacMap d)),
              (''radio-oper-data'', JMaps (buildRadioOperData d))], ''access-point-oper-data'', apYangNS)
         else if p = ap_data_path @ ''/capwap-data'' then Some (ap ''capwap-data'' (buildCapwapData d))
         else if p = ap_data_path @ ''/ap-name-mac-map'' then Some (ap ''ap-name-mac-map'' (buildAPNameMacMap d))
         else if p = ap_data_path @ ''/radio-oper-data'' then Some (ap ''radio-oper-data'' (buildRadioOperData d))
         else None)"

lemma mux_if:
  "A = F a \<Longrightarrow> B = (case b of None \<Rightarrow> N | Some x \<Rightarrow> F x) \<Longrightarrow>
   (if c then A else B) = (case (if c then Some a else b) of None \<Rightarrow> N | Some x \<Rightarrow> F x)"
  by simp

lemma mux_endpoints:
  "restconf_mux ago it d r =
     (if rq_path r = ''/.well-known/host-meta'' then host_meta
      else case endpoint ago d (rq_path r) of
             None \<Rightarrow> http_error ''404 page not found'' 404
           | Some e \<Rightarrow> (case e of (x, v, root, ns) \<Rightarrow> writeResponse it r [(x, v)] root ns))"
  unfolding restconf_mux_def endpoint_def Let_def
  by (intro if_cong refl mux_if)
    (simp_all only: handleClientOperData_def handleCommonOperData_def handleDot11OperData_def
      handleTrafficStats_def handleSisfDbMac_def handleDcInfo_def handlePolicyData_def handleAPOperData_def
      handleCapwapData_def handleAPNameMacMap_def handleRadioOperData_def Let_def prod.case option.case)

lemma mux_endpoint:
  assumes "endpoint ago d (rq_path r) = Some (x, v, root, ns)"
  shows "restconf_mux ago it d r = writeResponse it r [(x, v)] root ns"
proof -
  have "endpoint ago d ''/.well-known/host-meta'' = None"
    by (simp add: endpoint_def client_data_path_def ap_data_path_def)
  then have "rq_path r \<noteq> ''/.well-known/host-meta''" using assms by auto
  then show ?thesis using assms by (simp add: mux_endpoints)
qed

lemma name_ok_Cons: "name_ok (c # k) \<longleftrightarrow> c \<noteq> CHR ''/'' \<and> CHR ''>'' \<notin> set (c # k) \<and> CHR '' '' \<notin> set (c # k)"
  by (auto simp: name_ok_def)

lemma map_ok_Cons: "map_ok ((k, v) # m) \<longleftrightarrow> name_ok k \<and> val_ok v \<and> (m = [] \<or> map_ok m)"
  by auto

lemma itoa_suffix_tagless: "CHR ''<'' \<notin> set (itoa i @ ''.0'')"
  by simp

lemma client_entries_ok:
  assumes "\<forall>s \<in> set (client_strings (cwa_Client w) @ [ap_Name (cwa_AP w), ap_MAC (cwa_AP w), ago]). tagless s"
  shows "map_ok (common_entry w)" "map_ok (dot11_entry ago w)" "map_ok (traffic_entry w)" "map_ok (sisf_entry w)"
    "map_ok (dc_entry w)" "map_ok (policy_entry w)"
  using assms
  by (simp_all add: common_entry_def dot11_entry_def traffic_entry_def sisf_entry_def dc_entry_def policy_entry_def
      Let_def map_ok_Cons name_ok_Cons client_strings_def tagless_def methodID_def assocTime_def wlanProfile_def
      orDefault_def ip_key_def del: map_ok.simps)


lemma ap_entries_ok:
  assumes "\<forall>s \<in> set (d_IP d # d_Version d # ap_strings a). tagless s"
  shows "map_ok (capwap_entry d a)" "\<forall>m \<in> set (ap_radios a). map_ok m"
    "map_ok [(''wtp-name'', JStr (ap_Name a)), (''wtp-mac'', JStr (ap_MAC a))]"
  using assms
  by (auto simp: capwap_entry_def ap_radios_def radio_entry_def Let_def map_ok_Cons name_ok_Cons ap_strings_def
      tagless_def simp del: map_ok.simps split: prod.splits)

lemma AllClients_strings:
  assumes "\<forall>s \<in> set (ago # device_strings d). tagless s" and "w \<in> set (AllClients d)"
  shows "\<forall>s \<in> set (client_strings (cwa_Client w) @ [ap_Name (cwa_AP w), ap_MAC (cwa_AP w), ago]). tagless s"
proof -
  from assms(2) have "cwa_AP w \<in> set (d_APs d)" "cwa_Client w \<in> set (ap_Clients (cwa_AP w))"
    by (auto simp: set_AllClients)
  with assms(1) show ?thesis by (fastforce simp: device_strings_def ap_strings_def)
qed

lemma endpoint_ok:
  assumes "endpoint ago d p = Some (x, v, root, ns)"
    and t: "\<forall>s \<in> set (ago # device_strings d). tagless s" and "AllClients d \<noteq> []"
  shows "name_ok root \<and> CHR ''>'' \<notin> set ns \<and>
    ((\<exists>ms. v = JMaps ms \<and> (\<forall>m \<in> set ms. map_ok m)) \<or> (\<exists>m. v = JMap m \<and> map_ok m))"
proof -
  have c: "\<forall>m \<in> set (buildCommonOperData (AllClients d)). map_ok m" "\<forall>m \<in> set (buildDot11OperData ago (AllClients d)). map_ok m"
    "\<forall>m \<in> set (buildTrafficStats (AllClients d)). map_ok m" "\<forall>m \<in> set (buildSisfDbMac (AllClients d)). map_ok m"
    "\<forall>m \<in> set (buildDcInfo (AllClients d)). map_ok m" "\<forall>m \<in> set (buildPolicyData (AllClients d)). map_ok m"
    using client_entries_ok [OF AllClients_strings [OF t]]
    by (simp_all add: buildCommonOperData_def buildDot11OperData_def buildTrafficStats_def buildSisfDbMac_def
        buildDcInfo_def buildPolicyData_def del: map_ok.simps)
  have "\<forall>s \<in> set (d_IP d # d_Version d # ap_strings a). tagless s" if "a \<in> set (d_APs d)" for a
    using t that by (auto simp: device_strings_def)
  note a = ap_entries_ok [OF this]
  have a': "\<forall>m \<in> set (buildCapwapData d). map_ok m" "\<forall>m \<in> set (buildAPNameMacMap d). map_ok m"
    "\<forall>m \<in> set (buildRadioOperData d). map_ok m"
    using a by (auto simp: buildCapwapData_def buildAPNameMacMap_def buildRadioOperData_def simp del: map_ok.simps)
  have n: "buildCommonOperData (AllClients d) \<noteq> []" "buildDot11OperData ago (AllClients d) \<noteq> []"
    "buildTrafficStats (AllClients d) \<noteq> []" "buildSisfDbMac (AllClients d) \<noteq> []" "buildDcInfo (AllClients d) \<noteq> []"
    "buildPolicyData (AllClients d) \<noteq> []"
    using assms(3) by (simp_all add: buildCommonOperData_def buildDot11OperData_def buildTrafficStats_def
        buildSisfDbMac_def buildDcInfo_def buildPolicyData_def)
  have "d_APs d \<noteq> []" using assms(3) by (auto simp: AllClients_def)
  then have n': "buildCapwapData d \<noteq> []" "buildAPNameMacMap d \<noteq> []" "buildRadioOperData d \<noteq> []"
    by (auto simp: buildCapwapData_def buildAPNameMacMap_def buildRadioOperData_def ap_radios_def neq_Nil_conv split: prod.splits)
  have ns: "CHR ''>'' \<notin> set yangNS" "CHR ''>'' \<notin> set apYangNS" by (simp_all add: yangNS_def apYangNS_def)
  show ?thesis
    using assms(1) c a' n n' ns unfolding endpoint_def Let_def
    by (auto simp: name_ok_Cons map_ok_Cons split: if_splits simp del: map_ok.simps)
qed


definition sample_site :: "string \<Rightarrow> device" where
  \<comment> \<open>a controller with one client for the examples; the argument is the SSID\<close>
  "sample_site ssid = empty_device\<lparr>d_APs := [empty_ap\<lparr>ap_Name := ''ap1'', ap_Clients :=
     [empty_client\<lparr>c_MAC := ''aa'', c_SSID := ssid, c_VLANName := ''v''\<rparr>]\<rparr>]\<rparr>"

definition get_request :: "string \<Rightarrow> request" where
  "get_request p = \<lparr>rq_path = p, rq_method = ''GET'', rq_accept = [], rq_auth = None, rq_source = ''h''\<rparr>"

lemma sample_site_facts:
  "CHR ''<'' \<notin> set ssid \<Longrightarrow> \<forall>s \<in> set ([] # device_strings (sample_site ssid)). tagless s"
  "AllClients (sample_site ssid) \<noteq> []" "\<not> wantsJSON (get_request p)" "rq_path (get_request p) = p"
  by (simp_all add: device_strings_def ap_strings_def client_strings_def sample_site_def empty_device_def
      empty_ap_def empty_client_def tagless_def AllClients_def wantsJSON_def get_request_def Contains_def)


text \<open>
  An SSID with an ampersand, a legal one, makes the wireless data of the whole controller
  unreadable: whatever the iteration order and the other clients, the XML of
  \<^verbatim>\<open>dot11-oper-data\<close> does not parse, while the JSON answer is unaffected.
\<close>

theorem restconf_ampersand_unreadable:
  assumes "is_order it" and "w \<in> set (AllClients d)" and "CHR ''&'' \<in> set (c_SSID (cwa_Client w))"
    and "\<forall>s \<in> set (ago # device_strings d). tagless s"
    and "rq_path r = client_data_path @ ''/dot11-oper-data''" and "\<not> wantsJSON r"
  shows "\<exists>s. rs_body (restconf_mux ago it d r) = XmlBody (xml_header @ s) \<and> read_xml [] [] s = None"
proof -
  have e: "endpoint ago d (rq_path r) = Some (client_mod @ ''dot11-oper-data'',
      JMaps (buildDot11OperData ago (AllClients d)), ''dot11-oper-data'', yangNS)"
    by (simp add: assms(5) endpoint_def client_data_path_def ap_data_path_def Let_def)
  have "\<not> map_plain (dot11_entry ago w)"
    using assms(3) by (simp add: dot11_entry_def Let_def)
  then have np: "\<not> val_plain (JMaps (buildDot11OperData ago (AllClients d)))"
    using assms(2) by (auto simp: buildDot11OperData_def simp del: map_plain.simps)
  have "AllClients d \<noteq> []" using assms(2) by auto
  from endpoint_ok [OF e assms(4) this] np toXML_reads [OF assms(1), of "''dot11-oper-data''" yangNS]
  have "read_xml [] [] (toXML it [(client_mod @ ''dot11-oper-data'',
      JMaps (buildDot11OperData ago (AllClients d)))] ''dot11-oper-data'' yangNS) = None"
    by (simp del: val_plain.simps map_ok.simps)
  then show ?thesis
    using assms(6) by (simp add: mux_endpoint [OF e] writeResponse_def)
qed

theorem restconf_ampersand_unreadable_witness:
  "\<exists>s. rs_body (restconf_mux [] rev (sample_site ''R&D'') (get_request (client_data_path @ ''/dot11-oper-data''))) =
     XmlBody (xml_header @ s) \<and> read_xml [] [] s = None"
proof -
  let ?w = "\<lparr>cwa_Client = hd (ap_Clients (hd (d_APs (sample_site ''R&D'')))), cwa_AP = hd (d_APs (sample_site ''R&D''))\<rparr>"
  have "?w \<in> set (AllClients (sample_site ''R&D''))" "CHR ''&'' \<in> set (c_SSID (cwa_Client ?w))"
    by (simp_all add: set_AllClients sample_site_def)
  from restconf_ampersand_unreadable [OF is_order_rev this sample_site_facts(1) sample_site_facts(4,3)]
  show ?thesis by simp
qed

text \<open>
  C15. Nothing of the controller is shown without its credentials, and every request is
  accounted for: whatever the path, the answer has status 401 and a fixed text exactly when the
  request does not carry the configured user and password, it is the endpoint's answer
  otherwise, and in both cases the newest entry of the access log records the path, the claimed
  user and the status that was sent.
\<close>

theorem restconf_authenticated_and_logged:
  assumes "store_wf logs"
  shows "\<exists>rs logs'. serve_restconf ago it now user pass d r logs = Inr (rs, logs') \<and> store_wf logs' \<and>
    (rs_code rs = 401 \<longleftrightarrow> rq_auth r \<noteq> Some (user, pass)) \<and>
    rs = (if rq_auth r = Some (user, pass) then restconf_mux ago it d r else unauthorized) \<and>
    entries logs' \<noteq> [] \<and>
    (let e = last (entries logs')
     in e_Status e = rs_code rs \<and> e_Path e = rq_path r \<and> e_DeviceHost e = d_Hostname d \<and>
        e_User e = (case rq_auth r of None \<Rightarrow> [] | Some (u, _) \<Rightarrow> u))"
proof -
  let ?rs = "basicAuth user pass (restconf_mux ago it d) r"
  let ?e = "empty_entry\<lparr>e_DeviceHost := d_Hostname d, e_DeviceIP := d_IP d, e_Type := ''restconf'',
     e_Source := rq_source r, e_Method := rq_method r, e_Path := rq_path r, e_Status := rs_code ?rs,
     e_User := (case rq_auth r of None \<Rightarrow> [] | Some (u, _) \<Rightarrow> u)\<rparr>"
  have rs: "?rs = (if rq_auth r = Some (user, pass) then restconf_mux ago it d r else unauthorized)"
    by (auto simp: basicAuth_def split: option.splits)
  have "rs_code (restconf_mux ago it d r) \<noteq> 401"
    by (simp add: mux_endpoints host_meta_def http_error_def writeResponse_def split: option.splits prod.splits)
  then have c: "rs_code ?rs = 401 \<longleftrightarrow> rq_auth r \<noteq> Some (user, pass)"
    unfolding rs by (simp add: unauthorized_def http_error_def Let_def)
  note add = Add_result [OF assms, of now ?e]
  have pos: "0 < nat (maxSize logs)" using assms by (simp add: store_wf_def)
  then have l: "last (entries (Add_ok now ?e logs)) = stamp now ?e" "entries (Add_ok now ?e logs) \<noteq> []"
    using add last_n_snoc [of "nat (maxSize logs) - 1" "entries logs" "stamp now ?e"] by simp_all
  have "serve_restconf ago it now user pass d r logs = Inr (?rs, Add_ok now ?e logs)"
    using add by (simp add: serve_restconf_def logRequests_def Let_def)
  with l add c rs show ?thesis
    by (intro exI [of _ ?rs] exI [of _ "Add_ok now ?e logs"]) (simp add: stamp_def Let_def)
qed

theorem restconf_authenticated_and_logged_witness:
  "\<exists>rs logs'. serve_restconf [] rev 7 ''admin'' ''pw'' (sample_site ''corp'') (get_request ap_data_path) sample_store = Inr (rs, logs') \<and>
     rs_code rs = 401 \<and> e_Status (last (entries logs')) = 401"
proof -
  have "store_wf sample_store" by (simp add: store_wf_def sample_store_def)
  from restconf_authenticated_and_logged [OF this, of "[]" rev 7 "''admin''" "''pw''" "sample_site ''corp''" "get_request ap_data_path"]
  show ?thesis by (auto simp: get_request_def Let_def)
qed

end
