(* ===== verification/Tftp.thy ===== *)
theory Tftp
  imports Device AccessLog
begin

text \<open>
  \<^verbatim>\<open>internal/tftpsim/server.go\<close>: TFTP servers started on demand, one per
  controller, and stopped after thirty seconds without a transfer. Each call of
  \<^verbatim>\<open>EnsureRunning\<close> and each \<^verbatim>\<open>run\<close> goroutine is cut at its lock
  regions into steps that can interleave; time is a clock that the steps read. The
  library server, sockets and timers appear as the phase and the deadline of an instance.
\<close>

section \<open>State\<close>

datatype phase = Starting | Serving | Closing | Stopped

record tftp_instance =
  in_IP :: string
  in_phase :: phase
  in_deadline :: int

record manager =
  mg_inst :: "string \<Rightarrow> nat option"
  mg_all :: "nat \<Rightarrow> tftp_instance option"
  mg_next :: nat
  mg_now :: int

definition idleTimeout :: int where
  "idleTimeout = 30"

definition NewManager :: "int \<Rightarrow> manager" where
  "NewManager now = \<lparr>mg_inst = (\<lambda>_. None), mg_all = (\<lambda>_. None), mg_next = 0, mg_now = now\<rparr>"

definition tftp_port :: "device \<Rightarrow> int" where
  "tftp_port d = (if d_TFTPPort d = 0 then 69 else d_TFTPPort d)"

definition listen_addr :: "device \<Rightarrow> string" where
  "listen_addr d = d_IP d @ '':'' @ itoa (tftp_port d)"

datatype socket_option = SO_REUSEADDR | SO_REUSEPORT

definition listenUDPReuse :: "bool \<Rightarrow> (socket_option \<Rightarrow> bool) \<Rightarrow> bool \<Rightarrow> socket_option list \<times> bool" where
  \<comment> \<open>the options set on the descriptor (if the call that hands it out works) before the bind, and whether the
     socket listens; the first option that is refused ends the attempt\<close>
  "listenUDPReuse control sets binds =
     (if \<not> control then ([], False)
      else if \<not> sets SO_REUSEADDR then ([], False)
      else if \<not> sets SO_REUSEPORT then ([SO_REUSEADDR], False)
      else ([SO_REUSEADDR, SO_REUSEPORT], binds))"

lemma listening_is_shareable: "snd (listenUDPReuse control sets binds) \<Longrightarrow> fst (listenUDPReuse control sets binds) = [SO_REUSEADDR, SO_REUSEPORT]"
  by (auto simp: listenUDPReuse_def split: if_splits)

definition set_instance :: "nat \<Rightarrow> (tftp_instance \<Rightarrow> tftp_instance) \<Rightarrow> manager \<Rightarrow> manager" where
  "set_instance i f m =
     (case mg_all m i of None \<Rightarrow> m | Some x \<Rightarrow> m\<lparr>mg_all := (mg_all m)(i \<mapsto> f x)\<rparr>)"

section \<open>Steps\<close>

definition touch :: "nat \<Rightarrow> manager \<Rightarrow> manager" where
  \<comment> \<open>\<^verbatim>\<open>timer.Reset(idleTimeout)\<close>\<close>
  "touch i m = set_instance i (\<lambda>x. x\<lparr>in_deadline := mg_now m + idleTimeout\<rparr>) m"

definition ensure_check :: "string \<Rightarrow> manager \<Rightarrow> bool \<times> manager" where
  \<comment> \<open>the lock region of \<^verbatim>\<open>EnsureRunning\<close>: True when it returns at once\<close>
  "ensure_check ip m = (case mg_inst m ip of Some i \<Rightarrow> (True, touch i m) | None \<Rightarrow> (False, m))"

definition run_start :: "string \<Rightarrow> manager \<Rightarrow> nat \<times> manager" where
  \<comment> \<open>\<^verbatim>\<open>go m.run(...)\<close> up to the attempt to listen\<close>
  "run_start ip m =
     (mg_next m,
      m\<lparr>mg_all := (mg_all m)(mg_next m \<mapsto>
            \<lparr>in_IP = ip, in_phase = Starting, in_deadline = mg_now m + idleTimeout\<rparr>),
        mg_next := Suc (mg_next m)\<rparr>)"

definition run_listen :: "bool \<Rightarrow> nat \<Rightarrow> manager \<Rightarrow> manager" where
  \<comment> \<open>listening, and on success the registration; both ways the caller is released\<close>
  "run_listen ok i m =
     (case mg_all m i of
        None \<Rightarrow> m
      | Some x \<Rightarrow>
          if ok then (set_instance i (\<lambda>x. x\<lparr>in_phase := Serving\<rparr>) m)\<lparr>mg_inst := (mg_inst m)(in_IP x \<mapsto> i)\<rparr>
          else set_instance i (\<lambda>x. x\<lparr>in_phase := Stopped\<rparr>) m)"

definition run_close :: "nat \<Rightarrow> manager \<Rightarrow> manager" where
  \<comment> \<open>the select has returned: the server is shut down and the socket closed\<close>
  "run_close i m = set_instance i (\<lambda>x. x\<lparr>in_phase := Closing\<rparr>) m"

definition run_delete :: "nat \<Rightarrow> manager \<Rightarrow> manager" where
  \<comment> \<open>the last lock region: the entry under the address is deleted, whoever's it is\<close>
  "run_delete i m =
     (case mg_all m i of
        None \<Rightarrow> m
      | Some x \<Rightarrow> (set_instance i (\<lambda>x. x\<lparr>in_phase := Stopped\<rparr>) m)\<lparr>mg_inst := (mg_inst m)(in_IP x := None)\<rparr>)"

definition EnsureRunning :: "bool \<Rightarrow> string \<Rightarrow> manager \<Rightarrow> manager" where
  \<comment> \<open>a call that nothing interleaves with\<close>
  "EnsureRunning ok ip m =
     (let (running, m1) = ensure_check ip m
      in if running then m1 else (let (i, m2) = run_start ip m1 in run_listen ok i m2))"

section \<open>The transfer handlers\<close>

definition readHandler ::
  "render_env \<Rightarrow> int \<Rightarrow> string option \<Rightarrow> string \<Rightarrow> nat \<Rightarrow> device \<times> store \<times> manager \<Rightarrow>
     panic + (string \<times> device \<times> store \<times> manager)" where
  \<comment> \<open>the content offered for a file; the remote address is known when the transfer has one\<close>
  "readHandler env now remote filename i dlm =
     (let (d, logs, m) = dlm; m1 = touch i m;
          (config, d') = (if Contains filename ''startup'' then StartupConfig env d else RunningConfig env d)
      in on_ok (\<lambda>logs'. Inr (config, d', logs', touch i m1))
           (Add now (empty_entry\<lparr>e_DeviceHost := d_Hostname d', e_DeviceIP := d_IP d', e_Type := ''tftp'',
              e_Method := ''READ'', e_Path := filename,
              e_Source := (case remote of None \<Rightarrow> [] | Some a \<Rightarrow> a)\<rparr>) logs))"

definition writeHandler ::
  "int \<Rightarrow> string option \<Rightarrow> string \<Rightarrow> nat \<Rightarrow> device \<times> store \<times> manager \<Rightarrow> panic + (device \<times> store \<times> manager)" where
  \<comment> \<open>an upload is read to its end and discarded\<close>
  "writeHandler now remote filename i dlm =
     (let (d, logs, m) = dlm; m1 = touch i m
      in on_ok (\<lambda>logs'. Inr (d, logs', touch i m1))
           (Add now (empty_entry\<lparr>e_DeviceHost := d_Hostname d, e_DeviceIP := d_IP d, e_Type := ''tftp'',
              e_Method := ''WRITE'', e_Path := filename,
              e_Source := (case remote of None \<Rightarrow> [] | Some a \<Rightarrow> a)\<rparr>) logs))"

section \<open>Interleavings\<close>

definition phase_of :: "nat \<Rightarrow> manager \<Rightarrow> phase option" where
  "phase_of i m = map_option in_phase (mg_all m i)"

datatype label =
    Check string | Start string | Listen bool nat | Transfer nat | Expire nat | Fail nat | Delete nat | Tick int

inductive tftp_step :: "manager \<Rightarrow> label \<Rightarrow> manager \<Rightarrow> bool" where
  check_hit: "ensure_check ip m = (True, m') \<Longrightarrow> tftp_step m (Check ip) m'"
| check_miss: "ensure_check ip m = (False, m1) \<Longrightarrow> tftp_step m (Start ip) (snd (run_start ip m1))"
| listen: "phase_of i m = Some Starting \<Longrightarrow> tftp_step m (Listen ok i) (run_listen ok i m)"
| transfer: "phase_of i m = Some Serving \<Longrightarrow> tftp_step m (Transfer i) (touch i m)"
| expire: "mg_all m i = Some x \<Longrightarrow> in_phase x = Serving \<Longrightarrow> in_deadline x \<le> mg_now m \<Longrightarrow>
     tftp_step m (Expire i) (run_close i m)"
| fail: "phase_of i m = Some Serving \<Longrightarrow> tftp_step m (Fail i) (run_close i m)"
| delete: "phase_of i m = Some Closing \<Longrightarrow> tftp_step m (Delete i) (run_delete i m)"
| tick: "0 \<le> dt \<Longrightarrow> tftp_step m (Tick dt) (m\<lparr>mg_now := mg_now m + dt\<rparr>)"

inductive_cases tftp_stepE: "tftp_step m l m'"

inductive tftp_reachable :: "manager \<Rightarrow> bool" where
  init: "tftp_reachable (NewManager now)"
| step: "tftp_reachable m \<Longrightarrow> tftp_step m l m' \<Longrightarrow> tftp_reachable m'"

section \<open>Safety\<close>

definition inst_at :: "manager \<Rightarrow> nat \<Rightarrow> string \<Rightarrow> phase \<Rightarrow> bool" where
  "inst_at m i ip p \<longleftrightarrow> (\<exists>x. mg_all m i = Some x \<and> in_IP x = ip \<and> in_phase x = p)"

definition live :: "phase \<Rightarrow> bool" where
  "live p \<longleftrightarrow> p = Serving \<or> p = Closing"

definition manager_wf :: "manager \<Rightarrow> bool" where
  "manager_wf m \<longleftrightarrow>
     (\<forall>i ip p. inst_at m i ip p \<longrightarrow> i < mg_next m) \<and>
     (\<forall>ip i. mg_inst m ip = Some i \<longrightarrow> (\<exists>p. inst_at m i ip p \<and> live p))"

definition alone :: "manager \<Rightarrow> bool" where
  \<comment> \<open>one server per address, and the table knows it\<close>
  "alone m \<longleftrightarrow>
     (\<forall>i j ip p q. inst_at m i ip p \<longrightarrow> inst_at m j ip q \<longrightarrow> p \<noteq> Stopped \<longrightarrow> q \<noteq> Stopped \<longrightarrow> i = j) \<and>
     (\<forall>i ip p. inst_at m i ip p \<longrightarrow> live p \<longrightarrow> mg_inst m ip = Some i)"

definition quiet :: "string \<Rightarrow> manager \<Rightarrow> bool" where
  "quiet ip m \<longleftrightarrow> (\<forall>i p. inst_at m i ip p \<longrightarrow> p = Stopped)"

lemma all_set_instance [simp]:
  "mg_all (set_instance i f m) j = (if j = i then map_option f (mg_all m i) else mg_all m j)"
  "mg_inst (set_instance i f m) = mg_inst m" "mg_next (set_instance i f m) = mg_next m"
  "mg_now (set_instance i f m) = mg_now m"
  by (auto simp: set_instance_def split: option.splits)

lemma inst_at_fun: "inst_at m i ip p \<Longrightarrow> inst_at m i ip' p' \<Longrightarrow> ip' = ip \<and> p' = p"
  by (auto simp: inst_at_def)

lemma phase_of_inst_at: "phase_of i m = Some p \<longleftrightarrow> (\<exists>ip. inst_at m i ip p)"
  by (auto simp: phase_of_def inst_at_def)

lemma inst_at_touch [simp]: "inst_at (touch i m) j ip p \<longleftrightarrow> inst_at m j ip p"
  by (auto simp: inst_at_def touch_def)

lemma mg_touch [simp]: "mg_inst (touch i m) = mg_inst m" "mg_next (touch i m) = mg_next m" "mg_now (touch i m) = mg_now m"
  by (simp_all add: touch_def)

lemma inst_at_phase: "inst_at (set_instance i (\<lambda>x. x\<lparr>in_phase := p\<rparr>) m) j ip q \<longleftrightarrow>
    (if j = i then q = p \<and> (\<exists>p0. inst_at m i ip p0) else inst_at m j ip q)"
  by (auto simp: inst_at_def)

lemma inst_at_with_inst [simp]: "inst_at (m\<lparr>mg_inst := f\<rparr>) j ip q \<longleftrightarrow> inst_at m j ip q"
  "inst_at (m\<lparr>mg_now := t\<rparr>) j ip q \<longleftrightarrow> inst_at m j ip q"
  by (simp_all add: inst_at_def)

lemma run_start_effect:
  "inst_at (snd (run_start ip m)) j ip' q \<longleftrightarrow> (if j = mg_next m then ip' = ip \<and> q = Starting else inst_at m j ip' q)"
  "mg_inst (snd (run_start ip m)) = mg_inst m" "mg_next (snd (run_start ip m)) = Suc (mg_next m)"
  by (auto simp: run_start_def inst_at_def)

lemma run_listen_effect:
  assumes "inst_at m i ip p"
  shows "inst_at (run_listen ok i m) j ip' q \<longleftrightarrow>
      (if j = i then ip' = ip \<and> q = (if ok then Serving else Stopped) else inst_at m j ip' q)"
    "mg_inst (run_listen ok i m) = (if ok then (mg_inst m)(ip \<mapsto> i) else mg_inst m)"
    "mg_next (run_listen ok i m) = mg_next m"
proof -
  from assms obtain x where x: "mg_all m i = Some x" "in_IP x = ip" by (auto simp: inst_at_def)
  show "inst_at (run_listen ok i m) j ip' q \<longleftrightarrow>
      (if j = i then ip' = ip \<and> q = (if ok then Serving else Stopped) else inst_at m j ip' q)"
    using x assms by (auto simp: run_listen_def inst_at_phase dest: inst_at_fun)
qed (use assms in \<open>auto simp: run_listen_def inst_at_def\<close>)

lemma run_close_effect:
  assumes "inst_at m i ip p"
  shows "inst_at (run_close i m) j ip' q \<longleftrightarrow> (if j = i then ip' = ip \<and> q = Closing else inst_at m j ip' q)"
    "mg_inst (run_close i m) = mg_inst m" "mg_next (run_close i m) = mg_next m"
  using assms by (auto simp: run_close_def inst_at_phase dest: inst_at_fun)

lemma run_delete_effect:
  assumes "inst_at m i ip p"
  shows "inst_at (run_delete i m) j ip' q \<longleftrightarrow> (if j = i then ip' = ip \<and> q = Stopped else inst_at m j ip' q)"
    "mg_inst (run_delete i m) = (mg_inst m)(ip := None)" "mg_next (run_delete i m) = mg_next m"
proof -
  from assms obtain x where x: "mg_all m i = Some x" "in_IP x = ip" by (auto simp: inst_at_def)
  show "inst_at (run_delete i m) j ip' q \<longleftrightarrow> (if j = i then ip' = ip \<and> q = Stopped else inst_at m j ip' q)"
    using x assms by (auto simp: run_delete_def inst_at_phase dest: inst_at_fun)
qed (use assms in \<open>auto simp: run_delete_def inst_at_def\<close>)

lemma ensure_check_effect: "ensure_check ip m = (b, m') \<Longrightarrow>
    inst_at m' j ip' q = inst_at m j ip' q \<and> mg_inst m' = mg_inst m \<and> mg_next m' = mg_next m \<and> mg_now m' = mg_now m \<and>
    (\<not> b \<longrightarrow> m' = m \<and> mg_inst m ip = None)"
  by (auto simp: ensure_check_def split: option.splits)

lemmas effects = run_start_effect run_listen_effect run_close_effect run_delete_effect

lemma expire_phase: "mg_all m i = Some x \<Longrightarrow> in_phase x = p \<Longrightarrow> inst_at m i (in_IP x) p"
  by (simp add: inst_at_def)

lemma wf_change:
  assumes "manager_wf m" "\<And>j ip p. j \<noteq> i \<Longrightarrow> inst_at m' j ip p = inst_at m j ip p" "mg_next m \<le> mg_next m'"
    "\<And>ip p. inst_at m' i ip p \<Longrightarrow> i < mg_next m'"
    "\<And>ip j. mg_inst m' ip = Some j \<Longrightarrow>
       j \<noteq> i \<and> mg_inst m ip = Some j \<or> j = i \<and> (\<exists>p. inst_at m' i ip p \<and> live p)"
  shows "manager_wf m'"
proof -
  have "j < mg_next m'" if "inst_at m' j ip p" for j ip p
  proof (cases "j = i")
    case True
    with that assms(4) show ?thesis by blast
  next
    case False
    with that assms(1,2) have "j < mg_next m" unfolding manager_wf_def by blast
    with assms(3) show ?thesis by simp
  qed
  moreover have "\<exists>p. inst_at m' j ip p \<and> live p" if "mg_inst m' ip = Some j" for ip j
    using assms(5) [OF that] assms(1,2) unfolding manager_wf_def by blast
  ultimately show ?thesis unfolding manager_wf_def by blast
qed

lemma registered_live: "manager_wf m \<Longrightarrow> mg_inst m ip = Some i \<Longrightarrow> inst_at m i ip' p \<Longrightarrow> ip' = ip \<and> live p"
  unfolding manager_wf_def by (metis inst_at_fun)

lemma inst_lt: "manager_wf m \<Longrightarrow> inst_at m i ip p \<Longrightarrow> i < mg_next m"
  by (auto simp: manager_wf_def)

lemma run_close_wf:
  assumes "manager_wf m" "inst_at m i ip Serving"
  shows "manager_wf (run_close i m)"
proof (rule wf_change [OF assms(1), of i])
  fix ip' j assume "mg_inst (run_close i m) ip' = Some j"
  then have j: "mg_inst m ip' = Some j" by (simp add: run_close_effect [OF assms(2)])
  then show "j \<noteq> i \<and> mg_inst m ip' = Some j \<or> j = i \<and> (\<exists>p. inst_at (run_close i m) i ip' p \<and> live p)"
    using registered_live [OF assms(1) j] assms(2)
    by (cases "j = i") (auto simp: run_close_effect [OF assms(2)] live_def)
qed (use inst_lt [OF assms] in \<open>auto simp: run_close_effect [OF assms(2)]\<close>)

lemma run_delete_wf:
  assumes "manager_wf m" "inst_at m i ip Closing"
  shows "manager_wf (run_delete i m)"
proof (rule wf_change [OF assms(1), of i])
  fix ip' j assume "mg_inst (run_delete i m) ip' = Some j"
  then have j: "mg_inst m ip' = Some j" "ip' \<noteq> ip"
    by (auto simp: run_delete_effect [OF assms(2)] split: if_splits)
  then show "j \<noteq> i \<and> mg_inst m ip' = Some j \<or> j = i \<and> (\<exists>p. inst_at (run_delete i m) i ip' p \<and> live p)"
    using registered_live [OF assms(1) j(1)] assms(2) by (cases "j = i") auto
qed (use inst_lt [OF assms] in \<open>auto simp: run_delete_effect [OF assms(2)]\<close>)

lemma run_listen_wf:
  assumes "manager_wf m" "inst_at m i ip Starting"
  shows "manager_wf (run_listen ok i m)"
proof (rule wf_change [OF assms(1), of i])
  fix ip' j assume "mg_inst (run_listen ok i m) ip' = Some j"
  then have "ok \<and> ip' = ip \<and> j = i \<or> mg_inst m ip' = Some j"
    by (auto simp: run_listen_effect [OF assms(2)] split: if_splits)
  then show "j \<noteq> i \<and> mg_inst m ip' = Some j \<or> j = i \<and> (\<exists>p. inst_at (run_listen ok i m) i ip' p \<and> live p)"
    using registered_live [OF assms(1) _ assms(2)] by (auto simp: run_listen_effect [OF assms(2)] live_def)
qed (use inst_lt [OF assms] in \<open>auto simp: run_listen_effect [OF assms(2)]\<close>)

lemma run_start_wf:
  assumes "manager_wf m"
  shows "manager_wf (snd (run_start ip m))"
proof (rule wf_change [OF assms, of "mg_next m"])
  fix ip' j assume "mg_inst (snd (run_start ip m)) ip' = Some j"
  then have j: "mg_inst m ip' = Some j" by (simp add: run_start_effect)
  then have "j < mg_next m" using assms unfolding manager_wf_def by blast
  with j show "j \<noteq> mg_next m \<and> mg_inst m ip' = Some j \<or>
      j = mg_next m \<and> (\<exists>p. inst_at (snd (run_start ip m)) (mg_next m) ip' p \<and> live p)" by simp
qed (simp_all add: run_start_effect)

lemma same_wf: "inst_at m' = inst_at m \<Longrightarrow> mg_inst m' = mg_inst m \<Longrightarrow> mg_next m' = mg_next m \<Longrightarrow> manager_wf m' = manager_wf m"
  by (simp add: manager_wf_def)

lemma ensure_check_same:
  assumes "ensure_check ip m = (b, m')"
  shows "inst_at m' = inst_at m \<and> mg_inst m' = mg_inst m \<and> mg_next m' = mg_next m"
  using ensure_check_effect [OF assms] by (simp add: fun_eq_iff)

lemma tftp_step_wf: "tftp_step m l m' \<Longrightarrow> manager_wf m \<Longrightarrow> manager_wf m'"
proof (induction rule: tftp_step.induct)
  case (check_hit ip m m')
  then show ?case using ensure_check_same same_wf by blast
next
  case (check_miss ip m m1)
  then show ?case using ensure_check_effect run_start_wf by blast
next
  case (transfer i m)
  then show ?case by (simp add: manager_wf_def)
next
  case (expire m i x)
  then show ?case using run_close_wf expire_phase by blast
next
  case (tick dt m)
  then show ?case by (simp add: manager_wf_def)
qed (auto simp: phase_of_inst_at run_listen_wf run_close_wf run_delete_wf)

lemma inst_at_New [simp]: "\<not> inst_at (NewManager now) i ip p" "mg_inst (NewManager now) ip = None"
  by (simp_all add: inst_at_def NewManager_def)

lemma tftp_reachable_wf: "tftp_reachable m \<Longrightarrow> manager_wf m"
  by (induction rule: tftp_reachable.induct) (auto intro: tftp_step_wf simp: manager_wf_def [of "NewManager _"])


subsection \<open>One server per controller\<close>

inductive calm_reachable :: "manager \<Rightarrow> bool" where
  \<comment> \<open>the runs in which a controller's server is only started when none of its own is starting,
     serving or closing\<close>
  init: "calm_reachable (NewManager now)"
| step: "calm_reachable m \<Longrightarrow> tftp_step m l m' \<Longrightarrow> (\<And>ip. l = Start ip \<Longrightarrow> quiet ip m) \<Longrightarrow> calm_reachable m'"

lemma calm_reachable: "calm_reachable m \<Longrightarrow> tftp_reachable m"
  by (induction rule: calm_reachable.induct) (auto intro: tftp_reachable.intros)

lemma alone_change:
  assumes "alone m" "inst_at m i ip p" "p \<noteq> Stopped"
    and "\<And>j ip' q. inst_at m' j ip' q = (if j = i then ip' = ip \<and> q = p' else inst_at m j ip' q)"
    and "mg_inst m' = (mg_inst m)(ip := (if live p' then Some i else if live p then None else mg_inst m ip))"
  shows "alone m'"
proof -
  have u: "j = i" if "inst_at m j ip q" "q \<noteq> Stopped" for j q
    using assms(1-3) that unfolding alone_def by blast
  have "j = k" if "inst_at m' j ip' q" "inst_at m' k ip' r" "q \<noteq> Stopped" "r \<noteq> Stopped" for j k ip' q r
    using that assms(1) u unfolding assms(4) alone_def by (cases "j = i"; cases "k = i") auto
  moreover have "mg_inst m' ip' = Some j" if "inst_at m' j ip' q" "live q" for j ip' q
  proof (cases "j = i")
    case True
    with that show ?thesis by (simp add: assms(4,5))
  next
    case False
    with that have *: "inst_at m j ip' q" "q \<noteq> Stopped" by (auto simp: assms(4) live_def)
    with u False have "ip' \<noteq> ip" by blast
    with * that(2) assms(1) show ?thesis unfolding alone_def assms(5) by simp
  qed
  ultimately show ?thesis unfolding alone_def by blast
qed

lemma calm_step_alone:
  assumes "tftp_step m l m'" "manager_wf m" "alone m" "\<And>ip. l = Start ip \<Longrightarrow> quiet ip m"
  shows "alone m'"
  using assms
proof (induction rule: tftp_step.induct)
  case (check_hit ip m m')
  then show ?case using ensure_check_same [OF check_hit(1)] by (simp add: alone_def)
next
  case (check_miss ip m m1)
  then have [simp]: "m1 = m" and q: "quiet ip m" using ensure_check_effect by blast+
  have n: "\<not> inst_at m (mg_next m) ip' p" for ip' p using check_miss(2) inst_lt by blast
  show ?case using check_miss(3) q n
    unfolding alone_def quiet_def by (auto simp: run_start_effect live_def)
next
  case (listen i m ok)
  then obtain ip where i: "inst_at m i ip Starting" by (auto simp: phase_of_inst_at)
  show ?case
    by (rule alone_change [OF listen(3) i, where p' = "if ok then Serving else Stopped"])
      (auto simp: run_listen_effect [OF i] live_def)
next
  case (expire m i x)
  note i = expire_phase [OF expire(1,2)]
  have "mg_inst m (in_IP x) = Some i" using expire(5) i unfolding alone_def live_def by blast
  then show ?case
    by (intro alone_change [OF expire(5) i, where p' = Closing]) (auto simp: run_close_effect [OF i] live_def fun_upd_idem)
next
  case (fail i m)
  then obtain ip where i: "inst_at m i ip Serving" by (auto simp: phase_of_inst_at)
  have "mg_inst m ip = Some i" using fail(3) i unfolding alone_def live_def by blast
  then show ?case
    by (intro alone_change [OF fail(3) i, where p' = Closing]) (auto simp: run_close_effect [OF i] live_def fun_upd_idem)
next
  case (delete i m)
  then obtain ip where i: "inst_at m i ip Closing" by (auto simp: phase_of_inst_at)
  show ?case
    by (rule alone_change [OF delete(3) i, where p' = Stopped]) (auto simp: run_delete_effect [OF i] live_def)
qed (simp_all add: alone_def)



text \<open>
  Calls that do overlap get less. For every address there is a run in which two servers
  serve it at once; one in which a serving server is no longer registered, because the other's
  end deleted the entry, so that the next call starts a third; and one in which EnsureRunning
  returns at once although no server is serving, because the registered one is already closing.
\<close>

theorem overlapping_tftp_starts:
  "(\<exists>m i j. tftp_reachable m \<and> i \<noteq> j \<and> inst_at m i ip Serving \<and> inst_at m j ip Serving) \<and>
   (\<exists>m i. tftp_reachable m \<and> inst_at m i ip Serving \<and> mg_inst m ip = None) \<and>
   (\<exists>m m'. tftp_reachable m \<and> ensure_check ip m = (True, m') \<and> (\<forall>i. \<not> inst_at m' i ip Serving))"
proof -
  let ?m1 = "snd (run_start ip (NewManager 0))"
  let ?m2 = "snd (run_start ip ?m1)"
  let ?m3 = "run_listen True 0 ?m2"
  let ?m4 = "run_listen True 1 ?m3"
  let ?m5 = "run_close 0 ?m4"
  let ?m6 = "run_delete 0 ?m5"
  let ?n2 = "run_listen True 0 ?m1"
  let ?n3 = "run_close 0 ?n2"
  have next0: "mg_next (NewManager 0) = 0" by (simp add: NewManager_def)
  have miss: "ensure_check ip m = (False, m)" if "mg_inst m ip = None" for m
    using that by (simp add: ensure_check_def)
  have a1: "inst_at ?m1 0 ip Starting" "mg_next ?m1 = 1" by (simp_all add: run_start_effect next0)
  have a2: "inst_at ?m2 0 ip Starting" "inst_at ?m2 1 ip Starting" by (simp_all add: run_start_effect a1 next0)
  have a3: "inst_at ?m3 0 ip Serving" "inst_at ?m3 1 ip Starting"
    unfolding run_listen_effect [OF a2(1)] using a2 by simp_all
  have a4: "inst_at ?m4 0 ip Serving" "inst_at ?m4 1 ip Serving"
    unfolding run_listen_effect [OF a3(2)] using a3 by simp_all
  have a5: "inst_at ?m5 0 ip Closing" "inst_at ?m5 1 ip Serving"
    unfolding run_close_effect [OF a4(1)] using a4 by simp_all
  have a6: "inst_at ?m6 1 ip Serving" "mg_inst ?m6 ip = None"
    unfolding run_delete_effect [OF a5(1)] using a5 by simp_all
  have r1: "tftp_reachable ?m1"
    by (rule tftp_reachable.step [OF tftp_reachable.init tftp_step.check_miss [OF miss]]) simp
  have r2: "tftp_reachable ?m2"
    by (rule tftp_reachable.step [OF r1 tftp_step.check_miss [OF miss]]) (simp add: run_start_effect)
  have r3: "tftp_reachable ?m3"
    using a2 by (intro tftp_reachable.step [OF r2 tftp_step.listen]) (auto simp: phase_of_inst_at)
  have r4: "tftp_reachable ?m4"
    using a3 by (intro tftp_reachable.step [OF r3 tftp_step.listen]) (auto simp: phase_of_inst_at)
  have r5: "tftp_reachable ?m5"
    using a4 by (intro tftp_reachable.step [OF r4 tftp_step.fail]) (auto simp: phase_of_inst_at)
  have r6: "tftp_reachable ?m6"
    using a5 by (intro tftp_reachable.step [OF r5 tftp_step.delete]) (auto simp: phase_of_inst_at)
  have b2: "inst_at ?n2 0 ip Serving" by (simp add: run_listen_effect [OF a1(1)])
  have b3: "mg_inst ?n3 ip = Some 0" "\<not> inst_at ?n3 i ip Serving" for i
    by (auto simp: run_close_effect [OF b2] run_listen_effect [OF a1(1)] run_start_effect)
  have s2: "tftp_reachable ?n2"
    using a1 by (intro tftp_reachable.step [OF r1 tftp_step.listen]) (auto simp: phase_of_inst_at)
  have s3: "tftp_reachable ?n3"
    using b2 by (intro tftp_reachable.step [OF s2 tftp_step.fail]) (auto simp: phase_of_inst_at)
  have "ensure_check ip ?n3 = (True, touch 0 ?n3)" by (simp add: ensure_check_def b3)
  with s3 b3 have "\<exists>m m'. tftp_reachable m \<and> ensure_check ip m = (True, m') \<and> (\<forall>i. \<not> inst_at m' i ip Serving)"
    by (intro exI [of _ ?n3] exI [of _ "touch 0 ?n3"]) simp
  moreover have "\<exists>m i j. tftp_reachable m \<and> i \<noteq> j \<and> inst_at m i ip Serving \<and> inst_at m j ip Serving"
    using r4 a4 by (intro exI [of _ ?m4] exI [of _ 0] exI [of _ 1]) simp
  moreover have "\<exists>m i. tftp_reachable m \<and> inst_at m i ip Serving \<and> mg_inst m ip = None"
    using r6 a6 by blast
  ultimately show ?thesis by blast
qed

section \<open>Liveness\<close>

definition tftp_run :: "(nat \<Rightarrow> manager) \<Rightarrow> (nat \<Rightarrow> label) \<Rightarrow> bool" where
  "tftp_run \<sigma> ls \<longleftrightarrow> tftp_reachable (\<sigma> 0) \<and> (\<forall>n. tftp_step (\<sigma> n) (ls n) (\<sigma> (Suc n)))"

definition weakly_fair :: "(nat \<Rightarrow> manager) \<Rightarrow> (nat \<Rightarrow> label) \<Rightarrow> label \<Rightarrow> bool" where
  \<comment> \<open>a step that stays possible is taken\<close>
  "weakly_fair \<sigma> ls l \<longleftrightarrow> (\<forall>n. (\<forall>k \<ge> n. \<exists>m'. tftp_step (\<sigma> k) l m') \<longrightarrow> (\<exists>k \<ge> n. ls k = l))"

lemma step_serving:
  assumes "tftp_step m l m'" "manager_wf m" "mg_all m i = Some x" "in_phase x = Serving"
    and "l \<noteq> Transfer i" "\<And>ip. l = Check ip \<Longrightarrow> mg_inst m ip \<noteq> Some i"
  shows "mg_all m' i = Some x \<and> l \<noteq> Expire i \<or> mg_all m' i = Some (x\<lparr>in_phase := Closing\<rparr>)"
  using assms
proof (induction rule: tftp_step.induct)
  case (check_miss ip m m1)
  then have "m1 = m" "i < mg_next m" using ensure_check_effect inst_lt expire_phase by blast+
  with check_miss show ?case by (simp add: run_start_def)
qed (auto simp: ensure_check_def touch_def run_listen_def run_close_def run_delete_def phase_of_def split: option.splits)

lemma step_closing:
  assumes "tftp_step m l m'" "manager_wf m" "inst_at m i ip Closing"
  shows "inst_at m' i ip Closing \<and> l \<noteq> Delete i \<or> inst_at m' i ip Stopped \<and> mg_inst m' ip = None"
  using assms
proof (induction rule: tftp_step.induct)
  case (check_hit ip m m')
  then show ?case using ensure_check_same by auto
next
  case (check_miss ip' m m1)
  then have "m1 = m" "i < mg_next m" using ensure_check_effect inst_lt by blast+
  with check_miss show ?case by (simp add: run_start_effect)
next
  case (listen j m ok)
  then obtain ip' where j: "inst_at m j ip' Starting" by (auto simp: phase_of_inst_at)
  then have "i \<noteq> j" using listen(3) inst_at_fun by blast
  with listen(3) show ?case by (simp add: run_listen_effect [OF j])
next
  case (expire m j x)
  note j = expire_phase [OF expire(1,2)]
  then have "i = j \<Longrightarrow> ip = in_IP x" using expire(5) inst_at_fun by blast
  with expire(5) show ?case by (auto simp: run_close_effect [OF j])
next
  case (fail j m)
  then obtain ip' where j: "inst_at m j ip' Serving" by (auto simp: phase_of_inst_at)
  then have "i \<noteq> j" using fail(3) inst_at_fun by blast
  with fail(3) show ?case by (simp add: run_close_effect [OF j])
next
  case (delete j m)
  then obtain ip' where j: "inst_at m j ip' Closing" by (auto simp: phase_of_inst_at)
  then have "i = j \<Longrightarrow> ip = ip'" using delete(3) inst_at_fun by blast
  with delete(3) show ?case by (auto simp: run_delete_effect [OF j])
qed simp_all

lemma step_time: "tftp_step m l m' \<Longrightarrow> mg_now m \<le> mg_now m'"
  by (induction rule: tftp_step.induct)
    (auto simp: ensure_check_def run_start_def run_listen_def run_close_def run_delete_def split: option.splits)


lemma run_wf:
  assumes "tftp_run \<sigma> ls"
  shows "manager_wf (\<sigma> n)"
proof (induction n)
  case 0
  then show ?case using assms tftp_reachable_wf by (auto simp: tftp_run_def)
next
  case (Suc n)
  then show ?case using assms tftp_step_wf by (auto simp: tftp_run_def)
qed

lemma run_time:
  assumes "tftp_run \<sigma> ls" "n \<le> k"
  shows "mg_now (\<sigma> n) \<le> mg_now (\<sigma> k)"
proof -
  have "mono (\<lambda>n. mg_now (\<sigma> n))"
    using assms(1) step_time by (auto simp: tftp_run_def mono_iff_le_Suc)
  then show ?thesis using assms(2) by (auto dest: monoD)
qed

text \<open>
  C16. An idle server goes away: in every run in which time advances without bound and a
  goroutine that can go on eventually does, a server that is serving and sees no transfer and no
  EnsureRunning from some point on is eventually shut down, its goroutine ends, and at that
  moment its address is free for the next start.
\<close>

theorem idle_tftp_server_stops:
  assumes run: "tftp_run \<sigma> ls" and "weakly_fair \<sigma> ls (Expire i)" and "weakly_fair \<sigma> ls (Delete i)"
    and time: "\<forall>T. \<exists>k. T \<le> mg_now (\<sigma> k)" and "inst_at (\<sigma> n) i ip Serving"
    and idle: "\<forall>k \<ge> n. ls k \<noteq> Transfer i \<and> (\<forall>ip'. ls k = Check ip' \<longrightarrow> mg_inst (\<sigma> k) ip' \<noteq> Some i)"
  shows "\<exists>k \<ge> n. inst_at (\<sigma> k) i ip Closing \<and> inst_at (\<sigma> (Suc k)) i ip Stopped \<and> mg_inst (\<sigma> (Suc k)) ip = None"
proof -
  obtain x where x: "mg_all (\<sigma> n) i = Some x" "in_IP x = ip" "in_phase x = Serving"
    using assms(5) by (auto simp: inst_at_def)
  have steps: "\<And>k. tftp_step (\<sigma> k) (ls k) (\<sigma> (Suc k))" using run by (simp add: tftp_run_def)
  have serving: "mg_all (\<sigma> (Suc k)) i = Some x \<and> ls k \<noteq> Expire i \<or>
      mg_all (\<sigma> (Suc k)) i = Some (x\<lparr>in_phase := Closing\<rparr>)" if "n \<le> k" "mg_all (\<sigma> k) i = Some x" for k
    using step_serving [OF steps run_wf [OF run] that(2) x(3)] idle that(1) by blast
  have "\<exists>k \<ge> n. inst_at (\<sigma> k) i ip Closing"
  proof (rule ccontr)
    assume not: "\<not> (\<exists>k \<ge> n. inst_at (\<sigma> k) i ip Closing)"
    have stay: "mg_all (\<sigma> k) i = Some x" if "n \<le> k" for k
      using that
    proof (induction k rule: dec_induct)
      case (step k)
      then have "\<not> inst_at (\<sigma> (Suc k)) i ip Closing" using not by simp
      with serving [OF step(1) step.IH] x(2) show ?case by (auto simp: inst_at_def)
    qed (rule x(1))
    obtain k0 where "in_deadline x \<le> mg_now (\<sigma> k0)" using time by blast
    then have "in_deadline x \<le> mg_now (\<sigma> k)" if "max n k0 \<le> k" for k
      using run_time [OF run, of k0 k] that by simp
    then have "\<exists>m'. tftp_step (\<sigma> k) (Expire i) m'" if "max n k0 \<le> k" for k
      using tftp_step.expire [of "\<sigma> k" i x] stay [of k] x(3) that by auto
    then obtain k where k: "max n k0 \<le> k" "ls k = Expire i"
      using assms(2) unfolding weakly_fair_def by blast
    with serving [of k] stay [of k] have "inst_at (\<sigma> (Suc k)) i ip Closing"
      using x(2) by (auto simp: inst_at_def)
    with not k(1) show False by (meson le_SucI max.boundedE)
  qed
  then obtain c where c: "n \<le> c" "inst_at (\<sigma> c) i ip Closing" by blast
  note closing = step_closing [OF steps run_wf [OF run]]
  have "\<exists>k \<ge> c. inst_at (\<sigma> k) i ip Closing \<and> inst_at (\<sigma> (Suc k)) i ip Stopped \<and> mg_inst (\<sigma> (Suc k)) ip = None"
  proof (rule ccontr)
    assume not: "\<not> (\<exists>k \<ge> c. inst_at (\<sigma> k) i ip Closing \<and> inst_at (\<sigma> (Suc k)) i ip Stopped \<and>
      mg_inst (\<sigma> (Suc k)) ip = None)"
    have stay: "inst_at (\<sigma> k) i ip Closing" if "c \<le> k" for k
      using that
    proof (induction k rule: dec_induct)
      case (step k)
      with not closing [OF step.IH] show ?case by blast
    qed (rule c(2))
    then have "\<exists>m'. tftp_step (\<sigma> k) (Delete i) m'" if "c \<le> k" for k
      using tftp_step.delete [of i "\<sigma> k"] that by (auto simp: phase_of_inst_at)
    then obtain k where "c \<le> k" "ls k = Delete i"
      using assms(3) unfolding weakly_fair_def by blast
    with closing [OF stay [of k]] not stay show False by blast
  qed
  with c(1) show ?thesis by (meson order_trans)
qed


definition sample_states :: "nat \<Rightarrow> manager" where
  \<comment> \<open>one server that idles out, then the clock only\<close>
  "sample_states n =
     (let m0 = run_listen True 0 (snd (run_start ''10.0.0.1'' (NewManager 0)));
          m1 = m0\<lparr>mg_now := 30\<rparr>; m2 = run_close 0 m1; m3 = run_delete 0 m2
      in if n = 0 then m0 else if n = 1 then m1 else if n = 2 then m2 else m3\<lparr>mg_now := 27 + int n\<rparr>)"

definition sample_labels :: "nat \<Rightarrow> label" where
  "sample_labels n = (if n = 0 then Tick 30 else if n = 1 then Expire 0 else if n = 2 then Delete 0 else Tick 1)"


lemma sample_run: "tftp_run sample_states sample_labels"
proof -
  let ?ip = "''10.0.0.1''"
  let ?m1 = "snd (run_start ?ip (NewManager 0))"
  have s: "inst_at ?m1 0 ?ip Starting" by (simp add: run_start_def inst_at_def NewManager_def)
  have "tftp_step (NewManager 0) (Start ?ip) ?m1"
    by (rule tftp_step.check_miss) (simp add: ensure_check_def)
  then have r1: "tftp_reachable ?m1" by (rule tftp_reachable.step [OF tftp_reachable.init])
  have r: "tftp_reachable (sample_states 0)"
    using tftp_reachable.step [OF r1 tftp_step.listen [of 0 ?m1 True]] s by (auto simp: phase_of_inst_at sample_states_def)
  have "tftp_step (sample_states n) (sample_labels n) (sample_states (Suc n))" for n
  proof -
    consider "n = 0" | "n = 1" | "n = 2" | "n > 2" by linarith
    then show ?thesis
    proof cases
      case 1
      have "mg_now (sample_states 0) = 0"
        by (simp add: sample_states_def run_listen_def run_start_def NewManager_def)
      with 1 tftp_step.tick [of 30 "sample_states 0"] show ?thesis by (simp add: sample_states_def sample_labels_def)
    next
      case 2
      have "mg_all (sample_states 1) 0 = Some \<lparr>in_IP = ?ip, in_phase = Serving, in_deadline = 30\<rparr>" "mg_now (sample_states 1) = 30"
        by (simp_all add: sample_states_def run_listen_def run_start_def NewManager_def idleTimeout_def)
      with 2 tftp_step.expire [of "sample_states 1" 0] show ?thesis
        by (simp add: sample_states_def sample_labels_def numeral_2_eq_2)
    next
      case 3
      have "phase_of 0 (sample_states 2) = Some Closing"
        by (simp add: sample_states_def phase_of_def run_close_def run_listen_def run_start_def NewManager_def)
      moreover have "run_delete 0 (sample_states 2) = sample_states 3"
        by (simp add: sample_states_def run_delete_def run_close_def run_listen_def run_start_def NewManager_def
            set_instance_def)
      ultimately show ?thesis
        using 3 tftp_step.delete [of 0 "sample_states 2"] by (simp add: sample_labels_def numeral_3_eq_3)
    next
      case 4
      with tftp_step.tick [of 1 "sample_states n"] show ?thesis
        by (simp add: sample_states_def sample_labels_def Let_def add.commute add.left_commute)
    qed
  qed
  with r show ?thesis by (simp add: tftp_run_def)
qed

theorem idle_tftp_server_stops_witness:
  "\<exists>k. inst_at (sample_states k) 0 ''10.0.0.1'' Closing \<and> inst_at (sample_states (Suc k)) 0 ''10.0.0.1'' Stopped"
proof -
  have gone: "\<not> inst_at (sample_states k) 0 ip Serving \<and> \<not> inst_at (sample_states k) 0 ip Closing" if "k \<ge> 3" for k ip
    using that by (auto simp: sample_states_def inst_at_def Let_def run_delete_def run_close_def run_listen_def
        run_start_def NewManager_def split: if_splits)
  have "\<not> tftp_step (sample_states k) (Expire 0) m'" "\<not> tftp_step (sample_states k) (Delete 0) m'" if "k \<ge> 3" for k m'
    using gone [OF that] by (auto elim!: tftp_step.cases simp: phase_of_inst_at dest: expire_phase)
  then have fair: "weakly_fair sample_states sample_labels (Expire 0)" "weakly_fair sample_states sample_labels (Delete 0)"
    unfolding weakly_fair_def by (meson nle_le)+
  have "T \<le> mg_now (sample_states (nat T + 3))" for T
    by (simp add: sample_states_def Let_def)
  then have time: "\<forall>T. \<exists>k. T \<le> mg_now (sample_states k)" by blast
  have serving: "inst_at (sample_states 0) 0 ''10.0.0.1'' Serving"
    by (simp add: sample_states_def inst_at_def run_listen_def run_start_def NewManager_def)
  have idle: "\<forall>k \<ge> 0. sample_labels k \<noteq> Transfer 0 \<and>
      (\<forall>ip'. sample_labels k = Check ip' \<longrightarrow> mg_inst (sample_states k) ip' \<noteq> Some 0)"
    by (simp add: sample_labels_def)
  from idle_tftp_server_stops [OF sample_run fair time serving idle] obtain k where
    "inst_at (sample_states k) 0 ''10.0.0.1'' Closing" "inst_at (sample_states (Suc k)) 0 ''10.0.0.1'' Stopped"
    by (elim exE conjE)
  then show ?thesis by (intro exI conjI)
qed

end
