(* ===== verification/Snmp.thy ===== *)
theory Snmp
  imports Network AccessLog
begin

text \<open>
  \<^verbatim>\<open>internal/snmp/server.go\<close>: the table of objects a controller's SNMP agent
  serves. An item is its OID, the name under which a read is logged and the value a read
  gives at some time; the agent that matches requests to items is the library's.
\<close>

section \<open>Items\<close>

datatype snmp_value =
    OctetString string
  | ObjectIdentifier string
  | TimeTicks "32 word"
  | Integer int
  | Gauge32 "32 word"
  | IPAddress ipv4

record item =
  it_OID :: string
  it_Name :: string
  it_OnGet :: "int \<Rightarrow> snmp_value"

definition item :: "string \<Rightarrow> string \<Rightarrow> snmp_value \<Rightarrow> item" where
  \<comment> \<open>an item whose value does not depend on the time\<close>
  "item oid name v = \<lparr>it_OID = oid, it_Name = name, it_OnGet = (\<lambda>_. v)\<rparr>"

definition loggedGet :: "device \<Rightarrow> int \<Rightarrow> item \<Rightarrow> store \<Rightarrow> panic + (snmp_value \<times> store)" where
  "loggedGet d now i logs =
     (let val = it_OnGet i now
      in on_ok (\<lambda>logs'. Inr (val, logs'))
           (Add now (empty_entry\<lparr>e_DeviceHost := d_Hostname d, e_DeviceIP := d_IP d, e_Type := ''snmp'',
              e_Method := ''GET'', e_Path := it_Name i\<rparr>) logs))"

definition To4 :: "ip option \<Rightarrow> ipv4 option" where
  "To4 p = (case p of Some (V4 a) \<Rightarrow> Some a | _ \<Rightarrow> None)"

definition macFromIP :: "(string \<Rightarrow> ip option) \<Rightarrow> string \<Rightarrow> 8 word list" where
  "macFromIP v6 s =
     (case To4 (ParseIP v6 s) of
        None \<Rightarrow> [0x02, 0x00, 0x00, 0x00, 0x00, 0x01]
      | Some a \<Rightarrow> [0x02, 0xC9, oct_a a, oct_b a, oct_c a, oct_d a])"

definition mac_string :: "8 word list \<Rightarrow> string" where
  \<comment> \<open>\<^verbatim>\<open>string(mac)\<close>, the raw bytes\<close>
  "mac_string bs = map (\<lambda>b. char_of (unat b)) bs"

section \<open>The groups\<close>

definition sysDescr :: "device \<Rightarrow> string" where
  "sysDescr d = ''Cisco IOS Software [Dublin], C9800-CL Software ('' @ d_Model d @ ''), Version '' @ d_Version d"

definition uptime_ticks :: "device \<Rightarrow> int \<Rightarrow> 32 word" where
  \<comment> \<open>hundredths of a second since the start, time in seconds; the conversion keeps 32 bits\<close>
  "uptime_ticks d now = word_of_int ((now - d_StartTime d) * 100)"

definition sysGroup :: "device \<Rightarrow> item list" where
  "sysGroup d = [
     item ''1.3.6.1.2.1.1.1.0'' ''sysDescr'' (OctetString (sysDescr d)),
     item ''1.3.6.1.2.1.1.2.0'' ''sysObjectID'' (ObjectIdentifier ''1.3.6.1.4.1.9.1.2530''),
     \<lparr>it_OID = ''1.3.6.1.2.1.1.3.0'', it_Name = ''sysUpTime'', it_OnGet = (\<lambda>now. TimeTicks (uptime_ticks d now))\<rparr>,
     item ''1.3.6.1.2.1.1.4.0'' ''sysContact'' (OctetString []),
     item ''1.3.6.1.2.1.1.5.0'' ''sysName'' (OctetString (d_Hostname d)),
     item ''1.3.6.1.2.1.1.6.0'' ''sysLocation'' (OctetString []),
     item ''1.3.6.1.2.1.1.7.0'' ''sysServices'' (Integer 72)]"

definition snmpEngine :: "device \<Rightarrow> item list" where
  "snmpEngine d = [
     \<lparr>it_OID = ''1.3.6.1.6.3.10.2.1.3.0'', it_Name = ''snmpEngineTime'', it_OnGet = (\<lambda>now. Integer (now - d_StartTime d))\<rparr>]"

definition ifMIB :: "(string \<Rightarrow> ip option) \<Rightarrow> device \<Rightarrow> item list" where
  "ifMIB v6 d = [
     item ''1.3.6.1.2.1.2.1.0'' ''ifNumber'' (Integer 1),
     item ''1.3.6.1.2.1.2.2.1.1.1'' ''ifIndex.1'' (Integer 1),
     item ''1.3.6.1.2.1.2.2.1.2.1'' ''ifDescr.1'' (OctetString ''GigabitEthernet1''),
     item ''1.3.6.1.2.1.2.2.1.3.1'' ''ifType.1'' (Integer 6),
     item ''1.3.6.1.2.1.2.2.1.4.1'' ''ifMtu.1'' (Integer 1500),
     item ''1.3.6.1.2.1.2.2.1.5.1'' ''ifSpeed.1'' (Gauge32 1000000000),
     item ''1.3.6.1.2.1.2.2.1.6.1'' ''ifPhysAddress.1'' (OctetString (mac_string (macFromIP v6 (d_IP d)))),
     item ''1.3.6.1.2.1.2.2.1.7.1'' ''ifAdminStatus.1'' (Integer 1),
     item ''1.3.6.1.2.1.2.2.1.8.1'' ''ifOperStatus.1'' (Integer 1),
     item ''1.3.6.1.2.1.31.1.1.1.1.1'' ''ifName.1'' (OctetString ''Gi1''),
     item ''1.3.6.1.2.1.31.1.1.1.18.1'' ''ifAlias.1'' (OctetString ''Management Interface'')]"

definition ipAddrTable :: "(string \<Rightarrow> ip option) \<Rightarrow> device \<Rightarrow> item list" where
  "ipAddrTable v6 d =
     (case To4 (ParseIP v6 (d_IP d)) of
        None \<Rightarrow> []
      | Some a \<Rightarrow>
          (let idx = show_ipv4 a in [
             item (''1.3.6.1.2.1.4.20.1.1.'' @ idx) ''ipAdEntAddr'' (IPAddress a),
             item (''1.3.6.1.2.1.4.20.1.2.'' @ idx) ''ipAdEntIfIndex'' (Integer 1),
             item (''1.3.6.1.2.1.4.20.1.3.'' @ idx) ''ipAdEntNetMask'' (IPAddress (IPv4 255 255 255 0))]))"

definition entityMIB :: "device \<Rightarrow> item list" where
  "entityMIB d =
     (let base = ''1.3.6.1.2.1.47.1.1.1.1'' in [
        item (base @ ''.2.1'') ''entPhysicalDescr.1'' (OctetString ''Cisco Catalyst 9800-CL Wireless Controller''),
        item (base @ ''.10.1'') ''entPhysicalSoftwareRev.1'' (OctetString (d_Version d)),
        item (base @ ''.11.1'') ''entPhysicalSerialNum.1'' (OctetString (d_Serial d)),
        item (base @ ''.12.1'') ''entPhysicalMfgName.1'' (OctetString ''Cisco Systems, Inc.''),
        item (base @ ''.13.1'') ''entPhysicalModelName.1'' (OctetString (d_Model d))])"

definition buildOIDs :: "(string \<Rightarrow> ip option) \<Rightarrow> device \<Rightarrow> item list" where
  "buildOIDs v6 d = sysGroup d @ snmpEngine d @ ifMIB v6 d @ ipAddrTable v6 d @ entityMIB d"

section \<open>Properties\<close>

lemma mac_string_inj: "mac_string a = mac_string b \<Longrightarrow> a = b"
proof -
  have "inj (\<lambda>b :: 8 word. char_of (unat b) :: char)"
  proof (rule injI)
    fix x y :: "8 word" assume "(char_of (unat x) :: char) = char_of (unat y)"
    then have "(of_char (char_of (unat x) :: char) :: nat) = of_char (char_of (unat y) :: char)" by simp
    then have "unat x mod 256 = unat y mod 256" by simp
    moreover have "unat z < 256" for z :: "8 word" using unsigned_less [of z] by simp
    ultimately show "x = y" by (simp add: word_unat_eq_iff)
  qed
  then show "mac_string a = mac_string b \<Longrightarrow> a = b" by (simp add: mac_string_def inj_map_eq_map)
qed

definition numeric_oid :: "string \<Rightarrow> bool" where
  "numeric_oid s \<longleftrightarrow> list_all (\<lambda>p. p \<noteq> [] \<and> list_all is_digit p) (split_char (CHR ''.'') s)"

definition digits :: "string \<Rightarrow> bool" where
  "digits p \<longleftrightarrow> p \<noteq> [] \<and> list_all is_digit p"

lemma numeric_oid_dot: "digits p \<Longrightarrow> numeric_oid (p @ CHR ''.'' # s) \<longleftrightarrow> numeric_oid s"
proof -
  assume p: "digits p"
  then have "CHR ''.'' \<notin> set p" by (auto simp: digits_def list_all_iff is_digit_def char_code_def)
  with p show ?thesis by (simp add: numeric_oid_def split_char_append digits_def)
qed

lemma numeric_oid_show_ipv4: "numeric_oid (show_ipv4 a)"
  by (cases a) (simp add: numeric_oid_def split_show_ipv4 nat_digits_all_digits)

lemma numeric_oid_append:
  "numeric_oid s \<Longrightarrow> numeric_oid t \<Longrightarrow> numeric_oid (s @ CHR ''.'' # t)"
proof (induction s rule: length_induct)
  case (1 s)
  show ?case
  proof (cases "CHR ''.'' \<in> set s")
    case True
    then obtain p r where s: "s = p @ CHR ''.'' # r" "CHR ''.'' \<notin> set p" by (meson split_list_first)
    with 1(2) have "digits p" "numeric_oid r"
      by (simp_all add: numeric_oid_def split_char_append digits_def)
    with 1(1,3) s show ?thesis by (simp add: numeric_oid_dot)
  next
    case False
    with 1(2) have "digits s" by (simp add: numeric_oid_def split_char_no digits_def)
    with 1(3) show ?thesis by (simp add: numeric_oid_dot)
  qed
qed

lemma table_ip_oids:
  "numeric_oid (''1.3.6.1.2.1.4.20.1.1.'' @ show_ipv4 a)" "numeric_oid (''1.3.6.1.2.1.4.20.1.2.'' @ show_ipv4 a)"
  "numeric_oid (''1.3.6.1.2.1.4.20.1.3.'' @ show_ipv4 a)"
proof -
  have "numeric_oid ''1.3.6.1.2.1.4.20.1.1''" "numeric_oid ''1.3.6.1.2.1.4.20.1.2''" "numeric_oid ''1.3.6.1.2.1.4.20.1.3''"
    by (simp_all add: numeric_oid_def is_digit_def char_code_def)
  from this [THEN numeric_oid_append, OF numeric_oid_show_ipv4]
  show "numeric_oid (''1.3.6.1.2.1.4.20.1.1.'' @ show_ipv4 a)" "numeric_oid (''1.3.6.1.2.1.4.20.1.2.'' @ show_ipv4 a)"
    "numeric_oid (''1.3.6.1.2.1.4.20.1.3.'' @ show_ipv4 a)" by simp_all
qed

lemma fixed_oids:
  "list_all numeric_oid (map it_OID (sysGroup d @ snmpEngine d @ ifMIB v6 d @ entityMIB d))"
  by (simp add: sysGroup_def snmpEngine_def ifMIB_def entityMIB_def item_def numeric_oid_def is_digit_def char_code_def)

lemma fixed_oids_distinct:
  "distinct (map it_OID (sysGroup d @ snmpEngine d @ ifMIB v6 d @ entityMIB d))"
  by (simp add: sysGroup_def snmpEngine_def ifMIB_def entityMIB_def item_def)

lemma distinct_middle:
  "distinct (xs @ zs) \<Longrightarrow> distinct ys \<Longrightarrow> set ys \<inter> set (xs @ zs) = {} \<Longrightarrow> distinct (xs @ ys @ zs)"
  by auto

lemma ip_oids_prefix:
  "q \<in> set (map it_OID (ipAddrTable v6 d)) \<Longrightarrow> HasPrefix q ''1.3.6.1.2.1.4.''"
  by (auto simp: ipAddrTable_def item_def Let_def split: option.splits)

lemma fixed_oids_prefix:
  "q \<in> set (map it_OID (sysGroup d @ snmpEngine d @ ifMIB v6 d @ entityMIB d)) \<Longrightarrow> \<not> HasPrefix q ''1.3.6.1.2.1.4.''"
  by (auto simp: sysGroup_def snmpEngine_def ifMIB_def entityMIB_def item_def)

text \<open>
  C34. The agent's table is a table: for every controller no OID occurs twice, every OID is a
  dotted sequence of numbers, the address entries are there exactly when the address is IPv4,
  and of two controllers with different IPv4 addresses the interface entries report different
  hardware addresses.
\<close>

theorem snmp_table:
  "distinct (map it_OID (buildOIDs v6 d)) \<and>
   list_all numeric_oid (map it_OID (buildOIDs v6 d)) \<and>
   length (buildOIDs v6 d) = (if To4 (ParseIP v6 (d_IP d)) = None then 24 else 27) \<and>
   (\<forall>(d' :: device) a a'. To4 (ParseIP v6 (d_IP d)) = Some a \<longrightarrow> To4 (ParseIP v6 (d_IP d')) = Some a' \<longrightarrow> a \<noteq> a' \<longrightarrow>
      it_OnGet (ifMIB v6 d ! 6) now \<noteq> it_OnGet (ifMIB v6 d' ! 6) now)"
proof (intro conjI allI impI)
  have "distinct (map it_OID (ipAddrTable v6 d))"
    by (simp add: ipAddrTable_def item_def Let_def split: option.splits)
  moreover have "set (map it_OID (ipAddrTable v6 d)) \<inter>
      set (map it_OID (sysGroup d @ snmpEngine d @ ifMIB v6 d @ entityMIB d)) = {}"
    using ip_oids_prefix fixed_oids_prefix by blast
  ultimately have "distinct (map it_OID (sysGroup d @ snmpEngine d @ ifMIB v6 d) @
      map it_OID (ipAddrTable v6 d) @ map it_OID (entityMIB d))"
    by (intro distinct_middle) (simp_all only: map_append append_assoc fixed_oids_distinct [simplified map_append])
  then show "distinct (map it_OID (buildOIDs v6 d))"
    by (simp only: buildOIDs_def map_append append_assoc)
  show "list_all numeric_oid (map it_OID (buildOIDs v6 d))"
    using fixed_oids [of d v6] table_ip_oids
    by (simp add: buildOIDs_def ipAddrTable_def item_def Let_def list.pred_map split: option.splits)
  show "length (buildOIDs v6 d) = (if To4 (ParseIP v6 (d_IP d)) = None then 24 else 27)"
    by (auto simp: buildOIDs_def sysGroup_def snmpEngine_def ifMIB_def entityMIB_def ipAddrTable_def Let_def
        split: option.splits)
  fix d' :: device and a a'
  assume "To4 (ParseIP v6 (d_IP d)) = Some a" "To4 (ParseIP v6 (d_IP d')) = Some a'" "a \<noteq> a'"
  then have "macFromIP v6 (d_IP d) \<noteq> macFromIP v6 (d_IP d')"
    by (cases a; cases a') (auto simp: macFromIP_def)
  then show "it_OnGet (ifMIB v6 d ! 6) now \<noteq> it_OnGet (ifMIB v6 d' ! 6) now"
    by (auto simp: ifMIB_def item_def dest: mac_string_inj)
qed

lemma loggedGet_records:
  assumes "store_wf logs"
    and "e = empty_entry\<lparr>e_DeviceHost := d_Hostname d, e_DeviceIP := d_IP d, e_Type := ''snmp'',
      e_Method := ''GET'', e_Path := it_Name i\<rparr>"
  shows "loggedGet d now i logs = Inr (it_OnGet i now, Add_ok now e logs)"
  using Add_result [OF assms(1), of now e] by (simp add: loggedGet_def assms(2) Let_def)

theorem snmp_table_witness:
  "it_OnGet (ifMIB (\<lambda>_. None) (dev_at ''A'' ''10.0.0.1'') ! 6) 0 \<noteq>
   it_OnGet (ifMIB (\<lambda>_. None) (dev_at ''B'' ''10.0.0.2'') ! 6) 0"
proof -
  have "To4 (ParseIP (\<lambda>_. None) (d_IP (dev_at ''A'' ''10.0.0.1''))) = Some (IPv4 10 0 0 1)"
    "To4 (ParseIP (\<lambda>_. None) (d_IP (dev_at ''B'' ''10.0.0.2''))) = Some (IPv4 10 0 0 2)"
    by code_simp+
  moreover have "IPv4 10 0 0 1 \<noteq> IPv4 10 0 0 2" by simp
  ultimately show ?thesis
    using snmp_table [of "\<lambda>_. None" "dev_at ''A'' ''10.0.0.1''" 0] by blast
qed

end
