(* ===== verification/Dashboard.thy ===== *)
theory Dashboard
  imports Simulator Helper AccessLog "HOL-Library.Sublist"
begin

text \<open>
  \<^verbatim>\<open>internal/dashboard/server.go\<close>: the HTTP API over the simulator, the
  updater and the access log. A handler writes to a response writer, whose header map is
  fixed when the status line goes out, and changes the shared state only through the
  operations of the other components. The decoders of request bodies, the error texts of
  libraries and the static files are arguments.
\<close>

section \<open>Response writers\<close>

datatype payload =
    ErrorText string
  | JDevices "device list"
  | JDevice device
  | JAP ap
  | JClient client
  | JSSIDs "string list"
  | JAuth auth
  | JEntries "entry list"
  | JUpdate status
  | JSystem int "(int \<times> int) option" "(string \<times> int) list"   \<comment> \<open>uptime, CPU time over wall time, runtime figures\<close>
  | JStatus "(string \<times> string) list" "int option"
  | Yaml string
  | Html string

record rw =
  rw_header :: "(string \<times> string) list"
  rw_sent :: "(int \<times> (string \<times> string) list) option"
  rw_body :: "payload list"

definition new_rw :: rw where
  "new_rw = \<lparr>rw_header = [], rw_sent = None, rw_body = []\<rparr>"

definition set_header :: "string \<Rightarrow> string \<Rightarrow> rw \<Rightarrow> rw" where
  "set_header k v w = w\<lparr>rw_header := upsert k v (rw_header w)\<rparr>"

definition WriteHeader :: "int \<Rightarrow> rw \<Rightarrow> rw" where
  \<comment> \<open>a second call is ignored; the header map counts as it is at the first\<close>
  "WriteHeader code w = (if rw_sent w = None then w\<lparr>rw_sent := Some (code, rw_header w)\<rparr> else w)"

definition write_body :: "payload \<Rightarrow> rw \<Rightarrow> rw" where
  "write_body p w = (let w1 = WriteHeader 200 w in w1\<lparr>rw_body := rw_body w1 @ [p]\<rparr>)"

definition writeJSON :: "payload \<Rightarrow> rw \<Rightarrow> rw" where
  "writeJSON p w =
     write_body p (set_header ''Access-Control-Allow-Origin'' ''*'' (set_header ''Content-Type'' ''application/json'' w))"

definition http_error :: "string \<Rightarrow> int \<Rightarrow> rw \<Rightarrow> rw" where
  \<comment> \<open>\<^verbatim>\<open>http.Error\<close>\<close>
  "http_error msg code w =
     write_body (ErrorText (msg @ [CHR 0x0A]))
       (WriteHeader code (set_header ''X-Content-Type-Options'' ''nosniff''
          (set_header ''Content-Type'' ''text/plain; charset=utf-8'' w)))"

definition error_body :: "string \<Rightarrow> string" where
  "error_body msg = [CHR ''{'', CHR 0x22] @ ''error'' @ [CHR 0x22, CHR '':'', CHR 0x22] @ msg @ [CHR 0x22, CHR ''}'']"

definition rw_code :: "rw \<Rightarrow> int" where
  \<comment> \<open>what the client sees: a handler that wrote nothing answers 200\<close>
  "rw_code w = (case rw_sent w of None \<Rightarrow> 200 | Some (c, _) \<Rightarrow> c)"

definition sent_header :: "string \<Rightarrow> rw \<Rightarrow> string option" where
  "sent_header k w = (case rw_sent w of None \<Rightarrow> None | Some (_, h) \<Rightarrow> map_of h k)"

section \<open>Error texts\<close>

definition go_quote_char :: "char \<Rightarrow> string" where
  \<comment> \<open>one character under \<^verbatim>\<open>%q\<close>; bytes above 127 are taken to be printable UTF-8\<close>
  "go_quote_char c =
     (let n = char_code c; b = CHR 0x5C
      in if n = 34 \<or> n = 92 then [b, c]
         else if n = 7 then [b, CHR ''a''] else if n = 8 then [b, CHR ''b'']
         else if n = 9 then [b, CHR ''t''] else if n = 10 then [b, CHR ''n'']
         else if n = 11 then [b, CHR ''v''] else if n = 12 then [b, CHR ''f'']
         else if n = 13 then [b, CHR ''r'']
         else if n < 32 \<or> n = 127 then [b, CHR ''x''] @ hex2 (word_of_nat n)
         else [c])"

definition go_quote :: "string \<Rightarrow> string" where
  "go_quote s = [CHR 0x22] @ concat (map go_quote_char s) @ [CHR 0x22]"

record error_texts =
  et_net :: "net_error \<Rightarrow> string"
  et_conf :: "conf_error \<Rightarrow> string"
  et_fs :: "fs_error \<Rightarrow> string"
  et_upd :: "upd_error \<Rightarrow> string"

fun sim_error_text :: "error_texts \<Rightarrow> sim_error \<Rightarrow> string" where
  "sim_error_text t HostnameRequired = ''hostname is required''"
| "sim_error_text t IPRequired = ''ip is required''"
| "sim_error_text t (DeviceExists ip) = ''device with IP '' @ ip @ '' already exists''"
| "sim_error_text t (DeviceNotFound ip) = ''device with IP '' @ ip @ '' not found''"
| "sim_error_text t (AliasFailed ip e) = ''add IP alias '' @ ip @ '': '' @ et_net t e"
| "sim_error_text t (APNotFound n ip) = ''AP '' @ n @ '' not found on device '' @ ip"
| "sim_error_text t (DefaultAPLocked n) = ''cannot remove '' @ go_quote n @ '': it is the site'' @ [CHR 0x27] @ ''s default AP''"
| "sim_error_text t (ClientNotFound mac ip) = ''client '' @ mac @ '' not found on device '' @ ip"
| "sim_error_text t (TargetAPNotFound n ip) = ''target AP '' @ n @ '' not found on device '' @ ip"
| "sim_error_text t NoSeed = ''no seed config configured''"
| "sim_error_text t (SeedFailed e) = ''load seed config: '' @ et_conf t e"
| "sim_error_text t (SetupFailed e) = ''set up device IPs: '' @ et_net t e"
| "sim_error_text t (ConfigFailed e) = et_conf t e"
| "sim_error_text t (DeleteFailed e) = et_fs t e"

fun upd_error_text :: "error_texts \<Rightarrow> upd_error \<Rightarrow> string" where
  "upd_error_text t ErrNotAppliance = ''system update is only available on the appliance''"
| "upd_error_text t ErrAlreadyInProgress = ''an update is already in progress''"
| "upd_error_text t ErrNoUpdateAvailable = ''already on the latest release''"
| "upd_error_text t ErrUnsupportedArch = ''unsupported CPU architecture for update''"
| "upd_error_text t ErrInsufficientSpace = ''insufficient free disk space for update''"
| "upd_error_text t e = et_upd t e"

section \<open>CPU usage\<close>

text \<open>
  \<^verbatim>\<open>cpuSampler\<close>: the load is the CPU time used over the wall time passed between the
  last two ticks, both in nanoseconds; the percentage the program stores is the float of that
  quotient times 100, and zero before the first tick.
\<close>

record cpuSampler =
  cpuPct :: "(int \<times> int) option"
  lastCPU :: int
  lastAt :: int

definition newCPUSampler :: "int \<Rightarrow> int \<Rightarrow> cpuSampler" where
  "newCPUSampler cpu now = \<lparr>cpuPct = None, lastCPU = cpu, lastAt = now\<rparr>"

definition sampler_tick :: "int \<Rightarrow> int \<Rightarrow> cpuSampler \<Rightarrow> cpuSampler" where
  \<comment> \<open>one round of the loop\<close>
  "sampler_tick cpu now s =
     (let wall = now - lastAt s; used = cpu - lastCPU s
      in s\<lparr>cpuPct := (if wall > 0 then Some (used, wall) else cpuPct s), lastCPU := cpu, lastAt := now\<rparr>)"

definition Usage :: "cpuSampler \<Rightarrow> (int \<times> int) option" where
  "Usage s = cpuPct s"

definition getProcessCPUTime :: "int \<times> int \<Rightarrow> int \<times> int \<Rightarrow> int" where
  \<comment> \<open>user and system time, each as seconds and microseconds\<close>
  "getProcessCPUTime u s = (fst u * 10 ^ 9 + snd u * 10 ^ 3) + (fst s * 10 ^ 9 + snd s * 10 ^ 3)"

lemma sampler_no_division_by_zero:
  assumes "sampler_tick cpu now s = s'" and "\<forall>u w. cpuPct s = Some (u, w) \<longrightarrow> 0 < w"
  shows "\<forall>u w. Usage s' = Some (u, w) \<longrightarrow> 0 < w"
  using assms by (auto simp: sampler_tick_def Usage_def Let_def split: if_splits)

section \<open>State and requests\<close>

record 'os dash =
  db_sim :: "'os machine"
  db_upd :: updater
  db_logs :: store
  db_cpu :: cpuSampler

record http_request =
  hr_path :: string
  hr_method :: string
  hr_query :: "string \<Rightarrow> string"      \<comment> \<open>empty when the parameter is missing\<close>
  hr_body :: "string + string"        \<comment> \<open>Inl: reading it fails\<close>

record 'os dash_env =
  de_sim :: "'os sim_env"
  de_upd :: upd_env
  de_texts :: error_texts
  de_started :: int
  de_figures :: "(string \<times> int) list"   \<comment> \<open>goroutines, memory and collector figures\<close>
  de_result :: "string \<Rightarrow> result option"
  de_device :: "string + string \<Rightarrow> string + device"
  de_ap :: "string + string \<Rightarrow> string + (string \<times> ap)"
  de_client :: "string + string \<Rightarrow> string + (string \<times> string \<times> client)"
  de_ssids :: "string + string \<Rightarrow> string + (string \<times> string \<times> string list)"
  de_move :: "string + string \<Rightarrow> string + (string \<times> string \<times> string \<times> string)"
  de_index :: "string option"
  de_files :: "string \<Rightarrow> rw"

type_synonym 'os handler = "http_request \<Rightarrow> 'os dash \<Rightarrow> rw \<times> 'os dash"

definition fails :: "string \<Rightarrow> int \<Rightarrow> 'os dash \<Rightarrow> rw \<times> 'os dash" where
  "fails msg code s = (http_error (error_body msg) code new_rw, s)"

definition not_allowed :: "'os dash \<Rightarrow> rw \<times> 'os dash" where
  "not_allowed s = (http_error ''method not allowed'' 405 new_rw, s)"

definition on_sim :: "'os dash_env \<Rightarrow> int \<Rightarrow> rw \<Rightarrow> sim_error option \<times> 'os machine \<Rightarrow> 'os dash \<Rightarrow> rw \<times> 'os dash" where
  \<comment> \<open>the error check after a simulator operation: its status on an error, the answer on success\<close>
  "on_sim env code answer r s =
     (let s' = s\<lparr>db_sim := snd r\<rparr>
      in case fst r of
           Some e \<Rightarrow> fails (sim_error_text (de_texts env) e) code s'
         | None \<Rightarrow> (answer, s'))"

definition created :: "payload \<Rightarrow> rw" where
  \<comment> \<open>\<^verbatim>\<open>w.WriteHeader(http.StatusCreated); writeJSON(w, ...)\<close>\<close>
  "created p = writeJSON p (WriteHeader 201 new_rw)"

definition ok_json :: "payload \<Rightarrow> rw" where
  "ok_json p = writeJSON p new_rw"

section \<open>Handlers\<close>

definition api_system :: "'os dash_env \<Rightarrow> int \<Rightarrow> 'os dash \<Rightarrow> rw" where
  "api_system env now s = ok_json (JSystem (now - de_started env) (Usage (db_cpu s)) (de_figures env))"

definition api_devices :: "'os dash_env \<Rightarrow> int \<Rightarrow> 'os handler" where
  "api_devices env now r s =
     (let sm = de_sim env
      in if hr_method r = ''GET'' \<or> hr_method r = [] then (ok_json (JDevices (Devices (db_sim s))), s)
         else if hr_method r = ''POST'' then
           (case de_device env (hr_body r) of
              Inl e \<Rightarrow> fails e 400 s
            | Inr dev \<Rightarrow> on_sim env 409 (created (JDevice dev)) (AddDevice sm now dev (db_sim s)) s)
         else if hr_method r = ''DELETE'' then
           (let ip = hr_query r ''ip''
            in if ip = [] then fails ''ip query parameter required'' 400 s
               else on_sim env 404 (ok_json (JStatus [(''status'', ''removed''), (''ip'', ip)] None))
                      (RemoveDevice sm ip (db_sim s)) s)
         else not_allowed s)"

definition api_ap :: "'os dash_env \<Rightarrow> 'os handler" where
  "api_ap env r s =
     (let sm = de_sim env
      in if hr_method r = ''POST'' then
           (case de_ap env (hr_body r) of
              Inl e \<Rightarrow> fails e 400 s
            | Inr (ip, a) \<Rightarrow>
                if ip = [] \<or> ap_Name a = [] then fails ''device_ip and ap.name are required'' 400 s
                else on_sim env 404 (created (JAP a)) (AddAP sm ip a (db_sim s)) s)
         else if hr_method r = ''DELETE'' then
           (let ip = hr_query r ''device_ip''; name = hr_query r ''name''
            in if ip = [] \<or> name = [] then fails ''device_ip and name query parameters required'' 400 s
               else on_sim env 404 (ok_json (JStatus [(''status'', ''removed'')] None)) (RemoveAP sm ip name (db_sim s)) s)
         else not_allowed s)"

definition api_client :: "'os dash_env \<Rightarrow> 'os handler" where
  "api_client env r s =
     (let sm = de_sim env
      in if hr_method r = ''POST'' then
           (case de_client env (hr_body r) of
              Inl e \<Rightarrow> fails e 400 s
            | Inr (ip, apName, c) \<Rightarrow>
                if ip = [] \<or> apName = [] \<or> c_MAC c = [] then fails ''device_ip, ap_name, and client.mac are required'' 400 s
                else on_sim env 404 (created (JClient c)) (AddClient sm ip apName c (db_sim s)) s)
         else if hr_method r = ''DELETE'' then
           (let ip = hr_query r ''device_ip''; mac = hr_query r ''mac''
            in if ip = [] \<or> mac = [] then fails ''device_ip and mac query parameters required'' 400 s
               else on_sim env 404 (ok_json (JStatus [(''status'', ''removed'')] None)) (RemoveClient sm ip mac (db_sim s)) s)
         else not_allowed s)"

definition api_ssids :: "'os dash_env \<Rightarrow> 'os handler" where
  "api_ssids env r s =
     (if hr_method r \<noteq> ''PUT'' then not_allowed s
      else case de_ssids env (hr_body r) of
             Inl e \<Rightarrow> fails e 400 s
           | Inr (ip, apName, ssids) \<Rightarrow>
               on_sim env 404 (ok_json (JSSIDs ssids)) (UpdateAPSSIDs (de_sim env) ip apName ssids (db_sim s)) s)"

definition api_move :: "'os dash_env \<Rightarrow> 'os handler" where
  "api_move env r s =
     (if hr_method r \<noteq> ''PUT'' then not_allowed s
      else case de_move env (hr_body r) of
             Inl e \<Rightarrow> fails e 400 s
           | Inr (ip, mac, newAP, newSSID) \<Rightarrow>
               on_sim env 404 (ok_json (JStatus [(''status'', ''moved'')] None))
                 (UpdateClient (de_sim env) ip mac newAP newSSID (db_sim s)) s)"

definition import_cap :: nat where
  "import_cap = 8 * 2 ^ 20"

definition api_export :: "'os dash_env \<Rightarrow> string \<Rightarrow> 'os handler" where
  \<comment> \<open>the argument is the timestamp in the file name\<close>
  "api_export env ts r s =
     (if hr_method r \<noteq> ''GET'' \<and> hr_method r \<noteq> [] then not_allowed s
      else case ExportYAML (de_sim env) (db_sim s) of
             Inl e \<Rightarrow> fails (et_conf (de_texts env) e) 500 s
           | Inr data \<Rightarrow>
               (write_body (Yaml data)
                  (set_header ''Content-Disposition'' (''attachment; filename='' @ go_quote (''wlcsim-config-'' @ ts @ ''.yaml''))
                     (set_header ''Content-Type'' ''application/x-yaml'' new_rw)), s))"

definition count_devices :: "sim_error option \<times> 'os machine \<Rightarrow> int option" where
  "count_devices r = Some (int (length (Devices (snd r))))"

definition api_import :: "'os dash_env \<Rightarrow> int \<Rightarrow> 'os handler" where
  "api_import env now r s =
     (if hr_method r \<noteq> ''POST'' then not_allowed s
      else case hr_body r of
             Inl e \<Rightarrow> fails e 400 s
           | Inr body \<Rightarrow>
               let data = take import_cap body
               in if data = [] then fails ''empty config'' 400 s
                  else let res = ImportConfig (de_sim env) now data (db_sim s)
                       in on_sim env 400 (ok_json (JStatus [(''status'', ''imported'')] (count_devices res))) res s)"

definition api_reset :: "'os dash_env \<Rightarrow> int \<Rightarrow> 'os handler" where
  "api_reset env now r s =
     (if hr_method r \<noteq> ''POST'' then not_allowed s
      else let mode = hr_query r ''mode'';
               done = (\<lambda>res. on_sim env 500
                  (ok_json (JStatus [(''status'', ''reset''), (''mode'', mode)] (count_devices res))) res s)
           in if mode = ''factory'' then done (FactoryReset (de_sim env) now (db_sim s))
              else if mode = ''clear'' then done (ClearAll (de_sim env) now (db_sim s))
              else fails (''mode must be '' @ [CHR 0x27] @ ''factory'' @ [CHR 0x27] @ '' or '' @ [CHR 0x27] @ ''clear'' @ [CHR 0x27]) 400 s)"

definition update_status :: "'os dash_env \<Rightarrow> int \<Rightarrow> 'os dash \<Rightarrow> payload" where
  "update_status env now s = JUpdate (Status (de_result env) now (db_upd s) (m_fs (db_sim s)))"

definition api_update_status :: "'os dash_env \<Rightarrow> int \<Rightarrow> 'os handler" where
  "api_update_status env now r s =
     (if hr_method r \<noteq> ''GET'' \<and> hr_method r \<noteq> [] then not_allowed s
      else (ok_json (update_status env now s), s))"

definition api_update_check :: "'os dash_env \<Rightarrow> int \<Rightarrow> 'os handler" where
  "api_update_check env now r s =
     (if hr_method r \<noteq> ''POST'' then not_allowed s
      else if \<not> u_appliance (db_upd s) then fails (upd_error_text (de_texts env) ErrNotAppliance) 403 s
      else let (res, u) = CheckLatest (de_upd env) now (db_upd s); s' = s\<lparr>db_upd := u\<rparr>
           in case res of
                Inl e \<Rightarrow> fails (upd_error_text (de_texts env) e) 502 s'
              | Inr _ \<Rightarrow> (ok_json (update_status env now s'), s'))"

definition apply_code :: "upd_error \<Rightarrow> int" where
  "apply_code e =
     (if e = ErrNotAppliance then 403
      else if e = ErrAlreadyInProgress then 409
      else if e = ErrNoUpdateAvailable \<or> e = ErrUnsupportedArch then 400
      else if e = ErrInsufficientSpace then 507
      else 502)"

definition api_update_apply :: "'os dash_env \<Rightarrow> int \<Rightarrow> 'os handler" where
  "api_update_apply env now r s =
     (if hr_method r \<noteq> ''POST'' then not_allowed s
      else let (res, u) = Apply (de_upd env) now (db_upd s); s' = s\<lparr>db_upd := u\<rparr>
           in case res of
                Inl e \<Rightarrow> fails (upd_error_text (de_texts env) e) (apply_code e) s'
              | Inr _ \<Rightarrow> (writeJSON (JStatus [(''status'', ''started'')] None) (WriteHeader 202 new_rw), s'))"

definition api_logs :: "'os handler" where
  "api_logs r s =
     (case Recent 500 (db_logs s) of
        Inr es \<Rightarrow> (ok_json (JEntries es), s)
      | Inl _ \<Rightarrow> (new_rw, s))"

definition api_logs_stream :: "'os handler" where
  \<comment> \<open>up to the first \<^verbatim>\<open>Flush\<close> and the subscription; the loop is \<open>stream_step\<close>\<close>
  "api_logs_stream r s =
     (let w = WriteHeader 200 (set_header ''Access-Control-Allow-Origin'' ''*''
                (set_header ''Connection'' ''keep-alive'' (set_header ''Cache-Control'' ''no-cache''
                  (set_header ''Content-Type'' ''text/event-stream'' new_rw))))
      in (w, s\<lparr>db_logs := snd (Subscribe (db_logs s))\<rparr>))"

datatype stream_event =
    Recorded int entry   \<comment> \<open>a request is logged at that time\<close>
  | Turn                 \<comment> \<open>the handler's select runs with a receive\<close>
  | ClientGone           \<comment> \<open>the request's context is done\<close>

record stream =
  st_chan :: nat
  st_open :: bool
  st_store :: store
  st_out :: "entry list"   \<comment> \<open>the events written to the client\<close>

definition stream_turn :: "stream \<Rightarrow> stream" where
  "stream_turn t =
     (case Receive (st_chan t) (st_store t) of
        None \<Rightarrow> t
      | Some (None, s) \<Rightarrow> t\<lparr>st_open := False, st_store := s\<rparr>
      | Some (Some e, s) \<Rightarrow> t\<lparr>st_store := s, st_out := st_out t @ [e]\<rparr>)"

fun stream_step :: "stream_event \<Rightarrow> stream \<Rightarrow> panic + stream" where
  "stream_step (Recorded now e) t = (case Add now e (st_store t) of
       Inl p \<Rightarrow> Inl p | Inr s \<Rightarrow> Inr (t\<lparr>st_store := s\<rparr>))"
| "stream_step Turn t = Inr (if st_open t then stream_turn t else t)"
| "stream_step ClientGone t =
     (if st_open t
      then (case Unsubscribe (st_chan t) (st_store t) of
              Inl p \<Rightarrow> Inl p | Inr s \<Rightarrow> Inr (t\<lparr>st_open := False, st_store := s\<rparr>))
      else Inr t)"

fun run_stream :: "stream_event list \<Rightarrow> stream \<Rightarrow> panic + stream" where
  "run_stream [] t = Inr t"
| "run_stream (ev # evs) t = on_ok (run_stream evs) (stream_step ev t)"

definition serve_index :: "'os dash_env \<Rightarrow> 'os handler" where
  "serve_index env r s =
     (if hr_path r = ''/'' then
        (case de_index env of
           None \<Rightarrow> (http_error ''not found'' 404 new_rw, s)
         | Some html \<Rightarrow> (write_body (Html html) (set_header ''Content-Type'' ''text/html; charset=utf-8'' new_rw), s))
      else (de_files env (hr_path r), s))"

definition dashboard :: "'os dash_env \<Rightarrow> int \<Rightarrow> string \<Rightarrow> 'os handler" where
  "dashboard env now ts r s =
     (let p = hr_path r
      in if p = ''/api/system'' then (api_system env now s, s)
         else if p = ''/api/auth'' then (ok_json (JAuth (Auth (db_sim s))), s)
         else if p = ''/api/devices'' then api_devices env now r s
         else if p = ''/api/devices/ap'' then api_ap env r s
         else if p = ''/api/devices/client'' then api_client env r s
         else if p = ''/api/devices/ap/ssids'' then api_ssids env r s
         else if p = ''/api/devices/client/move'' then api_move env r s
         else if p = ''/api/config/export'' then api_export env ts r s
         else if p = ''/api/config/import'' then api_import env now r s
         else if p = ''/api/config/reset'' then api_reset env now r s
         else if p = ''/api/update/status'' then api_update_status env now r s
         else if p = ''/api/update/check'' then api_update_check env now r s
         else if p = ''/api/update/apply'' then api_update_apply env now r s
         else if p = ''/api/logs'' then api_logs r s
         else if p = ''/api/logs/stream'' then api_logs_stream r s
         else serve_index env r s)"

section \<open>The live log stream\<close>

text \<open>
  What a stream promises: a queue of at most 64 entries between the log and the client.
\<close>

fun queue_run :: "stream_event list \<Rightarrow> entry list \<Rightarrow> entry list" where
  "queue_run [] q = []"
| "queue_run (Recorded now e # evs) q = queue_run evs (take listener_cap (q @ [stamp now e]))"
| "queue_run (Turn # evs) [] = queue_run evs []"
| "queue_run (Turn # evs) (e # q) = e # queue_run evs q"
| "queue_run (ClientGone # evs) q = []"

fun recorded :: "stream_event list \<Rightarrow> entry list" where
  "recorded [] = []"
| "recorded (Recorded now e # evs) = stamp now e # recorded evs"
| "recorded (Turn # evs) = recorded evs"
| "recorded (ClientGone # evs) = []"

lemma subseq_take_append: "subseq (take n (q @ [e]) @ es) (q @ e # es)"
proof -
  have "subseq (take n (q @ [e])) (q @ [e])" by (metis append_take_drop_id subseq_append' list_emb_append2 subseq_order.refl list_emb_append_mono append_Nil2 list_emb_Nil)
  from list_emb_append_mono [OF this subseq_order.refl, of es] show ?thesis by simp
qed

lemma queue_run_subseq: "subseq (queue_run evs q) (q @ recorded evs)"
proof (induction evs q rule: queue_run.induct)
  case (2 now e evs q)
  then show ?case
    using subseq_take_append [of listener_cap q "stamp now e" "recorded evs"]
    by (auto intro: subseq_order.order_trans)
qed auto

lemma closed_stream: "store_wf (st_store t) \<Longrightarrow> \<not> st_open t \<Longrightarrow>
    \<exists>t'. run_stream evs t = Inr t' \<and> st_out t' = st_out t \<and> store_wf (st_store t')"
proof (induction evs arbitrary: t)
  case Nil
  then show ?case by simp
next
  case (Cons ev evs)
  show ?case
  proof (cases ev)
    case (Recorded now e)
    with Cons.IH [of "t\<lparr>st_store := Add_ok now e (st_store t)\<rparr>"] Cons.prems
      Add_result [OF Cons.prems(1), of now e]
    show ?thesis by auto
  qed (use Cons in auto)
qed

definition live :: "entry list \<Rightarrow> stream \<Rightarrow> bool" where
  "live q t \<longleftrightarrow> st_open t \<and> store_wf (st_store t) \<and> st_chan t \<in> set (listeners (st_store t)) \<and>
     chans (st_store t) (st_chan t) = Some \<lparr>ch_buf = q, ch_closed = False\<rparr>"

lemma live_record:
  assumes "live q t"
  shows "live (take listener_cap (q @ [stamp now e])) (t\<lparr>st_store := Add_ok now e (st_store t)\<rparr>)"
  using assms Add_result [of "st_store t" now e] Add_ok_chans [of "st_store t" "st_chan t" now e]
  by (simp add: live_def)

lemma live_turn_empty: "live [] t \<Longrightarrow> stream_turn t = t"
  by (simp add: live_def stream_turn_def Receive_def)

lemma live_turn:
  assumes "live (e # q) t"
  shows "live q (stream_turn t) \<and> st_out (stream_turn t) = st_out t @ [e]"
proof -
  have "Suc (length q) \<le> listener_cap"
    using assms by (fastforce simp: live_def store_wf_def)
  then show ?thesis
    using assms by (auto simp: live_def stream_turn_def Receive_def store_wf_def)
qed

lemma live_stream: "live q t \<Longrightarrow>
    \<exists>t'. run_stream evs t = Inr t' \<and> st_out t' = st_out t @ queue_run evs q \<and> store_wf (st_store t')"
proof (induction evs q arbitrary: t rule: queue_run.induct)
  case (1 q)
  then show ?case by (simp add: live_def)
next
  case (2 now e evs q)
  then have "Add now e (st_store t) = Inr (Add_ok now e (st_store t))"
    using Add_result by (simp add: live_def)
  with "2.IH" [OF live_record [OF "2.prems", of now e]] show ?case by simp
next
  case (3 evs)
  then have "st_open t" by (simp add: live_def)
  with 3 live_turn_empty [of t] show ?case by simp
next
  case (4 evs e q)
  then have "st_open t" by (simp add: live_def)
  from live_turn [OF "4.prems"] have "live q (stream_turn t)" and out: "st_out (stream_turn t) = st_out t @ [e]"
    by simp_all
  from "4.IH" [OF this(1)] out \<open>st_open t\<close> show ?case by simp
next
  case (5 evs q)
  then have o: "st_open t" and wf: "store_wf (st_store t)" by (simp_all add: live_def)
  from Unsubscribe_ok [OF wf] obtain s where u: "Unsubscribe (st_chan t) (st_store t) = Inr s" by blast
  from closed_stream [of "t\<lparr>st_open := False, st_store := s\<rparr>" evs] Unsubscribe_wf [OF wf u] o u
  show ?case by simp
qed

definition opened :: "'os dash \<Rightarrow> http_request \<Rightarrow> stream" where
  "opened s r = \<lparr>st_chan = next_chan (db_logs s), st_open = True,
     st_store = db_logs (snd (api_logs_stream r s)), st_out = []\<rparr>"

lemma live_opened: "store_wf (db_logs s) \<Longrightarrow> live [] (opened s r)"
  using Subscribe_wf [of "db_logs s" "fst (Subscribe (db_logs s))" "snd (Subscribe (db_logs s))"]
  by (simp add: live_def opened_def api_logs_stream_def Subscribe_def Let_def)


section \<open>Error answers as JSON\<close>

text \<open>
  A strict reader of the answer \<^verbatim>\<open>{"error":"..."}\<close>: one member, its text a JSON
  string (no control characters; the two-character escapes are undone, \<^verbatim>\<open>\u\<close>
  escapes, which no text here has, are not read).
\<close>

definition json_escape :: "char \<Rightarrow> char option" where
  "json_escape c =
     (if c = CHR 0x22 \<or> c = CHR 0x5C \<or> c = CHR ''/'' then Some c
      else if c = CHR ''b'' then Some (CHR 0x08) else if c = CHR ''f'' then Some (CHR 0x0C)
      else if c = CHR ''n'' then Some (CHR 0x0A) else if c = CHR ''r'' then Some (CHR 0x0D)
      else if c = CHR ''t'' then Some (CHR 0x09) else None)"

fun json_string :: "string \<Rightarrow> string \<Rightarrow> (string \<times> string) option" where
  "json_string acc [] = None"
| "json_string acc (c # cs) =
     (if c = CHR 0x22 then Some (rev acc, cs)
      else if char_code c < 32 then None
      else if c = CHR 0x5C then
        (case cs of
           [] \<Rightarrow> None
         | d # ds \<Rightarrow> (case json_escape d of None \<Rightarrow> None | Some x \<Rightarrow> json_string (x # acc) ds))
      else json_string (c # acc) cs)"

definition error_prefix :: string where
  "error_prefix = [CHR ''{'', CHR 0x22] @ ''error'' @ [CHR 0x22, CHR '':'', CHR 0x22]"

definition read_error :: "string \<Rightarrow> string option" where
  "read_error s =
     (if take (length error_prefix) s \<noteq> error_prefix then None
      else case json_string [] (drop (length error_prefix) s) of
             Some (msg, rest) \<Rightarrow> if rest = [CHR ''}'', CHR 0x0A] then Some msg else None
           | None \<Rightarrow> None)"

definition json_plain :: "char \<Rightarrow> bool" where
  "json_plain c \<longleftrightarrow> c \<noteq> CHR 0x22 \<and> c \<noteq> CHR 0x5C \<and> 32 \<le> char_code c"

lemma json_string_plain:
  "list_all json_plain s \<Longrightarrow> json_string acc (s @ CHR 0x22 # rest) = Some (rev acc @ s, rest)"
  by (induction s arbitrary: acc) (simp_all add: json_plain_def)

lemma error_body_prefix: "error_body msg = error_prefix @ msg @ [CHR 0x22, CHR ''}'']"
  by (simp add: error_body_def error_prefix_def)

lemma read_error_plain: "list_all json_plain msg \<Longrightarrow> read_error (error_body msg @ [CHR 0x0A]) = Some msg"
  by (simp add: read_error_def error_body_prefix json_string_plain)

lemma read_error_quote:
  assumes "list_all json_plain a" and "rest \<noteq> []"
  shows "read_error (error_body (a @ CHR 0x22 # rest) @ [CHR 0x0A]) = None"
  using assms json_string_plain [OF assms(1), of "[]" "rest @ [CHR 0x22, CHR ''}'', CHR 0x0A]"]
  by (auto simp: read_error_def error_body_prefix)

lemma go_quote_split: "go_quote n = CHR 0x22 # concat (map go_quote_char n) @ [CHR 0x22]"
  by (simp add: go_quote_def)

lemma RemoveAP_errors:
  assumes "RemoveAP env ip name m = (Some e, m')"
  shows "e \<in> {DeviceNotFound ip, APNotFound name ip, DefaultAPLocked name}"
  using assms by (auto simp: RemoveAP_def on_device_def remove_ap_def Let_def split: option.splits if_splits prod.splits)

lemma sim_error_text_plain:
  assumes "e \<in> {DeviceNotFound ip, APNotFound name ip}" and "list_all json_plain (ip @ name)"
  shows "list_all json_plain (sim_error_text t e)"
proof -
  have "list_all json_plain ''device with IP ''" "list_all json_plain '' not found''" "list_all json_plain ''AP ''"
    "list_all json_plain '' not found on device ''"
    by code_simp+
  with assms show ?thesis by auto
qed

lemma locked_text_unreadable:
  "read_error (error_body (sim_error_text t (DefaultAPLocked n)) @ [CHR 0x0A]) = None"
proof -
  have "list_all json_plain ''cannot remove ''" by code_simp
  from read_error_quote [OF this, of "concat (map go_quote_char n) @ [CHR 0x22] @ '': it is the site'' @ [CHR 0x27] @ ''s default AP''"]
  show ?thesis by (simp add: go_quote_split)
qed

lemma fails_parts [simp]:
  "snd (fails msg code s) = s" "rw_code (fst (fails msg code s)) = code"
  "rw_body (fst (fails msg code s)) = [ErrorText (error_body msg @ [CHR 0x0A])]"
  by (simp_all add: fails_def http_error_def write_body_def WriteHeader_def set_header_def new_rw_def rw_code_def Let_def)

text \<open>
  The error answers of removing an access point: with texts free of quotes, backslashes and control
  characters the answer is a JSON object that carries the error; but the refusal to remove the
  site's default access point quotes its name inside the JSON string, so that answer
  is never a readable JSON object, whatever the name.
\<close>

theorem remove_AP_error_bodies:
  assumes "hr_path r = ''/api/devices/ap''" and "hr_method r = ''DELETE''"
    and "hr_query r ''device_ip'' = ip" and "hr_query r ''name'' = name" and "ip \<noteq> []" and "name \<noteq> []"
    and "RemoveAP (de_sim env) ip name (db_sim s) = (Some e, m')"
  shows "rw_code (fst (dashboard env now ts r s)) = 404 \<and>
    (\<exists>b. rw_body (fst (dashboard env now ts r s)) = [ErrorText b] \<and>
      (if e = DefaultAPLocked name then read_error b = None
       else list_all json_plain (ip @ name) \<longrightarrow> read_error b = Some (sim_error_text (de_texts env) e)))"
proof -
  let ?b = "error_body (sim_error_text (de_texts env) e) @ [CHR 0x0A]"
  have d: "dashboard env now ts r s = fails (sim_error_text (de_texts env) e) 404 (s\<lparr>db_sim := m'\<rparr>)"
    using assms by (simp add: dashboard_def api_ap_def on_sim_def Let_def)
  have "e \<noteq> DefaultAPLocked name \<Longrightarrow> list_all json_plain (ip @ name) \<Longrightarrow>
      list_all json_plain (sim_error_text (de_texts env) e)"
    using RemoveAP_errors [OF assms(7)] by (intro sim_error_text_plain [of e ip name]) auto
  then show ?thesis
    unfolding d by (auto simp: read_error_plain locked_text_unreadable simp del: sim_error_text.simps)
qed

section \<open>The API as requests to the simulator\<close>

text \<open>
  The abstract API: the simulator request an HTTP request stands for, if any. Everything that is
  missing a required part, has the wrong method or does not decode stands for none.
\<close>

definition some_if :: "bool \<Rightarrow> 'a \<Rightarrow> 'a option" where
  "some_if b x = (if b then Some x else None)"

definition decoded :: "('a \<Rightarrow> 'b option) \<Rightarrow> string + 'a \<Rightarrow> 'b option" where
  "decoded f d = (case d of Inl _ \<Rightarrow> None | Inr x \<Rightarrow> f x)"

definition request_of :: "'os dash_env \<Rightarrow> http_request \<Rightarrow> request option" where
  "request_of env r =
     (let p = hr_path r; meth = hr_method r; b = hr_body r; q = hr_query r
      in if p = ''/api/devices'' \<and> meth = ''POST'' then decoded (\<lambda>d. Some (ReqAddDevice d)) (de_device env b)
         else if p = ''/api/devices'' \<and> meth = ''DELETE'' then some_if (q ''ip'' \<noteq> []) (ReqRemoveDevice (q ''ip''))
         else if p = ''/api/devices/ap'' \<and> meth = ''POST'' then
           decoded (\<lambda>(ip, a). some_if (ip \<noteq> [] \<and> ap_Name a \<noteq> []) (ReqAddAP ip a)) (de_ap env b)
         else if p = ''/api/devices/ap'' \<and> meth = ''DELETE'' then
           some_if (q ''device_ip'' \<noteq> [] \<and> q ''name'' \<noteq> []) (ReqRemoveAP (q ''device_ip'') (q ''name''))
         else if p = ''/api/devices/client'' \<and> meth = ''POST'' then
           decoded (\<lambda>(ip, n, c). some_if (ip \<noteq> [] \<and> n \<noteq> [] \<and> c_MAC c \<noteq> []) (ReqAddClient ip n c)) (de_client env b)
         else if p = ''/api/devices/client'' \<and> meth = ''DELETE'' then
           some_if (q ''device_ip'' \<noteq> [] \<and> q ''mac'' \<noteq> []) (ReqRemoveClient (q ''device_ip'') (q ''mac''))
         else if p = ''/api/devices/ap/ssids'' \<and> meth = ''PUT'' then
           decoded (\<lambda>(ip, n, ss). Some (ReqUpdateAPSSIDs ip n ss)) (de_ssids env b)
         else if p = ''/api/devices/client/move'' \<and> meth = ''PUT'' then
           decoded (\<lambda>(ip, mac, n, ss). Some (ReqUpdateClient ip mac n ss)) (de_move env b)
         else if p = ''/api/config/import'' \<and> meth = ''POST'' then
           decoded (\<lambda>data. some_if (data \<noteq> []) (ReqImport (take import_cap data))) b
         else if p = ''/api/config/reset'' \<and> meth = ''POST'' then
           (if q ''mode'' = ''factory'' then Some ReqFactoryReset
            else if q ''mode'' = ''clear'' then Some ReqClear else None)
         else None)"

text \<open>What a handler does for the request it stands for.\<close>

definition carries_out :: "'os dash_env \<Rightarrow> int \<Rightarrow> request option \<Rightarrow> 'os dash \<Rightarrow> rw \<times> 'os dash \<Rightarrow> bool" where
  "carries_out env now req s res \<longleftrightarrow>
     (case req of
        None \<Rightarrow> db_sim (snd res) = db_sim s
      | Some q \<Rightarrow> snd res = s\<lparr>db_sim := snd (perform (de_sim env) now q (db_sim s))\<rparr> \<and>
          (rw_code (fst res) < 400 \<longleftrightarrow> fst (perform (de_sim env) now q (db_sim s)) = None))"

lemma answer_codes [simp]:
  "rw_code (created p) = 201" "rw_code (ok_json p) = 200"
  by (simp_all add: created_def ok_json_def writeJSON_def write_body_def WriteHeader_def set_header_def new_rw_def
      rw_code_def Let_def)

lemma on_sim_carries_out:
  assumes "r = perform (de_sim env) now q (db_sim s)" and "400 \<le> code" and "rw_code answer < 400"
  shows "carries_out env now (Some q) s (on_sim env code answer r s)"
  using assms by (auto simp: carries_out_def on_sim_def Let_def split: option.splits)

lemma no_request: "db_sim (snd res) = db_sim s \<Longrightarrow> carries_out env now None s res"
  by (simp add: carries_out_def)

lemma not_allowed_sim [simp]: "snd (not_allowed s) = s"
  by (simp add: not_allowed_def)

lemmas api_handlers = api_devices_def api_ap_def api_client_def api_ssids_def api_move_def api_import_def api_reset_def

lemmas api_requests = request_of_def decoded_def some_if_def import_cap_def

lemma api_devices_carries: "hr_path r = ''/api/devices'' \<Longrightarrow> carries_out env now (request_of env r) s (api_devices env now r s)"
  by (auto simp: api_devices_def api_requests Let_def split: sum.splits intro!: no_request on_sim_carries_out)

lemma api_ap_carries: "hr_path r = ''/api/devices/ap'' \<Longrightarrow> carries_out env now (request_of env r) s (api_ap env r s)"
  by (auto simp: api_ap_def api_requests Let_def split: sum.splits intro!: no_request on_sim_carries_out)

lemma api_client_carries:
  "hr_path r = ''/api/devices/client'' \<Longrightarrow> carries_out env now (request_of env r) s (api_client env r s)"
  by (auto simp: api_client_def api_requests Let_def split: sum.splits intro!: no_request on_sim_carries_out)

lemma api_ssids_carries:
  "hr_path r = ''/api/devices/ap/ssids'' \<Longrightarrow> carries_out env now (request_of env r) s (api_ssids env r s)"
  by (auto simp: api_ssids_def api_requests Let_def split: sum.splits intro!: no_request on_sim_carries_out)

lemma api_move_carries:
  "hr_path r = ''/api/devices/client/move'' \<Longrightarrow> carries_out env now (request_of env r) s (api_move env r s)"
  by (auto simp: api_move_def api_requests Let_def split: sum.splits intro!: no_request on_sim_carries_out)

lemma api_import_carries:
  "hr_path r = ''/api/config/import'' \<Longrightarrow> carries_out env now (request_of env r) s (api_import env now r s)"
  by (auto simp: api_import_def api_requests Let_def split: sum.splits intro!: no_request on_sim_carries_out)

lemma api_reset_carries:
  "hr_path r = ''/api/config/reset'' \<Longrightarrow> carries_out env now (request_of env r) s (api_reset env now r s)"
  by (auto simp: api_reset_def api_requests Let_def intro!: no_request on_sim_carries_out)

lemma api_export_sim: "db_sim (snd (api_export env ts r s)) = db_sim s"
  by (simp add: api_export_def split: sum.splits)

lemma update_handlers_sim:
  "db_sim (snd (api_update_status env now r s)) = db_sim s"
  "db_sim (snd (api_update_check env now r s)) = db_sim s"
  "db_sim (snd (api_update_apply env now r s)) = db_sim s"
  by (simp_all add: api_update_status_def api_update_check_def api_update_apply_def Let_def split: sum.splits prod.splits)

lemma log_handlers_sim:
  "db_sim (snd (api_logs r s)) = db_sim s" "db_sim (snd (api_logs_stream r s)) = db_sim s"
  "db_sim (snd (serve_index env r s)) = db_sim s"
  by (simp_all add: api_logs_def api_logs_stream_def serve_index_def Let_def split: sum.splits option.splits)

lemma other_paths_no_request:
  "hr_path r \<notin> {''/api/devices'', ''/api/devices/ap'', ''/api/devices/client'', ''/api/devices/ap/ssids'',
     ''/api/devices/client/move'', ''/api/config/import'', ''/api/config/reset''} \<Longrightarrow> request_of env r = None"
  by (simp add: request_of_def Let_def)

lemma dashboard_no_request:
  assumes "hr_path r \<notin> {''/api/devices'', ''/api/devices/ap'', ''/api/devices/client'', ''/api/devices/ap/ssids'',
     ''/api/devices/client/move'', ''/api/config/import'', ''/api/config/reset''}"
  shows "db_sim (snd (dashboard env now ts r s)) = db_sim s"
  using assms
  by (simp add: dashboard_def Let_def api_export_sim update_handlers_sim log_handlers_sim)

text \<open>
  C4. The HTTP API is a faithful front end of the simulator: each HTTP request either stands for exactly one
  simulator request or for none, as read off its path, method, parameters and decoded body. In the
  first case the simulator's state afterwards is that of the request and nothing else of the
  dashboard's state changes, and the status is below 400 exactly when the request succeeds;
  in the second the simulator is not touched.
\<close>

theorem dashboard_refines_simulator:
  "carries_out env now (request_of env r) s (dashboard env now ts r s)"
proof (cases "hr_path r \<in> {''/api/devices'', ''/api/devices/ap'', ''/api/devices/client'', ''/api/devices/ap/ssids'',
     ''/api/devices/client/move'', ''/api/config/import'', ''/api/config/reset''}")
  case False
  from other_paths_no_request [OF this, of env] dashboard_no_request [OF False, of env now ts s] show ?thesis
    by (simp add: carries_out_def)
next
  case True
  then show ?thesis
    using api_devices_carries api_ap_carries api_client_carries api_ssids_carries api_move_carries api_import_carries
      api_reset_carries
    by (elim insertE) (simp_all add: dashboard_def Let_def)
qed

section \<open>Headers of successful answers\<close>

fun adds :: "request \<Rightarrow> bool" where
  "adds (ReqAddDevice _) = True"
| "adds (ReqAddAP _ _) = True"
| "adds (ReqAddClient _ _ _) = True"
| "adds _ = False"

definition json_answer :: "int \<Rightarrow> string option \<Rightarrow> rw \<Rightarrow> bool" where
  "json_answer code h w \<longleftrightarrow> rw_code w = code \<and> sent_header ''Content-Type'' w = h \<and>
     sent_header ''Access-Control-Allow-Origin'' w = (if h = None then None else Some ''*'')"

lemma answer_headers [simp]:
  "json_answer 201 None (created p)" "json_answer 200 (Some ''application/json'') (ok_json p)"
  by (simp_all add: json_answer_def created_def ok_json_def writeJSON_def write_body_def WriteHeader_def set_header_def new_rw_def
      rw_code_def sent_header_def Let_def)

lemma on_sim_ok: "fst res = None \<Longrightarrow> fst (on_sim env code answer res s) = answer"
  by (simp add: on_sim_def Let_def)

text \<open>
  The header fields of the answers to successful requests: a removal, a change, an import or a
  reset is answered 200 as \<^verbatim>\<open>application/json\<close> with the cross-origin header; the answer to
  an addition (201) is sent without either, because the status line goes out before
  they are set.
\<close>

theorem created_answers_lose_headers:
  assumes "request_of env r = Some q" and "fst (perform (de_sim env) now q (db_sim s)) = None"
  shows "if adds q then json_answer 201 None (fst (dashboard env now ts r s))
    else json_answer 200 (Some ''application/json'') (fst (dashboard env now ts r s))"
proof -
  have "hr_path r \<in> {''/api/devices'', ''/api/devices/ap'', ''/api/devices/client'', ''/api/devices/ap/ssids'',
     ''/api/devices/client/move'', ''/api/config/import'', ''/api/config/reset''}"
    using assms(1) other_paths_no_request [of r env] by auto
  then show ?thesis
    using assms
    by (elim insertE) (auto simp: dashboard_def api_handlers api_requests Let_def on_sim_ok split: sum.splits if_splits)
qed

section \<open>Sample requests\<close>

definition sample_texts :: error_texts where
  "sample_texts = \<lparr>et_net = (\<lambda>_. ''net''), et_conf = (\<lambda>_. ''conf''), et_fs = (\<lambda>_. ''fs''), et_upd = (\<lambda>_. ''update'')\<rparr>"

definition sample_env :: "(string \<times> string) list dash_env" where
  "sample_env = \<lparr>de_sim = linux_sim, de_upd = demo_env, de_texts = sample_texts, de_started = 0, de_figures = [], de_result = (\<lambda>_. None),
     de_device = (\<lambda>_. Inl ''bad''), de_ap = (\<lambda>_. Inr (''10.0.0.1'', empty_ap\<lparr>ap_Name := ''AP2''\<rparr>)),
     de_client = (\<lambda>_. Inl ''bad''), de_ssids = (\<lambda>_. Inl ''bad''), de_move = (\<lambda>_. Inl ''bad''),
     de_index = None, de_files = (\<lambda>_. new_rw)\<rparr>"

definition sample_dash :: "(string \<times> string) list dash" where
  "sample_dash = \<lparr>db_sim = running, db_upd = demo_updater, db_logs = sample_store, db_cpu = newCPUSampler 0 0\<rparr>"

definition sample_request :: "string \<Rightarrow> http_request" where
  "sample_request meth = \<lparr>hr_path = ''/api/devices/ap'', hr_method = meth,
     hr_query = (\<lambda>k. if k = ''device_ip'' then ''10.0.0.1'' else if k = ''name'' then ''A'' else []), hr_body = Inr []\<rparr>"


theorem remove_AP_error_bodies_witness:
  "\<exists>b. rw_body (fst (dashboard sample_env 0 [] (sample_request ''DELETE'') sample_dash)) = [ErrorText b] \<and>
     read_error b = None"
proof -
  let ?r = "RemoveAP linux_sim ''10.0.0.1'' ''A'' running"
  have "fst ?r = Some (DefaultAPLocked ''A'')" by code_simp
  then have "RemoveAP (de_sim sample_env) ''10.0.0.1'' ''A'' (db_sim sample_dash) = (Some (DefaultAPLocked ''A''), snd ?r)"
    by (metis prod.collapse sample_env_def dash_env.select_convs(1) sample_dash_def dash.select_convs(1))
  from remove_AP_error_bodies [of "sample_request ''DELETE''", OF _ _ _ _ _ _ this, of 0 "[]"]
  show ?thesis by (auto simp: sample_request_def)
qed

theorem created_answers_lose_headers_witness:
  "json_answer 201 None (fst (dashboard sample_env 0 [] (sample_request ''POST'') sample_dash))"
proof -
  let ?q = "ReqAddAP ''10.0.0.1'' (empty_ap\<lparr>ap_Name := ''AP2''\<rparr>)"
  have q: "request_of sample_env (sample_request ''POST'') = Some ?q"
    by (simp add: request_of_def sample_request_def sample_env_def decoded_def some_if_def Let_def)
  have "fst (AddAP linux_sim ''10.0.0.1'' (empty_ap\<lparr>ap_Name := ''AP2''\<rparr>) running) = None" by code_simp
  then have "fst (perform (de_sim sample_env) 0 ?q (db_sim sample_dash)) = None"
    by (simp add: sample_env_def sample_dash_def)
  from created_answers_lose_headers [OF q this, of "[]"] show ?thesis by simp
qed

end
