(* ===== verification/Boot.thy ===== *)
theory Boot
  imports Simulator Helper AccessLog
begin

text \<open>
  \<^verbatim>\<open>cmd/wlcsim/main.go\<close>: what one start of the simulator does, from the
  flags to the running servers, and what a stop leaves. The choice between the seed configuration
  and the saved state is stated against the persistence of \<^verbatim>\<open>Simulator\<close>:
  what a restart brings back of a run.
\<close>

section \<open>Flags and outcomes\<close>

record flags =
  fl_config :: string
  fl_state :: string
  fl_dashPort :: int
  fl_lan :: bool
  fl_iface :: string
  fl_setup :: bool
  fl_teardown :: bool
  fl_helper :: string

definition default_flags :: flags where
  "default_flags = \<lparr>fl_config = ''configs/devices.yaml'', fl_state = [], fl_dashPort = 8080, fl_lan = False,
     fl_iface = [], fl_setup = False, fl_teardown = False, fl_helper = []\<rparr>"

datatype boot_error = LoadFailed conf_error | SetupIPsFailed net_error | LANSetupFailed net_error

datatype 'os outcome =
    RunsHelper string
  | Fatal boot_error 'os
  | Exits 'os
  | Serves "'os machine" store updater
  | Panics panic

section \<open>The steps of a start\<close>

definition fileExists :: "string \<Rightarrow> fs \<Rightarrow> bool" where
  \<comment> \<open>the file system of the model has no directories\<close>
  "fileExists path s = (case files s path of None \<Rightarrow> False | Some data \<Rightarrow> data \<noteq> [])"

definition state_path :: "flags \<Rightarrow> string" where
  "state_path f = (if fl_state f = [] then sibling (fl_config f) ''state.yaml'' else fl_state f)"

definition with_seed_template :: "render_env \<Rightarrow> config \<Rightarrow> config \<Rightarrow> config" where
  "with_seed_template env seed st =
     st\<lparr>cfg_TmplText := cfg_TmplText seed, cfg_Devices := map (InitConfig env (cfg_TmplText seed)) (cfg_Devices st)\<rparr>"

definition active_config :: "'os sim_env \<Rightarrow> flags \<Rightarrow> fs \<Rightarrow> conf_error + config" where
  "active_config env f s =
     (case Load (e_render env) (e_yaml env) (fl_config f) s of
        Inl e \<Rightarrow> Inl e
      | Inr seed \<Rightarrow>
          (if fileExists (state_path f) s
           then (case Load (e_render env) (e_yaml env) (state_path f) s of
                   Inl e \<Rightarrow> Inr seed
                 | Inr st \<Rightarrow> Inr (with_seed_template (e_render env) seed st))
           else Inr seed))"

definition boot_addresses :: "'os sim_env \<Rightarrow> flags \<Rightarrow> device list \<Rightarrow> 'os \<Rightarrow> bool \<Rightarrow>
    (net_error + (string \<times> device list)) \<times> 'os \<times> bool" where
  \<comment> \<open>outside LAN mode an error is only logged\<close>
  "boot_addresses env f ds os av =
     (if fl_lan f
      then (case SetupLANIPs (e_net env) ds (fl_iface f) os av of
              (Inl e, os1, av1) \<Rightarrow> (Inl e, os1, av1)
            | (Inr (info, ds1), os1, av1) \<Rightarrow> (Inr (info_Name info, ds1), os1, av1))
      else (Inr ([], ds), snd (SetupIPs (e_net env) ds os), av))"

definition boot_devices :: "'os sim_env \<Rightarrow> int \<Rightarrow> flags \<Rightarrow> string \<Rightarrow> device list \<Rightarrow> device list" where
  "boot_devices env now f tmpl ds =
     (let ds1 = map (\<lambda>d. d\<lparr>d_StartTime := now\<rparr>) ds
      in if fl_lan f then map (InitConfig (e_render env) tmpl) ds1 else ds1)"

definition boot_options :: "flags \<Rightarrow> string \<Rightarrow> options" where
  "boot_options f iface =
     \<lparr>o_StatePath = state_path f, o_SeedPath = fl_config f, o_LAN = fl_lan f, o_Iface = iface\<rparr>"

definition boot_updater :: "string \<Rightarrow> bool \<Rightarrow> flags \<Rightarrow> updater" where
  "boot_updater version appliance f =
     NewUpdater version appliance \<lparr>uo_Repo = [], uo_BinDir = [], uo_WorkDir = [], uo_Port = fl_dashPort f\<rparr>"

definition serve :: "'os sim_env \<Rightarrow> int \<Rightarrow> string \<Rightarrow> bool \<Rightarrow> flags \<Rightarrow> config \<Rightarrow> fs \<Rightarrow> 'os \<Rightarrow> bool \<Rightarrow> 'os outcome" where
  "serve env now version appliance f cfg s os av =
     (case boot_addresses env f (cfg_Devices cfg) os av of
        (Inl e, os1, _) \<Rightarrow> Fatal (LANSetupFailed e) os1
      | (Inr (iface, ds), os1, av1) \<Rightarrow>
          (case NewStore 10000 of
             Inl p \<Rightarrow> Panics p
           | Inr logs \<Rightarrow>
               (let cfg1 = cfg\<lparr>cfg_Devices := boot_devices env now f (cfg_TmplText cfg) ds\<rparr>
                in Serves (StartAll (NewSimulator cfg1 (cfg_TmplText cfg1) (boot_options f iface) s os1 av1)) logs
                     (boot_updater version appliance f))))"

definition wlcsim_main :: "'os sim_env \<Rightarrow> int \<Rightarrow> string \<Rightarrow> bool \<Rightarrow> flags \<Rightarrow> fs \<Rightarrow> 'os \<Rightarrow> bool \<Rightarrow> 'os outcome" where
  "wlcsim_main env now version appliance f s os av =
     (if fl_helper f \<noteq> [] then RunsHelper (fl_helper f)
      else case active_config env f s of
             Inl e \<Rightarrow> Fatal (LoadFailed e) os
           | Inr cfg \<Rightarrow>
               (if fl_teardown f then Exits (TeardownIPs (e_net env) (cfg_Devices cfg) os)
                else if fl_setup f then
                  (case SetupIPs (e_net env) (cfg_Devices cfg) os of
                     (Some e, os1) \<Rightarrow> Fatal (SetupIPsFailed e) os1
                   | (None, os1) \<Rightarrow> Exits os1)
                else serve env now version appliance f cfg s os av))"

definition shutdown :: "'os sim_env \<Rightarrow> flags \<Rightarrow> 'os machine \<Rightarrow> 'os machine" where
  \<comment> \<open>on SIGINT or SIGTERM; then the process ends with its servers\<close>
  "shutdown env f m =
     m\<lparr>m_os := (if fl_lan f then TeardownLANIPs (e_net env) (m_iface m) (Devices m) (m_os m)
                else TeardownIPs (e_net env) (Devices m) (m_os m))\<rparr>"

section \<open>A start reaches a state of the simulator\<close>

lemma active_config_site_ok:
  assumes "active_config env f s = Inr cfg"
  shows "\<forall>d \<in> set (cfg_Devices cfg). site_ok d"
  using assms
  by (auto simp: active_config_def with_seed_template_def split: sum.splits if_splits dest!: Load_site_ok)

lemma site_ok_times [simp]:
  "site_ok (d\<lparr>d_StartTime := now\<rparr>) = site_ok d" "site_ok (d\<lparr>d_IP := ip\<rparr>) = site_ok d"
  by (simp_all add: site_ok_def has_default_ap_def)

lemma assign_ips_site_ok: "\<forall>d \<in> set ds. site_ok d \<Longrightarrow> d \<in> set (assign_ips env net autos ds) \<Longrightarrow> site_ok d"
  by (induction env net autos ds rule: assign_ips.induct) (auto split: if_splits)

lemma StartAll_frame:
  "m_devices (StartAll m) = m_devices m" "m_panic (StartAll m) = m_panic m" "m_statePath (StartAll m) = m_statePath m"
  "m_fs (StartAll m) = m_fs m" "m_auth (StartAll m) = m_auth m"
  by (simp_all add: StartAll_def fold_frame)

lemma boot_addresses_site_ok:
  assumes "boot_addresses env f ds os av = (Inr (iface, ds1), os1, av1)" and "\<forall>d \<in> set ds. site_ok d"
  shows "\<forall>d \<in> set ds1. site_ok d"
proof (cases "fl_lan f")
  case True
  with assms(1) obtain info where "SetupLANIPs (e_net env) ds (fl_iface f) os av = (Inr (info, ds1), os1, av1)"
    by (auto simp: boot_addresses_def split: sum.splits prod.splits)
  from SetupLANIPs_sound [OF this] assms(2) show ?thesis by (auto intro: assign_ips_site_ok)
qed (use assms in \<open>auto simp: boot_addresses_def\<close>)

lemma boot_devices_site_ok:
  "\<forall>d \<in> set ds. site_ok d \<Longrightarrow> d \<in> set (boot_devices env now f tmpl ds) \<Longrightarrow> site_ok d"
  by (auto simp: boot_devices_def Let_def split: if_splits)

lemma wlcsim_main_serves:
  assumes "wlcsim_main env now version appliance f s os av = Serves m logs u"
  shows "\<exists>cfg iface ds os1 av1. active_config env f s = Inr cfg \<and>
     boot_addresses env f (cfg_Devices cfg) os av = (Inr (iface, ds), os1, av1) \<and>
     NewStore 10000 = Inr logs \<and> u = boot_updater version appliance f \<and>
     m = StartAll (NewSimulator (cfg\<lparr>cfg_Devices := boot_devices env now f (cfg_TmplText cfg) ds\<rparr>) (cfg_TmplText cfg)
           (boot_options f iface) s os1 av1)"
  using assms by (auto simp: wlcsim_main_def serve_def Let_def split: sum.splits prod.splits if_splits option.splits)


section \<open>What a restart brings back\<close>

definition forget :: "device \<Rightarrow> device" where
  "forget d = d\<lparr>d_StartTime := 0, d_cachedConfig := []\<rparr>"

definition persisted :: "config \<Rightarrow> config" where
  \<comment> \<open>the fields with \<^verbatim>\<open>yaml:"-"\<close> tags are not written\<close>
  "persisted cfg = cfg\<lparr>cfg_Devices := map forget (cfg_Devices cfg), cfg_TmplText := []\<rparr>"

definition yaml_law :: "yaml \<Rightarrow> bool" where
  \<comment> \<open>documented behaviour of the package: reading back what was written, comments ignored\<close>
  "yaml_law y \<longleftrightarrow> (\<forall>cfg body. marshal y cfg = Inr body \<longrightarrow> unmarshal y (stateHeader @ body) = Inr (persisted cfg))"

definition restored :: "render_env \<Rightarrow> string \<Rightarrow> device \<Rightarrow> device" where
  "restored env tmpl d = InitConfig env tmpl (device_defaults (forget d))"

lemma template_data_cached: "template_data_of env (d\<lparr>d_cachedConfig := x\<rparr>) = template_data_of env d"
  by (simp add: template_data_of_def vlan_list_def wlan_list_def device_clients_def)

lemma InitConfig_absorb: "InitConfig env t (InitConfig env t' d) = InitConfig env t d"
  by (simp add: InitConfig_def template_data_cached Let_def)

lemma Load_state:
  assumes "yaml_law y" and "marshal y cfg = Inr body" and "files s path = Some (stateHeader @ body)"
  shows "\<exists>t. Load env y path s = Inr \<lparr>cfg_Auth = auth_defaults (cfg_Auth cfg),
     cfg_Devices = map (restored env t) (cfg_Devices cfg), cfg_TmplText = t\<rparr>"
proof -
  have u: "unmarshal y (stateHeader @ body) = Inr (persisted cfg)"
    using assms(1,2) by (simp add: yaml_law_def)
  show ?thesis
  proof (cases "files s (sibling path ''running-config.tmpl'')")
    case None
    with u assms(3) show ?thesis
      by (intro exI [of _ "[]"])
        (simp add: Load_def ReadFile_def ParseYAML_def applyDefaults_def persisted_def restored_def comp_def)
  next
    case (Some t)
    with u assms(3) show ?thesis
      by (intro exI [of _ t])
        (simp add: Load_def ReadFile_def ParseYAML_def applyDefaults_def persisted_def restored_def comp_def)
  qed
qed

lemma forget_simps [simp]:
  "forget (InitConfig env t d) = forget d" "forget (d\<lparr>d_StartTime := now\<rparr>) = forget d" "forget (forget d) = forget d"
  by (simp_all add: forget_def InitConfig_def Let_def)

lemma device_complete_forget [simp]: "device_complete (forget d) = device_complete d"
  by (simp add: device_complete_def forget_def has_default_ap_def)

lemma forget_device_defaults: "forget (device_defaults (forget d)) = device_defaults (forget d)"
  by (simp add: forget_def device_defaults_def port_defaults_def EnsureDefaultAP_def Let_def)

lemma forget_restored: "forget (restored env t d) = device_defaults (forget d)"
  by (simp add: restored_def forget_device_defaults)

lemma incomplete_site_changes: "\<not> device_complete d \<Longrightarrow> device_defaults (forget d) \<noteq> forget d"
  by (metis device_complete_forget device_defaults_complete)

lemma stateHeader_nonempty: "stateHeader \<noteq> []"
  by code_simp

lemma active_config_saved:
  assumes law: "yaml_law (e_yaml env)" and "saved env m" and "Marshal (e_yaml env) (Snapshot m) = Inr data"
    and "m_statePath m = state_path f" and "state_path f \<noteq> []"
    and seed: "Load (e_render env) (e_yaml env) (fl_config f) (m_fs m) = Inr seed"
  shows "active_config env f (m_fs m) = Inr \<lparr>cfg_Auth = auth_defaults (m_auth m),
    cfg_Devices = map (restored (e_render env) (cfg_TmplText seed)) (m_devices m), cfg_TmplText = cfg_TmplText seed\<rparr>"
proof -
  obtain body where b: "marshal (e_yaml env) (Snapshot m) = Inr body" and d: "data = stateHeader @ body"
    using assms(3) by (auto simp: Marshal_def split: sum.splits)
  have f: "files (m_fs m) (state_path f) = Some (stateHeader @ body)"
    using assms(2,3,4,5) by (simp add: saved_def d)
  have "fileExists (state_path f) (m_fs m)"
    using stateHeader_nonempty by (simp add: fileExists_def f)
  moreover obtain t where "Load (e_render env) (e_yaml env) (state_path f) (m_fs m) = Inr \<lparr>cfg_Auth = auth_defaults (m_auth m),
     cfg_Devices = map (restored (e_render env) t) (m_devices m), cfg_TmplText = t\<rparr>"
    using Load_state [OF law b f, of "e_render env"] by (auto simp: Snapshot_def snapshotLocked_def)
  ultimately show ?thesis
    by (simp add: active_config_def seed with_seed_template_def comp_def restored_def InitConfig_absorb)
qed

text \<open>
  C3. A stop and a start lose nothing that was saved: when the state file holds the last snapshot, a local start
  on it serves the same sites in the same order, each with the configuration defaults applied,
  its running configuration rendered from the seed's template and a new start time. So a run
  whose sites are unchanged by the defaults comes back as it was; a site left incomplete at run time
  (a client without its fields, an access point whose SSIDs were cleared) does not.
\<close>

theorem restart_restores_state:
  assumes "yaml_law (e_yaml env)" and "saved env m" and "Marshal (e_yaml env) (Snapshot m) = Inr data"
    and "m_statePath m = state_path f" and "state_path f \<noteq> []"
    and "Load (e_render env) (e_yaml env) (fl_config f) (m_fs m) = Inr seed"
    and "fl_helper f = []" and "\<not> fl_setup f" and "\<not> fl_teardown f" and "\<not> fl_lan f"
  shows "\<exists>m1 logs u. wlcsim_main env now version appliance f (m_fs m) os av = Serves m1 logs u \<and>
    m_auth m1 = auth_defaults (m_auth m) \<and>
    m_devices m1 = map (\<lambda>d. (restored (e_render env) (cfg_TmplText seed) d)\<lparr>d_StartTime := now\<rparr>) (m_devices m) \<and>
    ((\<forall>d \<in> set (m_devices m). device_defaults (forget d) = forget d) \<longleftrightarrow>
      map forget (m_devices m1) = map forget (m_devices m)) \<and>
    ((\<exists>d \<in> set (m_devices m). \<not> device_complete d) \<longrightarrow> map forget (m_devices m1) \<noteq> map forget (m_devices m))"
proof -
  note c = active_config_saved [OF assms(1-6)]
  obtain m1 logs u where s: "wlcsim_main env now version appliance f (m_fs m) os av = Serves m1 logs u"
    and a: "m_auth m1 = auth_defaults (m_auth m)"
    and d: "m_devices m1 = map (\<lambda>d. (restored (e_render env) (cfg_TmplText seed) d)\<lparr>d_StartTime := now\<rparr>) (m_devices m)"
    using assms(7-10)
    by (auto simp: wlcsim_main_def c serve_def boot_addresses_def boot_devices_def NewStore_def StartAll_frame
        NewSimulator_def comp_def Let_def)
  have "map forget (m_devices m1) = map (device_defaults \<circ> forget) (m_devices m)"
    by (simp add: d forget_restored)
  then have "map forget (m_devices m1) = map forget (m_devices m) \<longleftrightarrow>
      (\<forall>d \<in> set (m_devices m). device_defaults (forget d) = forget d)" by simp
  with s a d incomplete_site_changes show ?thesis by metis
qed

section \<open>A sample start\<close>

text \<open>A codec that knows two documents: the seed and the state of one run.\<close>

definition sample_codec :: "config \<Rightarrow> config \<Rightarrow> yaml" where
  "sample_codec seed st =
     \<lparr>unmarshal = (\<lambda>s. if s = ''seed'' then Inr seed
        else if s = stateHeader @ ''doc'' then Inr (persisted st) else Inl ''syntax''),
      marshal = (\<lambda>c. if persisted c = persisted st then Inr ''doc'' else Inl ''not this one'')\<rparr>"

lemma sample_codec_law: "yaml_law (sample_codec seed st)"
proof -
  have "stateHeader @ ''doc'' \<noteq> ''seed''" by code_simp
  then show ?thesis by (auto simp: yaml_law_def sample_codec_def split: if_splits)
qed

definition sample_boot_env :: "(string \<times> string) list sim_env" where
  "sample_boot_env = \<lparr>e_net = linux_host, e_render = plain_env, e_yaml = sample_codec one_site (Snapshot running)\<rparr>"

definition sample_flags :: flags where
  "sample_flags = default_flags\<lparr>fl_config := ''d.yaml'', fl_state := ''s.yaml''\<rparr>"

definition sample_run :: "(string \<times> string) list machine" where
  "sample_run = running\<lparr>m_fs := empty_fs\<lparr>files := [''s.yaml'' \<mapsto> stateHeader @ ''doc'', ''d.yaml'' \<mapsto> ''seed'']\<rparr>\<rparr>"

lemma sample_run_fields:
  "m_statePath sample_run = ''s.yaml''" "Snapshot sample_run = Snapshot running" "m_devices sample_run = m_devices running"
  "files (m_fs sample_run) ''s.yaml'' = Some (stateHeader @ ''doc'')" "files (m_fs sample_run) ''d.yaml'' = Some ''seed''"
  by (simp_all add: sample_run_def running_def StartAll_frame NewSimulator_def plain_options_def Snapshot_def snapshotLocked_def)

lemma sample_marshal: "Marshal (e_yaml sample_boot_env) (Snapshot running) = Inr (stateHeader @ ''doc'')"
  by (simp add: Marshal_def sample_boot_env_def sample_codec_def)

lemma sample_saved: "saved sample_boot_env sample_run"
  by (simp add: saved_def sample_run_fields sample_marshal)

lemma sample_seed: "\<exists>seed. Load (e_render sample_boot_env) (e_yaml sample_boot_env) (fl_config sample_flags) (m_fs sample_run) = Inr seed"
  by (simp add: Load_def ReadFile_def ParseYAML_def sample_flags_def sample_run_fields sample_boot_env_def sample_codec_def Let_def)

lemma sample_state_path: "state_path sample_flags = ''s.yaml''"
  by (simp add: state_path_def sample_flags_def)

lemma sample_flag_fields:
  "fl_helper sample_flags = []" "\<not> fl_setup sample_flags" "\<not> fl_teardown sample_flags" "\<not> fl_lan sample_flags"
  "state_path sample_flags \<noteq> []" "m_statePath sample_run = state_path sample_flags"
  by (simp_all add: state_path_def sample_run_fields sample_flags_def default_flags_def)

lemma sample_law: "yaml_law (e_yaml sample_boot_env)"
  by (simp add: sample_boot_env_def sample_codec_law)

lemma sample_run_marshal: "Marshal (e_yaml sample_boot_env) (Snapshot sample_run) = Inr (stateHeader @ ''doc'')"
  by (simp add: sample_run_fields sample_marshal)

lemma sample_addresses: "map (\<lambda>d. d_IP (restored env t d)) (m_devices sample_run) = [''10.0.0.1'']"
  by (simp add: sample_run_fields restored_def InitConfig_def Let_def running_def StartAll_frame NewSimulator_def one_site_def
      dev_at_def forget_def device_defaults_def port_defaults_def EnsureDefaultAP_fields)

theorem restart_restores_state_witness:
  "\<exists>m1 logs u. wlcsim_main sample_boot_env 7 ''dev'' False sample_flags (m_fs sample_run) [] True = Serves m1 logs u \<and>
     map d_IP (m_devices m1) = [''10.0.0.1'']"
proof -
  obtain seed where s: "Load (e_render sample_boot_env) (e_yaml sample_boot_env) (fl_config sample_flags) (m_fs sample_run) = Inr seed"
    using sample_seed by blast
  from restart_restores_state [OF sample_law sample_saved sample_run_marshal sample_flag_fields(6,5) s sample_flag_fields(1-4)]
  obtain m1 logs u where "wlcsim_main sample_boot_env 7 ''dev'' False sample_flags (m_fs sample_run) [] True = Serves m1 logs u"
    and "m_devices m1 = map (\<lambda>d. (restored (e_render sample_boot_env) (cfg_TmplText seed) d)\<lparr>d_StartTime := 7\<rparr>) (m_devices sample_run)"
    by blast
  with sample_addresses [of "e_render sample_boot_env" "cfg_TmplText seed"] show ?thesis by (auto simp: comp_def)
qed


section \<open>A save that comes late\<close>

definition finish_save :: "'os sim_env \<Rightarrow> config \<Rightarrow> 'os machine \<Rightarrow> sim_error option \<times> 'os machine" where
  \<comment> \<open>what is left of \<^verbatim>\<open>save\<close> once its snapshot has been taken and the lock released\<close>
  "finish_save env cfg m =
     (if m_statePath m = [] then (None, m)
      else (let (e, s) = Save (e_yaml env) (m_statePath m) cfg (m_fs m) in (map_option ConfigFailed e, m\<lparr>m_fs := s\<rparr>)))"

lemma save_is_snapshot_then_finish: "save env m = finish_save env (Snapshot m) m"
  by (simp add: save_def finish_save_def)

lemma AddDevice_fields:
  assumes "AddDevice env now dev m = (None, m')"
  shows "m_statePath m' = m_statePath m \<and> m_tmplText m' = m_tmplText m \<and> (\<exists>d. d_IP d = d_IP dev \<and> m_devices m' = m_devices m @ [d])"
proof -
  obtain d where c: "add_check env now dev m = Inr d" using assms by (auto simp: AddDevice_def split: sum.splits)
  then show ?thesis
    using assms add_alias_frame [of env d m] add_check_Inr [OF c]
    by (auto simp: AddDevice_def add_publish_def split: prod.splits option.splits)
qed

text \<open>
  C26. \<^verbatim>\<open>ImportConfig\<close> and \<^verbatim>\<open>ClearAll\<close> take the snapshot they save under the lock
  and write it without. When a site is added in between, the older document replaces the one that
  \<^verbatim>\<open>AddDevice\<close> has just saved: both calls report success, the site is served, the state
  file does not have it, and a restart loads the set without it.
\<close>

theorem late_save_forgets_site:
  assumes "yaml_law (e_yaml env)" and "m_statePath m \<noteq> []" and "AddDevice env now dev m = (None, m2)"
    and "no_faults (m_fs m2)" and "Marshal (e_yaml env) (Snapshot m) = Inr data"
    and "finish_save env (Snapshot m) m2 = (e, m3)"
  shows "e = None \<and> d_IP dev \<in> d_IP ` set (m_devices m3) \<and>
    (\<exists>t. Load (e_render env) (e_yaml env) (m_statePath m3) (m_fs m3) =
      Inr \<lparr>cfg_Auth = auth_defaults (m_auth m), cfg_Devices = map (restored (e_render env) t) (m_devices m), cfg_TmplText = t\<rparr>)"
proof -
  note f = AddDevice_fields [OF assms(3)]
  obtain s where s: "Save (e_yaml env) (m_statePath m) (Snapshot m) (m_fs m2) = (None, s)" "files s (m_statePath m) = Some data"
    using Save_no_faults [OF assms(4,5), of "m_statePath m"] by auto
  have m3: "e = None" "m3 = m2\<lparr>m_fs := s\<rparr>" using assms(2,6) f s(1) by (simp_all add: finish_save_def)
  obtain body where b: "marshal (e_yaml env) (Snapshot m) = Inr body" "data = stateHeader @ body"
    using assms(5) by (auto simp: Marshal_def split: sum.splits)
  from Load_state [OF assms(1) b(1), of s "m_statePath m" "e_render env"] s(2) b(2)
  obtain t where "Load (e_render env) (e_yaml env) (m_statePath m) s =
      Inr \<lparr>cfg_Auth = auth_defaults (cfg_Auth (Snapshot m)), cfg_Devices = map (restored (e_render env) t) (cfg_Devices (Snapshot m)), cfg_TmplText = t\<rparr>"
    by blast
  then have "\<exists>t. Load (e_render env) (e_yaml env) (m_statePath m3) (m_fs m3) =
      Inr \<lparr>cfg_Auth = auth_defaults (m_auth m), cfg_Devices = map (restored (e_render env) t) (m_devices m), cfg_TmplText = t\<rparr>"
    using f by (simp add: m3 Snapshot_def snapshotLocked_def)
  moreover have "d_IP dev \<in> d_IP ` set (m_devices m3)" using f by (auto simp: m3 image_iff)
  ultimately show ?thesis using m3 by simp
qed

lemma no_faults_saveLocked: "no_faults (m_fs m) \<Longrightarrow> no_faults (m_fs (saveLocked env m))"
  using Save_no_faults [of "m_fs m" "e_yaml env" "snapshotLocked m" _ "m_statePath m"]
  by (cases "Marshal (e_yaml env) (snapshotLocked m)") (auto simp: saveLocked_def Save_def)

lemma no_faults_AddDevice: "no_faults (m_fs m) \<Longrightarrow> no_faults (m_fs (snd (AddDevice env now dev m)))"
proof -
  assume nf: "no_faults (m_fs m)"
  have "m_fs m1 = m_fs m" if "add_alias env d m = (e, m1)" for d e m1
    using add_alias_frame [of env d m] that by simp
  with nf show ?thesis
    by (auto simp: AddDevice_def add_publish_def split: sum.split prod.split option.split intro!: no_faults_saveLocked)
qed

lemma sample_add: "fst (AddDevice sample_boot_env 0 (dev_at ''B'' ''10.0.0.2'') sample_run) = None"
proof -
  have "m_devices running = cfg_Devices one_site" "m_os running = [(''10.0.0.1/32'', ''lo'')]"
    by (simp_all add: running_def StartAll_frame NewSimulator_def StartAll_def fold_frame)
  then show ?thesis
    by (simp add: AddDevice_def sample_run_def dev_at_def empty_device_def port_defaults_def add_check_def at_def one_site_def
        device_defaults_def add_alias_def AddIP_def sample_boot_env_def linux_host_def EnsureDefaultAP_fields run_def host_run_def Let_def)
qed

theorem late_save_forgets_site_witness:
  "fst (finish_save sample_boot_env (Snapshot sample_run) (snd (AddDevice sample_boot_env 0 (dev_at ''B'' ''10.0.0.2'') sample_run))) = None"
proof -
  let ?r = "AddDevice sample_boot_env 0 (dev_at ''B'' ''10.0.0.2'') sample_run"
  let ?s = "finish_save sample_boot_env (Snapshot sample_run) (snd ?r)"
  have ok: "fst ?r = None" "no_faults (m_fs (snd ?r))" "m_statePath sample_run \<noteq> []"
    by (rule sample_add, rule no_faults_AddDevice) (simp add: sample_run_def no_faults_def empty_fs_def, simp add: sample_run_fields)
  then have "?r = (None, snd ?r)" by (metis prod.collapse)
  from late_save_forgets_site [OF sample_law ok(3) this ok(2) sample_run_marshal prod.collapse [symmetric]] show ?thesis by blast
qed

end
