(* ===== verification/Console.thy ===== *)
theory Console
  imports Helper AccessLog Network
begin

text \<open>
  \<^verbatim>\<open>cmd/wlcsim-console/main.go\<close>: the text screen of the appliance, as a
  function of what the dashboard and the \<^verbatim>\<open>ip\<close> command answer, and its
  single-key commands. Decoding of the answers and the formatting of times and of the CPU load
  (a float) are arguments.
\<close>

section \<open>Terminal codes\<close>

definition esc :: "string \<Rightarrow> string" where "esc s = CHR 0x1B # CHR ''['' # s"

definition reset_code :: string where "reset_code = esc ''0m''"
definition bold :: string where "bold = esc ''1m''"
definition dim :: string where "dim = esc ''2m''"
definition cyan :: string where "cyan = esc ''36m''"
definition green :: string where "green = esc ''32m''"
definition yellow :: string where "yellow = esc ''33m''"
definition blue :: string where "blue = esc ''34m''"
definition clearScr :: string where "clearScr = esc ''2J'' @ esc ''H''"
definition hideCursor :: string where "hideCursor = esc ''?25l''"
definition showCursor :: string where "showCursor = esc ''?25h''"

definition utf8 :: "nat list \<Rightarrow> string" where
  \<comment> \<open>a character of the source outside ASCII, by its bytes\<close>
  "utf8 bs = map char_of bs"

definition rule_char :: string where "rule_char = utf8 [0xE2, 0x94, 0x80]"
definition bullet :: string where "bullet = utf8 [0xE2, 0x97, 0x8F]"
definition double_bar :: string where "double_bar = utf8 [0xE2, 0x95, 0x90]"

definition repeat_string :: "string \<Rightarrow> nat \<Rightarrow> string" where
  "repeat_string s n = concat (replicate n s)"

section \<open>Figures\<close>

definition formatUptime :: "int \<Rightarrow> string" where
  "formatUptime secs =
     (if secs < 60 then itoa secs @ ''s''
      else if secs < 3600 then itoa (secs div 60) @ ''m '' @ itoa (secs mod 60) @ ''s''
      else let h = secs div 3600; m = (secs mod 3600) div 60
           in if h < 24 then itoa h @ ''h '' @ itoa m @ ''m''
              else itoa (h div 24) @ ''d '' @ itoa (h mod 24) @ ''h'')"

definition tenths :: "nat \<Rightarrow> nat \<Rightarrow> nat" where
  \<comment> \<open>\<^verbatim>\<open>%.1f\<close> of \<open>b / u\<close> in tenths: to the nearest, a tie to the even one; exact for the
     values below \<open>2 ^ 53\<close> that a float holds exactly\<close>
  "tenths b u =
     (let q = (10 * b) div u; r = (10 * b) mod u
      in if 2 * r < u then q else if 2 * r > u then q + 1 else if even q then q else q + 1)"

definition one_decimal :: "nat \<Rightarrow> string" where
  "one_decimal t = nat_digits (t div 10) @ ''.'' @ nat_digits (t mod 10)"

definition formatBytes :: "nat \<Rightarrow> string" where
  "formatBytes b =
     (if b \<ge> 2 ^ 30 then one_decimal (tenths b (2 ^ 30)) @ '' GB''
      else if b \<ge> 2 ^ 20 then one_decimal (tenths b (2 ^ 20)) @ '' MB''
      else if b \<ge> 2 ^ 10 then one_decimal (tenths b (2 ^ 10)) @ '' KB''
      else nat_digits b @ '' B'')"

section \<open>The address of the machine\<close>

fun after_inet :: "string list \<Rightarrow> string option" where
  "after_inet (f # g # fs) = (if f = ''inet'' then Some g else after_inet (g # fs))"
| "after_inet _ = None"

definition addr_line :: "string \<Rightarrow> (string \<times> string) option" where
  "addr_line line =
     (let fs = Fields line
      in if length fs < 4 then None
         else if fs ! 1 = ''lo'' then None
         else map_option (\<lambda>a. (fs ! 1, a)) (after_inet fs))"

fun first_some :: "('a \<Rightarrow> 'b option) \<Rightarrow> 'a list \<Rightarrow> 'b option" where
  "first_some f [] = None"
| "first_some f (x # xs) = (case f x of Some y \<Rightarrow> Some y | None \<Rightarrow> first_some f xs)"

definition getNetworkInfo :: "string option \<Rightarrow> string \<times> string" where
  "getNetworkInfo out =
     (case out of
        None \<Rightarrow> (''unknown'', ''acquiring...'')
      | Some text \<Rightarrow>
          (case first_some addr_line (split_char (CHR 0x0A) (TrimSpace text)) of
             Some r \<Rightarrow> r | None \<Rightarrow> (''unknown'', ''acquiring...'')))"

definition bare_ip :: "string \<Rightarrow> string" where
  "bare_ip ip = takeWhile (\<lambda>c. c \<noteq> CHR ''/'') ip"

section \<open>The screen\<close>

record ap_info =
  ai_Name :: string
  ai_Clients :: "string list"      \<comment> \<open>left undecoded\<close>

record device_info =
  di_Hostname :: string
  di_IP :: string
  di_HTTPSPort :: int
  di_SSHPort :: int
  di_SNMPPort :: int
  di_Model :: string
  di_Version :: string
  di_APs :: "ap_info list"

record system_info =
  sys_UptimeSecs :: int
  sys_Goroutines :: int
  sys_CPUCount :: int
  sys_CPUPct :: string             \<comment> \<open>the load, as it is shown with one decimal\<close>
  sys_MemAlloc :: nat
  sys_MemSys :: nat
  sys_MemHeapAlloc :: nat

record update_info =
  ui_Appliance :: bool
  ui_CurrentVersion :: string
  ui_LatestVersion :: string
  ui_UpdateAvailable :: bool
  ui_InProgress :: bool

record log_entry =
  le_Timestamp :: string
  le_DeviceHost :: string
  le_Type :: string
  le_Source :: string
  le_Method :: string
  le_Path :: string
  le_Command :: string
  le_Detail :: string
  le_User :: string
  le_Status :: int

definition dashURL :: string where
  "dashURL = ''http://localhost:8080''"

definition fetchJSON :: "(string \<Rightarrow> string option) \<Rightarrow> (string \<Rightarrow> bool \<times> 'a) \<Rightarrow> 'a \<Rightarrow> string \<Rightarrow> bool \<times> 'a" where
  \<comment> \<open>whether it worked, and what is in the variable afterwards: a decoder that fails may have filled it in part\<close>
  "fetchJSON get dec zero path = (case get (dashURL @ path) of None \<Rightarrow> (False, zero) | Some body \<Rightarrow> dec body)"

record decoders =
  dc_devices :: "string \<Rightarrow> bool \<times> device_info list"
  dc_system :: "string \<Rightarrow> bool \<times> system_info"
  dc_update :: "string \<Rightarrow> bool \<times> update_info"
  dc_logs :: "string \<Rightarrow> bool \<times> log_entry list"

definition zero_system :: system_info where
  "zero_system = \<lparr>sys_UptimeSecs = 0, sys_Goroutines = 0, sys_CPUCount = 0, sys_CPUPct = ''0.0'', sys_MemAlloc = 0,
     sys_MemSys = 0, sys_MemHeapAlloc = 0\<rparr>"

definition zero_update :: update_info where
  "zero_update = \<lparr>ui_Appliance = False, ui_CurrentVersion = [], ui_LatestVersion = [], ui_UpdateAvailable = False, ui_InProgress = False\<rparr>"

definition fetchDevices :: "(string \<Rightarrow> string option) \<Rightarrow> decoders \<Rightarrow> device_info list" where
  "fetchDevices get dc = snd (fetchJSON get (dc_devices dc) [] ''/api/devices'')"

definition fetchSystem :: "(string \<Rightarrow> string option) \<Rightarrow> decoders \<Rightarrow> system_info option" where
  "fetchSystem get dc = (case fetchJSON get (dc_system dc) zero_system ''/api/system'' of (True, x) \<Rightarrow> Some x | (False, _) \<Rightarrow> None)"

definition fetchUpdateStatus :: "(string \<Rightarrow> string option) \<Rightarrow> decoders \<Rightarrow> update_info option" where
  "fetchUpdateStatus get dc =
     (case fetchJSON get (dc_update dc) zero_update ''/api/update/status'' of (True, x) \<Rightarrow> Some x | (False, _) \<Rightarrow> None)"

fun swap_ends_loop :: "nat \<Rightarrow> nat \<Rightarrow> nat \<Rightarrow> 'a list \<Rightarrow> 'a list" where
  \<comment> \<open>\<^verbatim>\<open>for i, j := 0, len(logs)-1; i < j; ...\<close>, with the number of turns left\<close>
  "swap_ends_loop 0 i j xs = xs"
| "swap_ends_loop (Suc n) i j xs =
     (if i < j then swap_ends_loop n (Suc i) (j - 1) (xs[i := xs ! j, j := xs ! i]) else xs)"

definition fetchLogs :: "(string \<Rightarrow> string option) \<Rightarrow> decoders \<Rightarrow> log_entry list" where
  \<comment> \<open>most recent first; half the length is turns enough\<close>
  "fetchLogs get dc =
     (let logs = snd (fetchJSON get (dc_logs dc) [] ''/api/logs'')
      in swap_ends_loop (length logs) 0 (length logs - 1) logs)"

record screen_data =
  sd_system :: "system_info option"
  sd_addr :: "string option"       \<comment> \<open>output of \<^verbatim>\<open>ip -4 -o addr show\<close>\<close>
  sd_update :: "update_info option"
  sd_devices :: "device_info list"
  sd_logs :: "log_entry list"      \<comment> \<open>most recent first\<close>
  sd_clock :: "string \<Rightarrow> string"   \<comment> \<open>the time of day of a timestamp, empty when it cannot be parsed\<close>

definition fetch_all :: "(string \<Rightarrow> string option) \<Rightarrow> decoders \<Rightarrow> string option \<Rightarrow> (string \<Rightarrow> string) \<Rightarrow> screen_data" where
  "fetch_all get dc addr clock =
     \<lparr>sd_system = fetchSystem get dc, sd_addr = addr, sd_update = fetchUpdateStatus get dc,
      sd_devices = fetchDevices get dc, sd_logs = fetchLogs get dc, sd_clock = clock\<rparr>"

definition nl :: string where "nl = [CHR 0x0A]"

definition banner :: string where
  "banner = clearScr @ bold @ cyan @
     ''  '' @ utf8 [0xE2, 0x95, 0x94] @ repeat_string double_bar 62 @ utf8 [0xE2, 0x95, 0x97] @ nl @
     ''  '' @ utf8 [0xE2, 0x95, 0x91] @ ''          Cisco 9800-CL WLC Simulator Appliance              '' @ utf8 [0xE2, 0x95, 0x91] @ nl @
     ''  '' @ utf8 [0xE2, 0x95, 0x9A] @ repeat_string double_bar 62 @ utf8 [0xE2, 0x95, 0x9D] @ nl @
     reset_code @ nl"

definition system_line :: "system_info option \<Rightarrow> string" where
  "system_line sys =
     (case sys of
        Some s \<Rightarrow> ''  '' @ bold @ ''System'' @ reset_code @ ''  Uptime: '' @ green @ formatUptime (sys_UptimeSecs s) @ reset_code @
          ''  CPU: '' @ yellow @ sys_CPUPct s @ ''%'' @ reset_code @ ''  Memory: '' @ blue @ formatBytes (sys_MemHeapAlloc s) @ reset_code @
          ''  Goroutines: '' @ itoa (sys_Goroutines s) @ nl
      | None \<Rightarrow> ''  '' @ bold @ ''System'' @ reset_code @ ''  '' @ dim @ ''Waiting for simulator to start...'' @ reset_code @ nl)"

definition network_lines :: "string option \<Rightarrow> string" where
  "network_lines out =
     (let (iface, ip) = getNetworkInfo out; b = bare_ip ip
      in ''  '' @ bold @ ''Network'' @ reset_code @ '' Interface: '' @ cyan @ iface @ reset_code @ ''  VM IP: '' @ green @ bold @ b @ reset_code @ nl @
         ''  '' @ bold @ ''Dashboard'' @ reset_code @ '' '' @ cyan @ ''http://'' @ b @ '':8080'' @ reset_code @ nl)"

definition update_line :: "update_info option \<Rightarrow> string" where
  "update_line upd =
     (case upd of
        None \<Rightarrow> []
      | Some u \<Rightarrow>
          (if ui_Appliance u
           then ''  '' @ bold @ ''Version'' @ reset_code @ ''   '' @ cyan @ ui_CurrentVersion u @ reset_code @
             (if ui_InProgress u
              then ''   '' @ yellow @ bullet @ '' updating '' @ utf8 [0xE2, 0x80, 0x94] @ '' services will restart shortly'' @ reset_code
              else if ui_UpdateAvailable u
              then ''   '' @ green @ bullet @ '' '' @ ui_LatestVersion u @ '' available'' @ reset_code @ '' '' @ dim @ ''(update from dashboard)'' @ reset_code
              else []) @ nl
           else []))"

definition client_count :: "device_info \<Rightarrow> int" where
  "client_count d = sum_list (map (\<lambda>a. int (length (ai_Clients a))) (di_APs d))"

definition device_line :: "device_info \<Rightarrow> string" where
  "device_line d =
     ''  '' @ pad_right 20 (di_Hostname d) @ '' '' @ bold @ pad_right 18 (di_IP d) @ reset_code @ '' '' @ pad_right 14 (di_Model d) @ '' '' @
     pad_right 8 (itoa (int (length (di_APs d)))) @ '' '' @ pad_right 6 (itoa (client_count d)) @ '' '' @
     green @ bullet @ reset_code @ dim @ '' Online'' @ reset_code @ nl"

definition device_lines :: "device_info list \<Rightarrow> string" where
  "device_lines ds =
     ''  '' @ bold @ cyan @ ''Simulated Devices'' @ reset_code @ nl @
     ''  '' @ dim @ pad_right 20 ''HOSTNAME'' @ '' '' @ pad_right 18 ''IP'' @ '' '' @ pad_right 14 ''MODEL'' @ '' '' @
       pad_right 8 ''APs'' @ '' '' @ pad_right 6 ''CLNTS'' @ '' '' @ pad_right 8 ''STATUS'' @ reset_code @ nl @
     ''  '' @ dim @ repeat_string rule_char 76 @ reset_code @ nl @
     (if ds = [] then ''  '' @ dim @ ''No devices configured'' @ reset_code @ nl else []) @
     concat (map device_line ds) @ nl"

definition type_color :: "string \<Rightarrow> string" where
  "type_color t = (if t = ''restconf'' then blue else if t = ''ssh'' then cyan else if t = ''snmp'' then yellow
     else if t = ''tftp'' then green else dim)"

definition log_detail :: "log_entry \<Rightarrow> string" where
  "log_detail l = (if le_Command l \<noteq> [] then ''$ '' @ le_Command l else if le_Detail l \<noteq> [] then le_Detail l else le_Path l)"

definition log_line :: "(string \<Rightarrow> string) \<Rightarrow> log_entry \<Rightarrow> string" where
  "log_line clock l =
     ''  '' @ dim @ clock (le_Timestamp l) @ reset_code @ '' '' @ type_color (le_Type l) @ pad_right 8 (ToUpper (le_Type l)) @ reset_code @ '' '' @
     pad_right 14 (le_DeviceHost l) @ '' '' @ log_detail l @ nl"

fun log_loop :: "(string \<Rightarrow> string) \<Rightarrow> nat \<Rightarrow> log_entry list \<Rightarrow> string" where
  "log_loop clock i [] = []"
| "log_loop clock i (l # ls) = (if i \<ge> 8 then [] else log_line clock l @ log_loop clock (Suc i) ls)"

definition log_lines :: "(string \<Rightarrow> string) \<Rightarrow> log_entry list \<Rightarrow> string" where
  "log_lines clock logs =
     ''  '' @ bold @ cyan @ ''Recent Activity'' @ reset_code @ nl @
     (if logs = [] then ''  '' @ dim @ ''Waiting for requests...'' @ reset_code @ nl else []) @ log_loop clock 0 logs"

definition screen_text :: "screen_data \<Rightarrow> string" where
  "screen_text sd =
     banner @ system_line (sd_system sd) @ network_lines (sd_addr sd) @ update_line (sd_update sd) @ nl @
     device_lines (sd_devices sd) @ log_lines (sd_clock sd) (sd_logs sd) @
     nl @ ''  '' @ dim @ ''[r] reboot  [s] shutdown  [q] shell'' @ reset_code @ nl"

definition render :: "screen_data \<Rightarrow> string" where
  "render sd = ReplaceAll_nl (screen_text sd)"

section \<open>Keys\<close>

record console =
  con_paused :: bool
  con_raw :: bool
  con_saved :: bool         \<comment> \<open>a terminal state to restore is held\<close>
  con_ran :: "string list"  \<comment> \<open>commands started\<close>

datatype key_event =
    Key char bool   \<comment> \<open>a key, and whether the terminal can be made raw after the shell\<close>
  | ReadFails

definition restore :: "(console \<Rightarrow> console) \<Rightarrow> console \<Rightarrow> console" where
  \<comment> \<open>\<^verbatim>\<open>term.Restore\<close>; what the library does without a state is an argument\<close>
  "restore lib k = (if con_saved k then k\<lparr>con_raw := False\<rparr> else lib k)"

definition ran :: "string \<Rightarrow> console \<Rightarrow> console" where
  "ran cmd k = k\<lparr>con_ran := con_ran k @ [cmd]\<rparr>"

definition MakeRaw :: "bool \<Rightarrow> console \<Rightarrow> console" where
  "MakeRaw ok k = (if ok then k\<lparr>con_raw := True, con_saved := True\<rparr> else k\<lparr>con_saved := False\<rparr>)"

fun handle_key :: "(console \<Rightarrow> console) \<Rightarrow> key_event \<Rightarrow> console \<Rightarrow> console list" where
  \<comment> \<open>the states the console goes through: an intermediate one while the shell runs\<close>
  "handle_key lib (Key c raw_ok) k =
     (if c = CHR ''q'' then
        (let k1 = ran ''/bin/sh'' (restore lib (k\<lparr>con_paused := True\<rparr>))
         in [k1, (MakeRaw raw_ok k1)\<lparr>con_paused := False\<rparr>])
      else if c = CHR ''r'' then [ran ''/sbin/reboot'' (restore lib k)]
      else if c = CHR ''s'' then [ran ''/sbin/poweroff'' (restore lib k)]
      else [k])"
| "handle_key lib ReadFails k = [k]"

fun run_keys :: "(console \<Rightarrow> console) \<Rightarrow> key_event list \<Rightarrow> console \<Rightarrow> console list" where
  "run_keys lib [] k = [k]"
| "run_keys lib (ev # evs) k = handle_key lib ev k @ run_keys lib evs (last (handle_key lib ev k))"

definition handleKeys :: "(console \<Rightarrow> console) \<Rightarrow> bool \<Rightarrow> bool option \<Rightarrow> key_event list \<Rightarrow> console \<Rightarrow> console list" where
  \<comment> \<open>whether standard input can be made raw; if not, whether the terminal device can be opened, and then made raw;
     otherwise there are no keys\<close>
  "handleKeys lib stdin_raw tty evs k =
     (if stdin_raw then run_keys lib evs (MakeRaw True k)
      else (case tty of
              None \<Rightarrow> [k]
            | Some ok \<Rightarrow> if ok then run_keys lib evs (MakeRaw True k) else [k]))"

definition console_boot :: console where
  "console_boot = \<lparr>con_paused = False, con_raw = False, con_saved = False, con_ran = []\<rparr>"

definition main_loop :: "(console \<times> screen_data) list \<Rightarrow> string list" where
  \<comment> \<open>what \<^verbatim>\<open>main\<close> prints: one entry for each turn, with the state of the keys and the answers at that moment\<close>
  "main_loop turns = hideCursor # concat (map (\<lambda>(k, sd). if con_paused k then [] else [render sd]) turns)"

section \<open>Properties\<close>

lemma swap_ends_loop_length [simp]: "length (swap_ends_loop n i j xs) = length xs"
  by (induction n i j xs rule: swap_ends_loop.induct) auto

lemma swap_ends_loop_nth:
  "j < length xs \<Longrightarrow> j \<le> i + 2 * n \<Longrightarrow> k < length xs \<Longrightarrow>
     swap_ends_loop n i j xs ! k = (if i \<le> k \<and> k \<le> j then xs ! (i + j - k) else xs ! k)"
proof (induction n i j xs rule: swap_ends_loop.induct)
  case (1 i j xs)
  have "i + j - k = k" if "i \<le> k" "k \<le> j" using 1 that by linarith
  then show ?case by simp
next
  case (2 n i j xs)
  show ?case
  proof (cases "i < j")
    case True
    define ys where "ys = xs[i := xs ! j, j := xs ! i]"
    have "swap_ends_loop n (Suc i) (j - 1) ys ! k =
        (if Suc i \<le> k \<and> k \<le> j - 1 then ys ! (Suc i + (j - 1) - k) else ys ! k)"
      unfolding ys_def by (rule 2(1) [OF True]) (use 2 True in auto)
    moreover have "(if Suc i \<le> k \<and> k \<le> j - 1 then ys ! (Suc i + (j - 1) - k) else ys ! k) =
        (if i \<le> k \<and> k \<le> j then xs ! (i + j - k) else xs ! k)"
      using True 2(2,4) by (auto simp: ys_def nth_list_update)
    ultimately show ?thesis using True by (simp add: ys_def)
  next
    case False
    then have "i + j - k = k" if "i \<le> k" "k \<le> j" using that by linarith
    with False show ?thesis by simp
  qed
qed

lemma swap_ends_loop_rev: "swap_ends_loop (length xs) 0 (length xs - 1) xs = rev xs"
proof (rule nth_equalityI)
  fix k assume "k < length (swap_ends_loop (length xs) 0 (length xs - 1) xs)"
  then show "swap_ends_loop (length xs) 0 (length xs - 1) xs ! k = rev xs ! k"
    by (subst swap_ends_loop_nth) (auto simp: rev_nth)
qed simp

lemma fetchLogs_rev: "fetchLogs get dc = rev (snd (fetchJSON get (dc_logs dc) [] ''/api/logs''))"
  by (simp only: fetchLogs_def Let_def swap_ends_loop_rev)

lemma log_loop_take: "log_loop clock i ls = concat (map (log_line clock) (take (8 - i) ls))"
proof (induction clock i ls rule: log_loop.induct)
  case (2 clock i l ls)
  show ?case
  proof (cases "i \<ge> 8")
    case False
    then have "8 - i = Suc (8 - Suc i)" by simp
    with 2 False show ?thesis by simp
  qed simp
qed simp

definition show_entry :: "(int \<Rightarrow> string) \<Rightarrow> entry \<Rightarrow> log_entry" where
  \<comment> \<open>the fields of an access-log entry that the console decodes; the text of the time is an argument\<close>
  "show_entry clk e =
     \<lparr>le_Timestamp = clk (e_Timestamp e), le_DeviceHost = e_DeviceHost e, le_Type = e_Type e, le_Source = e_Source e,
      le_Method = e_Method e, le_Path = e_Path e, le_Command = e_Command e, le_Detail = e_Detail e, le_User = e_User e,
      le_Status = e_Status e\<rparr>"

text \<open>
  The activity part of the screen, on what the dashboard answers for a log: the eight newest
  entries of the history, newest first.
\<close>

lemma screen_shows_newest:
  assumes "Recent 500 s = Inr es" and "get (dashURL @ ''/api/logs'') = Some body" and "dc_logs dc body = (True, map (show_entry clk) es)"
  shows "log_loop clock 0 (fetchLogs get dc) = concat (map (log_line clock) (take 8 (rev (map (show_entry clk) (entries s)))))"
proof -
  have es: "es = drop (nat (int (length (entries s)) - (if 500 > int (length (entries s)) then int (length (entries s)) else 500))) (entries s)"
    using assms(1) by (auto simp: Recent_def Let_def split: if_splits)
  have f: "fetchLogs get dc = rev (map (show_entry clk) es)" using assms(2,3) by (simp add: fetchLogs_rev fetchJSON_def)
  show ?thesis
  proof (cases "length (entries s) < 500")
    case True
    with es show ?thesis by (simp add: log_loop_take f)
  next
    case False
    with es have "es = drop (length (entries s) - 500) (entries s)" by (simp add: nat_diff_distrib)
    with False have "rev (map (show_entry clk) es) = take 500 (rev (map (show_entry clk) (entries s)))" by (simp add: rev_drop rev_map take_map)
    then show ?thesis by (simp add: log_loop_take f min_def)
  qed
qed

text \<open>The memory figure is within half a tenth of its unit, and never above 1024 of a unit that has a next one.\<close>

lemma tenths_near: "0 < u \<Longrightarrow> 2 * \<bar>int (10 * b) - int (tenths b u * u)\<bar> \<le> int u"
proof -
  assume u: "0 < u"
  obtain q r where qr: "q = (10 * b) div u" "r = (10 * b) mod u" by blast
  have "10 * b = q * u + r" by (simp add: qr)
  then have e: "int (10 * b) = int (q * u) + int r" by linarith
  have r: "r < u" using u by (simp add: qr)
  have "tenths b u = q \<and> 2 * r \<le> u \<or> tenths b u = q + 1 \<and> u \<le> 2 * r"
    by (auto simp: tenths_def qr [symmetric] Let_def)
  then show ?thesis
  proof
    assume "tenths b u = q \<and> 2 * r \<le> u"
    then show ?thesis unfolding e by simp
  next
    assume t: "tenths b u = q + 1 \<and> u \<le> 2 * r"
    then have "int (tenths b u * u) = int (q * u) + int u" by simp
    with t r show ?thesis unfolding e by simp
  qed
qed

lemma tenths_below: "b < 1024 * u \<Longrightarrow> tenths b u \<le> 10240"
proof -
  assume b: "b < 1024 * u"
  have "10 * b < 10240 * u" using b by linarith
  then have "(10 * b) div u < 10240" by (simp add: less_mult_imp_div_less)
  then show ?thesis by (auto simp: tenths_def Let_def)
qed

text \<open>
  When the terminal can be made raw again after each shell, the screen is never left paused, and
  it is drawn on a raw terminal unless a reboot or a power-off was asked for and did not happen.
\<close>

definition waiting_ok :: "console \<Rightarrow> bool" where
  "waiting_ok k \<longleftrightarrow> \<not> con_paused k \<and> con_saved k \<and>
     (con_raw k \<or> ''/sbin/reboot'' \<in> set (con_ran k) \<or> ''/sbin/poweroff'' \<in> set (con_ran k))"

fun makes_raw :: "key_event \<Rightarrow> bool" where
  "makes_raw (Key c ok) = (c = CHR ''q'' \<longrightarrow> ok)"
| "makes_raw ReadFails = True"

lemma handle_key_ok: "makes_raw ev \<Longrightarrow> waiting_ok k \<Longrightarrow> waiting_ok (last (handle_key lib ev k))"
  by (cases ev) (auto simp: waiting_ok_def restore_def ran_def MakeRaw_def Let_def)

lemma handle_key_nonempty: "handle_key lib ev k \<noteq> []"
  by (cases ev) (auto simp: Let_def)

lemma run_keys_nonempty: "run_keys lib evs k \<noteq> []"
  by (cases evs) (simp_all add: handle_key_nonempty)

lemma run_keys_ok: "list_all makes_raw evs \<Longrightarrow> waiting_ok k \<Longrightarrow> waiting_ok (last (run_keys lib evs k))"
proof (induction evs arbitrary: k)
  case (Cons ev evs)
  with handle_key_ok [of ev k lib] show ?case by (simp add: run_keys_nonempty)
qed simp

lemma keys_leave_screen_usable:
  "list_all makes_raw evs \<Longrightarrow> stdin_raw \<or> tty = Some True \<Longrightarrow>
     waiting_ok (last (handleKeys lib stdin_raw tty evs console_boot))"
  by (auto simp: handleKeys_def MakeRaw_def console_boot_def waiting_ok_def [of "console.make _ _ _ _"] console.defs
      intro!: run_keys_ok) (simp_all add: waiting_ok_def)

lemma no_terminal_no_keys: "handleKeys lib False None evs k = [k]"
  by (simp add: handleKeys_def)

lemma main_loop_draws:
  "main_loop turns = hideCursor # map (\<lambda>(k, sd). render sd) (filter (\<lambda>(k, sd). \<not> con_paused k) turns)"
  by (induction turns) (auto simp: main_loop_def)

end
