(* ===== verification/Mock.thy ===== *)
theory Mock
  imports Updater "HOL-Library.Char_ord" "HOL-Library.List_Lexorder"
begin

text \<open>
  \<^verbatim>\<open>hack/mockrelease/main.go\<close>: the stand-in for the release server that
  the updater is tried out against, and the end-to-end run of the updater on what it serves.
\<close>

section \<open>The directory\<close>

type_synonym dir_entry = "string \<times> string option"  \<comment> \<open>no contents: a subdirectory\<close>

definition assetNames :: "dir_entry list option \<Rightarrow> string list option" where
  "assetNames dir =
     map_option (\<lambda>es. sort (map fst (filter (\<lambda>e. snd e \<noteq> None \<and> fst e \<noteq> ''checksums.txt'') es))) dir"

definition file_in :: "dir_entry list option \<Rightarrow> string \<Rightarrow> string option" where
  "file_in dir name = (case dir of None \<Rightarrow> None | Some es \<Rightarrow> (case map_of es name of Some (Some d) \<Rightarrow> Some d | _ \<Rightarrow> None))"

section \<open>The answers\<close>

definition base_url :: "string \<Rightarrow> string" where
  "base_url host = ''http://'' @ host"

definition mock_asset :: "string \<Rightarrow> dir_entry list option \<Rightarrow> string \<Rightarrow> asset" where
  "mock_asset host dir n =
     \<lparr>as_Name = n, as_URL = base_url host @ ''/download/'' @ n,
      as_Size = (case file_in dir n of None \<Rightarrow> 0 | Some d \<Rightarrow> int (length d))\<rparr>"

definition mock_release :: "string \<Rightarrow> string \<Rightarrow> dir_entry list option \<Rightarrow> string list \<Rightarrow> release" where
  "mock_release host tag dir names =
     \<lparr>rel_TagName = tag, rel_HTMLURL = base_url host @ ''/releases/'' @ tag, rel_Prerelease = False, rel_Draft = False,
      rel_Assets = map (mock_asset host dir) names @
        [\<lparr>as_Name = ''checksums.txt'', as_URL = base_url host @ ''/download/checksums.txt'', as_Size = 0\<rparr>]\<rparr>"

fun mock_sums :: "(string \<Rightarrow> string) \<Rightarrow> dir_entry list option \<Rightarrow> string list \<Rightarrow> string option" where
  "mock_sums hex dir [] = Some []"
| "mock_sums hex dir (n # ns) =
     (case file_in dir n of
        None \<Rightarrow> None
      | Some data \<Rightarrow> map_option (\<lambda>b. hex data @ ''  '' @ n @ [CHR 0x0A] @ b) (mock_sums hex dir ns))"

definition filepath_Base :: "string \<Rightarrow> string" where
  "filepath_Base p =
     (if p = [] then ''.''
      else let q = rev (dropWhile (\<lambda>c. c = CHR ''/'') (rev p))
           in if q = [] then ''/'' else rev (takeWhile (\<lambda>c. c \<noteq> CHR ''/'') (rev q)))"

definition mock_serve :: "(string \<Rightarrow> string) \<Rightarrow> (release \<Rightarrow> string) \<Rightarrow> (string \<Rightarrow> int \<times> string) \<Rightarrow> string \<Rightarrow> string \<Rightarrow>
    string \<Rightarrow> dir_entry list option \<Rightarrow> string \<Rightarrow> int \<times> string" where
  \<comment> \<open>the answer to a path; anything but a regular file is left to the library (\<open>other\<close>)\<close>
  "mock_serve hex enc other host tag repo dir path =
     (if path = ''/repos/'' @ repo @ ''/releases/latest'' then
        (case assetNames dir of
           None \<Rightarrow> (500, ''read error'')
         | Some names \<Rightarrow> (200, enc (mock_release host tag dir names)))
      else if HasPrefix path ''/download/'' then
        (let name = filepath_Base (TrimPrefix path ''/download/'')
         in if name = ''checksums.txt'' then
              (case assetNames dir of
                 None \<Rightarrow> (500, ''read error'')
               | Some names \<Rightarrow> (case mock_sums hex dir names of None \<Rightarrow> (500, ''read error'') | Some b \<Rightarrow> (200, b)))
            else (case file_in dir name of None \<Rightarrow> other path | Some d \<Rightarrow> (200, d)))
      else (404, ''404 page not found''))"

definition mock_http :: "string \<Rightarrow> (string \<Rightarrow> int \<times> string) \<Rightarrow> string \<Rightarrow> http_result" where
  \<comment> \<open>the server as the updater sees it\<close>
  "mock_http host srv url =
     (if HasPrefix url (base_url host @ ''/'')
      then (case srv (drop (length (base_url host)) url) of (status, body) \<Rightarrow> HttpResponse status body True)
      else HttpError)"

section \<open>What the updater reads\<close>

lemma file_in_mem: "distinct (map fst es) \<Longrightarrow> (n, Some d) \<in> set es \<Longrightarrow> file_in (Some es) n = Some d"
  by (simp add: file_in_def)

lemma assetNames_mem:
  "distinct (map fst es) \<Longrightarrow> assetNames (Some es) = Some names \<Longrightarrow> n \<in> set names \<longleftrightarrow>
     n \<noteq> ''checksums.txt'' \<and> (\<exists>d. (n, Some d) \<in> set es)"
  by (force simp: assetNames_def)

lemma mock_sums_file:
  "\<forall>n \<in> set ns. file_in dir n \<noteq> None \<Longrightarrow>
     mock_sums hex dir ns = Some (sum_file (map (\<lambda>n. (n, hex (the (file_in dir n)))) ns))"
  by (induction ns) (auto simp: sum_file_def sum_line_def)

lemma filepath_Base_plain: "n \<noteq> [] \<Longrightarrow> CHR ''/'' \<notin> set n \<Longrightarrow> filepath_Base n = n"
proof -
  assume n: "n \<noteq> []" "CHR ''/'' \<notin> set n"
  then have 1: "dropWhile (\<lambda>c. c = CHR ''/'') (rev n) = rev n"
    by (cases "rev n") (auto simp: dropWhile_eq_self_iff)
  have 2: "takeWhile (\<lambda>c. c \<noteq> CHR ''/'') (rev n) = rev n"
    using n by (auto simp: takeWhile_eq_all_conv)
  show ?thesis by (simp add: filepath_Base_def 1 2 n(1))
qed

lemma mock_http_download:
  "mock_http host srv (base_url host @ ''/download/'' @ n) = (case srv (''/download/'' @ n) of (st, b) \<Rightarrow> HttpResponse st b True)"
proof -
  have "HasPrefix (base_url host @ ''/download/'' @ n) (base_url host @ ''/'')"
    unfolding HasPrefix_iff by (intro exI [of _ "''download/'' @ n"]) simp
  then show ?thesis by (simp add: mock_http_def)
qed

section \<open>A run that succeeds\<close>

lemma no_faults_tick [simp]: "no_faults (tick s) = no_faults s" "no_faults ((tick s)\<lparr>files := f\<rparr>) = no_faults s"
  "files (tick s) = files s" "next_fault s = None \<or> \<not> no_faults s"
  by (auto simp: no_faults_def tick_def next_fault_def)

lemma downloadFile_ok:
  assumes "http_get env url = HttpResponse 200 d True" and "int (length d) \<le> maxDownloadBytes" and "no_faults s"
  shows "downloadFile env url dest s = (Inr (sha256 env d), (tick s)\<lparr>files := (files s)(dest \<mapsto> d)\<rparr>)"
proof -
  have "next_fault s = None" using assms(3) by (simp add: no_faults_def next_fault_def)
  with assms show ?thesis
    by (simp add: downloadFile_def limit_read_def no_faults_WriteFile Let_def)
qed

lemma fetchVerify_ok:
  assumes "http_get env (as_URL a) = HttpResponse 200 d True" and "int (length d) \<le> maxDownloadBytes" and "no_faults s"
    and "sums (as_Name a) = Some (sha256 env d)"
  shows "fetchVerify env a dest sums (u, s) =
    (None, logf (Verified (as_Name a)) (logf (Downloading (as_Name a)) u), (tick s)\<lparr>files := (files s)(dest \<mapsto> d)\<rparr>)"
  using assms by (simp add: fetchVerify_def downloadFile_ok)

lemma writeJSON_data_ok:
  assumes "no_faults s" and "doc \<noteq> None"
  shows "\<exists>s'. writeJSON_data path doc s = (True, s') \<and> (\<forall>q. q \<noteq> path \<and> q \<noteq> path @ ''.tmp'' \<longrightarrow> files s' q = files s q)"
proof -
  obtain d where d: "doc = Some d" using assms(2) by blast
  have n: "no_faults ((tick (tick s))\<lparr>files := (files (tick s))(path @ ''.tmp'' \<mapsto> d)\<rparr>)" using assms(1) by simp
  show ?thesis
    using assms(1) no_faults_Rename [OF n, of "path @ ''.tmp''" d path]
    by (auto simp: writeJSON_data_def d no_faults_MkdirAll no_faults_WriteFile Let_def)
qed

lemma run_stage_ok:
  assumes suf: "archAssetSuffix (goarch env) = Some suffix"
    and w: "find_asset rel (''wlcsim-'' @ suffix) = Some wa" "http_get env (as_URL wa) = HttpResponse 200 wd True"
      "sums (as_Name wa) = Some (sha256 env wd)" "int (length wd) \<le> maxDownloadBytes"
    and c: "find_asset rel (''wlcsim-console-'' @ suffix) = Some ca" "http_get env (as_URL ca) = HttpResponse 200 cd True"
      "sums (as_Name ca) = Some (sha256 env cd)" "int (length cd) \<le> maxDownloadBytes"
    and k: "find_asset rel ''checksums.txt'' = Some ka" "fetchChecksums env (as_URL ka) = Inr sums"
    and env: "spawn_ok env" "encode_config env (handoff_config rel u) \<noteq> None" "no_faults s"
  shows "\<exists>u' s'. run_stage env rel (u, s) = (None, u', s') \<and> u_busy u' = u_busy u \<and>
    files s' (new_wlcsim u) = Some wd \<and> files s' (new_console u) = Some cd"
proof -
  let ?u = "logf (Starting (rel_TagName rel)) u"
  let ?u1 = "logf FetchingChecksums ?u"
  obtain u2 where f2: "fetchVerify env wa (new_wlcsim ?u) sums (?u1, tick s) =
      (None, u2, (tick (tick s))\<lparr>files := (files s)(new_wlcsim u \<mapsto> wd)\<rparr>)" and b2: "u_busy u2 = u_busy u"
    using fetchVerify_ok [of env wa wd "tick s" sums, OF w(2,4) _ w(3)] env(3) by auto
  let ?s2 = "(tick (tick s))\<lparr>files := (files s)(new_wlcsim u \<mapsto> wd)\<rparr>"
  let ?s3 = "(tick ?s2)\<lparr>files := (files s)(new_wlcsim u \<mapsto> wd, new_console u \<mapsto> cd)\<rparr>"
  obtain u3 where f3: "fetchVerify env ca (new_console ?u) sums (u2, ?s2) = (None, u3, ?s3)" and b3: "u_busy u3 = u_busy u"
    using fetchVerify_ok [of env ca cd ?s2 sums, OF c(2,4) _ c(3)] env(3) b2 by auto
  have n3: "no_faults ?s3" using env(3) by simp
  from writeJSON_data_ok [OF n3 env(2), of "helper_path u"] obtain s4 where
    j: "writeJSON_data (helper_path u) (encode_config env (handoff_config rel u)) ?s3 = (True, s4)"
    and fr: "\<forall>q. q \<noteq> helper_path u \<and> q \<noteq> helper_path u @ ''.tmp'' \<longrightarrow> files s4 q = files ?s3 q" by blast
  have "run_stage env rel (u, s) = (None, logf (Installing (rel_TagName rel)) u3, s4)"
    using suf w(1) c(1) k env(1,3) f2 f3 j by (simp add: run_stage_def Let_def no_faults_MkdirAll)
  then show ?thesis using fr b3 by simp
qed

text \<open>
  C11. The updater against the mock server (and so against any release laid out like it): when the
  directory holds both binaries for the architecture, under the download limit, the checksum file
  is under its limit and no file system fault happens, the run stages exactly the two served files,
  starts the helper and keeps the busy flag for it.
\<close>

theorem mock_release_installs:
  assumes suf: "archAssetSuffix (goarch env) = Some suffix"
    and srv: "http_get env = mock_http host (mock_serve (sha256 env) enc other host tag repo (Some es))"
    and dir: "distinct (map fst es)" "(''wlcsim-'' @ suffix, Some wd) \<in> set es" "(''wlcsim-console-'' @ suffix, Some cd) \<in> set es"
    and names: "assetNames (Some es) = Some ns" "list_all sum_entry_ok (map (\<lambda>n. (n, sha256 env (the (file_in (Some es) n)))) ns)"
    and size: "int (length wd) \<le> maxDownloadBytes" "int (length cd) \<le> maxDownloadBytes"
      "int (length (sum_file (map (\<lambda>n. (n, sha256 env (the (file_in (Some es) n)))) ns))) \<le> checksums_limit"
    and env: "spawn_ok env" "\<And>sw. encode_config env sw \<noteq> None" "no_faults s"
  shows "\<exists>u' s'. run_update env (mock_release host tag (Some es) ns) (u, s) = (True, u', s') \<and> u_busy u' = u_busy u \<and>
    files s' (new_wlcsim u) = Some wd \<and> files s' (new_console u) = Some cd"
proof -
  let ?rel = "mock_release host tag (Some es) ns"
  let ?pairs = "map (\<lambda>n. (n, sha256 env (the (file_in (Some es) n)))) ns"
  let ?wn = "''wlcsim-'' @ suffix" and ?cn = "''wlcsim-console-'' @ suffix"
  have sfx: "suffix = ''linux-amd64'' \<or> suffix = ''linux-arm64''"
    using suf by (auto simp: archAssetSuffix_def split: if_splits)
  have fi: "file_in (Some es) ?wn = Some wd" "file_in (Some es) ?cn = Some cd"
    using dir by (simp_all add: file_in_mem)
  have mem: "n \<in> set ns \<longleftrightarrow> n \<noteq> ''checksums.txt'' \<and> (\<exists>d. (n, Some d) \<in> set es)" for n
    using assetNames_mem [OF dir(1) names(1)] .
  have wns: "?wn \<in> set ns" "?cn \<in> set ns" and nck: "''checksums.txt'' \<notin> set ns"
    using dir(2,3) sfx by (auto simp: mem)
  have find: "find_asset ?rel n = Some (mock_asset host (Some es) n)" if "n \<in> set ns" for n
    using that by (induction ns) (auto simp: find_asset_def mock_release_def mock_asset_def)
  have serve: "http_get env (as_URL (mock_asset host (Some es) n)) = HttpResponse 200 d True"
    if "n \<in> {?wn, ?cn}" "file_in (Some es) n = Some d" for n d
  proof -
    have b: "filepath_Base n = n" "n \<noteq> ''checksums.txt''" using that(1) sfx by (auto simp: filepath_Base_plain)
    have "\<not> HasPrefix (''/download/'' @ n) ''/repos/''" by simp
    then have "''/download/'' @ n \<noteq> ''/repos/'' @ repo @ ''/releases/latest''" by simp
    moreover have "as_URL (mock_asset host (Some es) n) = base_url host @ ''/download/'' @ n"
      by (simp add: mock_asset_def)
    ultimately show ?thesis
      unfolding srv using b that(2) by (simp only: mock_http_download) (simp add: mock_serve_def TrimPrefix_def)
  qed
  have ck: "find_asset ?rel ''checksums.txt'' = Some \<lparr>as_Name = ''checksums.txt'',
      as_URL = base_url host @ ''/download/checksums.txt'', as_Size = 0\<rparr>"
    using nck by (induction ns) (auto simp: find_asset_def mock_release_def mock_asset_def)
  have all: "\<forall>n \<in> set ns. file_in (Some es) n \<noteq> None"
    using mem file_in_mem [OF dir(1)] by fastforce
  have "http_get env (base_url host @ ''/download/'' @ ''checksums.txt'') = HttpResponse 200 (sum_file ?pairs) True"
    unfolding srv mock_http_download
    using names(1) mock_sums_file [OF all, of "sha256 env"]
    by (simp add: mock_serve_def TrimPrefix_def filepath_Base_plain)
  moreover have "?pairs \<noteq> []" using wns by auto
  ultimately have sums: "fetchChecksums env (base_url host @ ''/download/checksums.txt'') = Inr (map_of (rev ?pairs))"
    using parse_sum_file [OF _ names(2)] size(3) by (simp add: fetchChecksums_def limit_read_def)
  have dn: "distinct (map fst (rev ?pairs))"
  proof -
    have "distinct ns" using names(1) dir(1) by (auto simp: assetNames_def distinct_map_filter)
    then show ?thesis by (simp add: comp_def rev_map [symmetric])
  qed
  have sm: "map_of (rev ?pairs) n = Some (sha256 env d)" if "n \<in> set ns" "file_in (Some es) n = Some d" for n d
    using that by (intro map_of_is_SomeI [OF dn]) force
  have nm: "as_Name (mock_asset host (Some es) n) = n" for n by (simp add: mock_asset_def)
  from run_stage_ok [of env suffix ?rel, OF suf find [OF wns(1)] serve [OF _ fi(1)] _ size(1) find [OF wns(2)]
      serve [OF _ fi(2)] _ size(2) ck _ env(1) env(2) env(3), where sums = "map_of (rev ?pairs)" and u = u]
  obtain u' s' where "run_stage env ?rel (u, s) = (None, u', s')" "u_busy u' = u_busy u"
    "files s' (new_wlcsim u) = Some wd" "files s' (new_console u) = Some cd"
    using sm [OF wns(1) fi(1)] sm [OF wns(2) fi(2)] sums by (auto simp: nm)
  then show ?thesis by (simp add: run_update_def)
qed

definition demo_dir :: "dir_entry list" where
  "demo_dir = [(''old'', None), (''wlcsim-linux-amd64'', Some ''aa''), (''wlcsim-console-linux-amd64'', Some ''bb'')]"

definition demo_names :: "string list" where
  "demo_names = [''wlcsim-console-linux-amd64'', ''wlcsim-linux-amd64'']"

definition mock_env :: upd_env where
  "mock_env = demo_env\<lparr>http_get := mock_http ''h'' (mock_serve (sha256 demo_env) (\<lambda>_. []) (\<lambda>_. (404, [])) ''h'' ''v2'' ''r'' (Some demo_dir))\<rparr>"

lemma demo_names_served: "assetNames (Some demo_dir) = Some demo_names"
  by code_simp

lemma demo_pairs:
  "map (\<lambda>n. (n, sha256 mock_env (the (file_in (Some demo_dir) n)))) demo_names =
   [(''wlcsim-console-linux-amd64'', ''bb''), (''wlcsim-linux-amd64'', ''aa'')]"
  by (simp add: demo_names_def demo_dir_def file_in_def mock_env_def demo_env_def)

theorem mock_release_installs_witness:
  "\<exists>u' s'. run_update mock_env (mock_release ''h'' ''v2'' (Some demo_dir) demo_names) (demo_updater\<lparr>u_busy := True\<rparr>, empty_fs) =
     (True, u', s') \<and> files s' ''/w/wlcsim.new'' = Some ''aa''"
proof -
  have suf: "archAssetSuffix (goarch mock_env) = Some ''linux-amd64''"
    by (simp add: archAssetSuffix_def mock_env_def demo_env_def)
  have srv: "http_get mock_env = mock_http ''h'' (mock_serve (sha256 mock_env) (\<lambda>_. []) (\<lambda>_. (404, [])) ''h'' ''v2'' ''r'' (Some demo_dir))"
    by (simp add: mock_env_def)
  have dir: "distinct (map fst demo_dir)" "(''wlcsim-'' @ ''linux-amd64'', Some ''aa'') \<in> set demo_dir"
    "(''wlcsim-console-'' @ ''linux-amd64'', Some ''bb'') \<in> set demo_dir"
    by (simp_all add: demo_dir_def)
  have ok: "list_all sum_entry_ok [(''wlcsim-console-linux-amd64'', ''bb''), (''wlcsim-linux-amd64'', ''aa'')]"
    by (simp add: sum_entry_ok_def is_space_def ToLower_def to_lower_char_def char_code_def Let_def)
  have p: "new_wlcsim (demo_updater\<lparr>u_busy := True\<rparr>) = ''/w/wlcsim.new''" by code_simp
  have sw: "encode_config mock_env x \<noteq> None" "spawn_ok mock_env" for x by (simp_all add: mock_env_def demo_env_def)
  from mock_release_installs [OF suf srv dir demo_names_served, unfolded demo_pairs, OF ok _ _ _ sw(2,1) no_faults_empty,
      of "demo_updater\<lparr>u_busy := True\<rparr>"]
  show ?thesis by (auto simp: p maxDownloadBytes_def checksums_limit_def sum_file_def sum_line_def)
qed

end
