(* ===== verification/Connection.thy ===== *)
theory Connection
  imports Shell Tftp Config
begin

text \<open>
  The SSH server of a controller around its sessions (\<^verbatim>\<open>Serve\<close> and
  \<^verbatim>\<open>handleConnection\<close> in \<^verbatim>\<open>internal/sshsim/server.go\<close>): the
  password check, the channels of a connection, and what the events of a session do to the
  access log and the TFTP manager. The handshake of the library and the connection it runs on are
  arguments; the time of an entry is any function of the log.
\<close>

section \<open>Events on the shared state\<close>

record ssh_env =
  se_clock :: "store \<Rightarrow> int"
  se_listens :: "string \<Rightarrow> bool"   \<comment> \<open>whether a TFTP server can listen on an address\<close>
  se_world :: world

definition PasswordCallback :: "auth \<Rightarrow> string \<Rightarrow> string \<Rightarrow> bool" where
  "PasswordCallback au user password \<longleftrightarrow> user = a_Username au \<and> password = a_Password au"

definition ssh_entry :: "device \<Rightarrow> string \<Rightarrow> entry" where
  "ssh_entry d remote =
     empty_entry\<lparr>e_DeviceHost := d_Hostname d, e_DeviceIP := d_IP d, e_Type := ''ssh'', e_Source := remote\<rparr>"

definition logCmd :: "ssh_env \<Rightarrow> device \<Rightarrow> string \<Rightarrow> string \<Rightarrow> string \<Rightarrow> store \<Rightarrow> panic + store" where
  "logCmd env d remote user cmd logs =
     Add (se_clock env logs) ((ssh_entry d remote)\<lparr>e_User := user, e_Command := cmd\<rparr>) logs"

fun shell_effect ::
  "ssh_env \<Rightarrow> device \<Rightarrow> string \<Rightarrow> string \<Rightarrow> shell_event \<Rightarrow> store \<times> manager \<Rightarrow> panic + (store \<times> manager)" where
  "shell_effect env d remote user (LogCmd cmd) (logs, m) = on_ok (\<lambda>l. Inr (l, m)) (logCmd env d remote user cmd logs)"
| "shell_effect env d remote user EnsureTFTP (logs, m) = Inr (logs, EnsureRunning (se_listens env (listen_addr d)) (d_IP d) m)"
| "shell_effect env d remote user _ (logs, m) = Inr (logs, m)"

fun shell_effects ::
  "ssh_env \<Rightarrow> device \<Rightarrow> string \<Rightarrow> string \<Rightarrow> shell_event list \<Rightarrow> store \<times> manager \<Rightarrow> panic + (store \<times> manager)" where
  "shell_effects env d remote user [] lm = Inr lm"
| "shell_effects env d remote user (e # es) lm =
     on_ok (shell_effects env d remote user es) (shell_effect env d remote user e lm)"

fun as_shell_events :: "session_event \<Rightarrow> shell_event list" where
  "as_shell_events (Command cmd) = [LogCmd cmd]"
| "as_shell_events (Sent e) = [e]"
| "as_shell_events (ShellTrace es) = es"
| "as_shell_events _ = []"

section \<open>Channels and connections\<close>

record channel_request =
  cr_type :: string
  cr_accepted :: bool           \<comment> \<open>accepting it succeeds\<close>
  cr_requests :: "request list"
  cr_input :: "string list"

definition run_channel ::
  "ssh_env \<Rightarrow> string \<Rightarrow> string \<Rightarrow> channel_request \<Rightarrow> device \<times> store \<times> manager \<Rightarrow> panic + (device \<times> store \<times> manager)" where
  \<comment> \<open>a channel that is rejected or cannot be accepted has no session\<close>
  "run_channel env remote user c dlm =
     (let (d, lm) = dlm
      in if cr_type c \<noteq> ''session'' \<or> \<not> cr_accepted c then Inr dlm
         else on_ok (\<lambda>(ev, d'). on_ok (\<lambda>lm'. Inr (d', lm')) (shell_effects env d remote user (concat (map as_shell_events ev)) lm))
                (handleSession (se_world env) (cr_requests c) d (cr_input c)))"

fun run_channels ::
  "ssh_env \<Rightarrow> string \<Rightarrow> string \<Rightarrow> channel_request list \<Rightarrow> device \<times> store \<times> manager \<Rightarrow>
     panic + (device \<times> store \<times> manager)" where
  \<comment> \<open>sessions one after the other, the usual order of one client\<close>
  "run_channels env remote user [] dlm = Inr dlm"
| "run_channels env remote user (c # cs) dlm = on_ok (run_channels env remote user cs) (run_channel env remote user c dlm)"

definition handleConnection ::
  "ssh_env \<Rightarrow> ((string \<Rightarrow> string \<Rightarrow> bool) \<Rightarrow> 'c \<Rightarrow> string option) \<Rightarrow> auth \<Rightarrow> 'c \<Rightarrow> string \<Rightarrow> channel_request list \<Rightarrow>
     device \<times> store \<times> manager \<Rightarrow> panic + (device \<times> store \<times> manager)" where
  "handleConnection env handshake au conn remote chs dlm =
     (let (d, logs, m) = dlm
      in case handshake (PasswordCallback au) conn of
           None \<Rightarrow> on_ok (\<lambda>l. Inr (d, l, m))
                     (Add (se_clock env logs) ((ssh_entry d remote)\<lparr>e_Detail := ''auth failed''\<rparr>) logs)
         | Some user \<Rightarrow>
             on_ok (\<lambda>l. run_channels env remote user chs (d, l, m))
               (Add (se_clock env logs) ((ssh_entry d remote)\<lparr>e_User := user, e_Detail := ''session opened''\<rparr>) logs))"

datatype 'c accepted =
    Conn 'c string "channel_request list" | AcceptError | ListenerClosed

fun accept_loop ::
  "ssh_env \<Rightarrow> ((string \<Rightarrow> string \<Rightarrow> bool) \<Rightarrow> 'c \<Rightarrow> string option) \<Rightarrow> auth \<Rightarrow> 'c accepted list \<Rightarrow>
     device \<times> store \<times> manager \<Rightarrow> panic + (bool \<times> device \<times> store \<times> manager)" where
  \<comment> \<open>the loop of \<^verbatim>\<open>Serve\<close>: True when it has returned; connections one after the other\<close>
  "accept_loop env hs au [] dlm = Inr (False, dlm)"
| "accept_loop env hs au (ListenerClosed # as) dlm = Inr (True, dlm)"
| "accept_loop env hs au (AcceptError # as) dlm = accept_loop env hs au as dlm"
| "accept_loop env hs au (Conn c remote chs # as) dlm =
     on_ok (accept_loop env hs au as) (handleConnection env hs au c remote chs dlm)"

section \<open>What the log says of a connection\<close>

definition by_user :: "device \<Rightarrow> string \<Rightarrow> string \<Rightarrow> entry \<Rightarrow> bool" where
  "by_user d remote user e \<longleftrightarrow> e_User e = user \<and> e_Type e = ''ssh'' \<and> e_Source e = remote \<and> e_DeviceIP e = d_IP d"

lemma Add_usable: "store_wf s \<Longrightarrow> Add now e s = Inr (add_stamped (stamp now e) s) \<and> store_wf (add_stamped (stamp now e) s)"
  using Add_result [of s now e] by (simp add: Add_ok_stamped)

lemma stamp_fields [simp]:
  "e_User (stamp t e) = e_User e" "e_Type (stamp t e) = e_Type e" "e_Source (stamp t e) = e_Source e"
  "e_DeviceIP (stamp t e) = e_DeviceIP e" "e_Command (stamp t e) = e_Command e" "e_Detail (stamp t e) = e_Detail e"
  by (simp_all add: stamp_def)

lemma ssh_entry_fields [simp]:
  "e_Type (ssh_entry d remote) = ''ssh''" "e_Source (ssh_entry d remote) = remote" "e_DeviceIP (ssh_entry d remote) = d_IP d"
  "e_User (ssh_entry d remote) = []" "e_Command (ssh_entry d remote) = []"
  by (simp_all add: ssh_entry_def empty_entry_def)

lemma shell_effects_recorded:
  "store_wf logs \<Longrightarrow> \<exists>es m'. shell_effects env d remote user evs (logs, m) = Inr (fold add_stamped es logs, m') \<and>
     map e_Command es = logged evs \<and> list_all (by_user d remote user) es"
proof (induction evs arbitrary: logs m)
  case Nil
  show ?case by (intro exI [of _ "[]"]) simp
next
  case (Cons ev evs)
  show ?case
  proof (cases ev)
    case (LogCmd cmd)
    let ?e = "stamp (se_clock env logs) ((ssh_entry d remote)\<lparr>e_User := user, e_Command := cmd\<rparr>)"
    have a: "logCmd env d remote user cmd logs = Inr (add_stamped ?e logs)" "store_wf (add_stamped ?e logs)"
      using Add_usable [OF Cons.prems] by (simp_all add: logCmd_def)
    from Cons.IH [OF a(2), of m] obtain es m' where
      "shell_effects env d remote user evs (add_stamped ?e logs, m) = Inr (fold add_stamped es (add_stamped ?e logs), m')"
      "map e_Command es = logged evs" "list_all (by_user d remote user) es" by blast
    moreover have "by_user d remote user ?e" by (simp add: by_user_def)
    ultimately show ?thesis
      by (intro exI [of _ "?e # es"] exI [of _ m']) (simp add: LogCmd a(1))
  qed (use Cons in auto)
qed

fun channel_commands :: "ssh_env \<Rightarrow> channel_request list \<Rightarrow> device \<Rightarrow> string list" where
  \<comment> \<open>the commands the sessions of a connection execute, in order\<close>
  "channel_commands env [] d = []"
| "channel_commands env (c # cs) d =
     (if cr_type c \<noteq> ''session'' \<or> \<not> cr_accepted c then channel_commands env cs d
      else case handleSession (se_world env) (cr_requests c) d (cr_input c) of
             Inl _ \<Rightarrow> []
           | Inr (ev, d') \<Rightarrow> logged (concat (map as_shell_events ev)) @ channel_commands env cs d')"

lemma fold_stamped_wf: "store_wf logs \<Longrightarrow> store_wf (fold add_stamped es logs)"
  using log.usable_fold by blast

lemma run_channels_recorded:
  "store_wf logs \<Longrightarrow> run_channels env remote user chs (d, logs, m) = Inr (d', logs', m') \<Longrightarrow>
     \<exists>es. logs' = fold add_stamped es logs \<and> map e_Command es = channel_commands env chs d \<and>
       (\<forall>e \<in> set es. e_User e = user \<and> e_Type e = ''ssh'' \<and> e_Source e = remote)"
proof (induction chs arbitrary: d logs m)
  case Nil
  then show ?case by (intro exI [of _ "[]"]) simp
next
  case (Cons c chs)
  show ?case
  proof (cases "cr_type c \<noteq> ''session'' \<or> \<not> cr_accepted c")
    case True
    then have "run_channel env remote user c (d, logs, m) = Inr (d, logs, m)" by (simp add: run_channel_def)
    with Cons True show ?thesis by simp
  next
    case False
    then obtain ev d1 where h: "handleSession (se_world env) (cr_requests c) d (cr_input c) = Inr (ev, d1)"
      using Cons.prems(2) by (cases "handleSession (se_world env) (cr_requests c) d (cr_input c)") (auto simp: run_channel_def)
    let ?evs = "concat (map as_shell_events ev)"
    from shell_effects_recorded [OF Cons.prems(1), of env d remote user ?evs m] obtain es1 m1 where
      e: "shell_effects env d remote user ?evs (logs, m) = Inr (fold add_stamped es1 logs, m1)"
      "map e_Command es1 = logged ?evs" "list_all (by_user d remote user) es1" by blast
    have "run_channel env remote user c (d, logs, m) = Inr (d1, fold add_stamped es1 logs, m1)"
      using False by (simp add: run_channel_def h e(1))
    then have "run_channels env remote user chs (d1, fold add_stamped es1 logs, m1) = Inr (d', logs', m')"
      using Cons.prems(2) by simp
    from Cons.IH [OF fold_stamped_wf [OF Cons.prems(1)] this] obtain es2 where
      "logs' = fold add_stamped es2 (fold add_stamped es1 logs)" "map e_Command es2 = channel_commands env chs d1"
      "\<forall>e \<in> set es2. e_User e = user \<and> e_Type e = ''ssh'' \<and> e_Source e = remote" by blast
    then show ?thesis
      using False h e(2,3) by (intro exI [of _ "es1 @ es2"]) (auto simp: by_user_def list_all_iff)
  qed
qed


definition password_once :: "(string \<Rightarrow> string \<Rightarrow> bool) \<Rightarrow> string \<times> string \<Rightarrow> string option" where
  \<comment> \<open>a handshake that tries one password\<close>
  "password_once cb c = (if cb (fst c) (snd c) then Some (fst c) else None)"

definition sample_ssh :: ssh_env where
  "sample_ssh = \<lparr>se_clock = (\<lambda>_. 7), se_listens = (\<lambda>_. True), se_world = quiet_world\<rparr>"

definition sample_auth :: auth where
  "sample_auth = \<lparr>a_Username = ''admin'', a_Password = ''pw'', a_SNMPCommunity = []\<rparr>"


end
