(* ===== verification/Listeners.thy ===== *)
theory Listeners
  imports Simulator
begin

text \<open>
  The sockets behind the server groups of \<open>Simulator\<close>: what the three \<^verbatim>\<open>Serve\<close>
  functions (\<^verbatim>\<open>internal/restconf/server.go\<close>, \<^verbatim>\<open>internal/sshsim/server.go\<close>,
  \<^verbatim>\<open>internal/snmp/server.go\<close>) do up to the moment they listen, how
  \<^verbatim>\<open>startDeviceServers\<close> launches them and \<^verbatim>\<open>stopHandle\<close> ends them. A
  server that was launched listens some time later, in an order of its own: listening is a step
  between the requests. An address that is in use makes \<^verbatim>\<open>net.Listen\<close> fail, the error is
  only logged, and the site stays without that server.
\<close>

section \<open>The servers of one group\<close>

datatype protocol = RESTCONF | SSH | SNMP

datatype transport = TCP | UDP

datatype serve_error = CertFailed | HostKeyFailed | ListenFailed protocol string

datatype progress = Launched | Listening | Returned serve_error

record server =
  sv_handle :: nat            \<comment> \<open>the group it belongs to\<close>
  sv_proto :: protocol
  sv_host :: string
  sv_ip :: string
  sv_port :: int
  sv_progress :: progress

record listen_env =
  le_cert :: "string \<Rightarrow> string \<Rightarrow> bool"      \<comment> \<open>\<^verbatim>\<open>generateSelfSignedCert\<close> succeeds for an address and a host name\<close>
  le_hostkey :: bool                       \<comment> \<open>\<^verbatim>\<open>generateHostKey\<close> succeeds\<close>
  le_addr :: "string \<Rightarrow> string"            \<comment> \<open>the address a text denotes\<close>
  le_grant :: "transport \<Rightarrow> string \<Rightarrow> int \<Rightarrow> bool"  \<comment> \<open>the host has the address and no other process uses the port\<close>

fun transport_of :: "protocol \<Rightarrow> transport" where
  "transport_of RESTCONF = TCP"
| "transport_of SSH = TCP"
| "transport_of SNMP = UDP"

fun port_of :: "protocol \<Rightarrow> device \<Rightarrow> int" where
  "port_of RESTCONF d = d_HTTPSPort d"
| "port_of SSH d = d_SSHPort d"
| "port_of SNMP d = d_SNMPPort d"

definition launch :: "nat \<Rightarrow> device \<Rightarrow> protocol \<Rightarrow> server" where
  "launch h d p = \<lparr>sv_handle = h, sv_proto = p, sv_host = d_Hostname d, sv_ip = d_IP d,
     sv_port = port_of p d, sv_progress = Launched\<rparr>"

definition launch_group :: "nat \<Rightarrow> device \<Rightarrow> server list" where
  \<comment> \<open>the three goroutines of \<^verbatim>\<open>startDeviceServers\<close>\<close>
  "launch_group h d = map (launch h d) [RESTCONF, SSH, SNMP]"

definition server_addr :: "server \<Rightarrow> string" where
  "server_addr l = sv_ip l @ '':'' @ itoa (sv_port l)"

definition socket :: "listen_env \<Rightarrow> server \<Rightarrow> transport \<times> string \<times> int" where
  "socket env l = (transport_of (sv_proto l), le_addr env (sv_ip l), sv_port l)"

definition in_use :: "listen_env \<Rightarrow> server list \<Rightarrow> server \<Rightarrow> bool" where
  "in_use env ls l \<longleftrightarrow> list_ex (\<lambda>k. sv_progress k = Listening \<and> socket env k = socket env l) ls"

definition Listen :: "listen_env \<Rightarrow> server list \<Rightarrow> server \<Rightarrow> progress" where
  \<comment> \<open>\<^verbatim>\<open>net.Listen\<close> (or \<^verbatim>\<open>ListenUDP\<close>) as the three functions call it\<close>
  "Listen env ls l =
     (if le_grant env (transport_of (sv_proto l)) (le_addr env (sv_ip l)) (sv_port l) \<and> \<not> in_use env ls l
      then Listening else Returned (ListenFailed (sv_proto l) (server_addr l)))"

fun Serve_restconf :: "listen_env \<Rightarrow> server list \<Rightarrow> server \<Rightarrow> progress" where
  "Serve_restconf env ls l =
     (if \<not> le_cert env (sv_ip l) (sv_host l) then Returned CertFailed else Listen env ls l)"

fun Serve_ssh :: "listen_env \<Rightarrow> server list \<Rightarrow> server \<Rightarrow> progress" where
  "Serve_ssh env ls l = (if \<not> le_hostkey env then Returned HostKeyFailed else Listen env ls l)"

fun Serve_snmp :: "listen_env \<Rightarrow> server list \<Rightarrow> server \<Rightarrow> progress" where
  "Serve_snmp env ls l = Listen env ls l"

definition Serve :: "listen_env \<Rightarrow> server list \<Rightarrow> server \<Rightarrow> progress" where
  "Serve env ls l =
     (case sv_proto l of RESTCONF \<Rightarrow> Serve_restconf env ls l | SSH \<Rightarrow> Serve_ssh env ls l | SNMP \<Rightarrow> Serve_snmp env ls l)"

definition get_going :: "listen_env \<Rightarrow> nat \<Rightarrow> server list \<Rightarrow> server list" where
  \<comment> \<open>the goroutine at this place runs up to its accept loop, or returns\<close>
  "get_going env i ls =
     (if i < length ls \<and> sv_progress (ls ! i) = Launched
      then ls[i := (ls ! i)\<lparr>sv_progress := Serve env ls (ls ! i)\<rparr>] else ls)"

definition settle :: "listen_env \<Rightarrow> server list \<Rightarrow> server list" where
  \<comment> \<open>every launched server gets its turn\<close>
  "settle env ls = fold (get_going env) [0..<length ls] ls"

definition stop_group :: "nat \<Rightarrow> server list \<Rightarrow> server list" where
  \<comment> \<open>\<^verbatim>\<open>close(h.stop); h.wg.Wait()\<close>: all three have returned and closed their sockets\<close>
  "stop_group h ls = filter (\<lambda>l. sv_handle l \<noteq> h) ls"

section \<open>The certificate of the HTTPS server\<close>

datatype key_usage = DigitalSignature | KeyEncipherment

datatype ext_key_usage = ServerAuth

record certificate =
  ct_CommonName :: string
  ct_Organization :: "string list"
  ct_NotBefore :: int
  ct_NotAfter :: int
  ct_KeyUsage :: "key_usage set"
  ct_ExtKeyUsage :: "ext_key_usage list"
  ct_BasicConstraintsValid :: bool
  ct_DNSNames :: "string list"
  ct_IPAddresses :: "ip list"

definition cert_template :: "(string \<Rightarrow> ip option) \<Rightarrow> int \<Rightarrow> string \<Rightarrow> string \<Rightarrow> certificate" where
  "cert_template v6 now ip hostname =
     \<lparr>ct_CommonName = hostname, ct_Organization = [''Cisco Systems''], ct_NotBefore = now,
      ct_NotAfter = now + 10 * 365 * 24 * 3600, ct_KeyUsage = {DigitalSignature, KeyEncipherment},
      ct_ExtKeyUsage = [ServerAuth], ct_BasicConstraintsValid = True, ct_DNSNames = [hostname],
      ct_IPAddresses = (case ParseIP v6 ip of None \<Rightarrow> [] | Some a \<Rightarrow> [a])\<rparr>"

record key_steps =
  ks_GenerateKey :: bool
  ks_CreateCertificate :: "certificate \<Rightarrow> bool"
  ks_MarshalKey :: bool
  ks_KeyPair :: bool

definition generateSelfSignedCert :: "(string \<Rightarrow> ip option) \<Rightarrow> key_steps \<Rightarrow> int \<Rightarrow> string \<Rightarrow> string \<Rightarrow> certificate option" where
  \<comment> \<open>self-signed, so the template is the certificate; None: one of the library calls failed\<close>
  "generateSelfSignedCert v6 ks now ip hostname =
     (let t = cert_template v6 now ip hostname
      in if \<not> ks_GenerateKey ks then None
         else if \<not> ks_CreateCertificate ks t then None
         else if \<not> ks_MarshalKey ks then None
         else if \<not> ks_KeyPair ks then None
         else Some t)"

definition generateHostKey :: "key_steps \<Rightarrow> bool" where
  "generateHostKey ks \<longleftrightarrow> ks_GenerateKey ks \<and> ks_MarshalKey ks \<and> ks_KeyPair ks"

lemma certificate_names_site:
  assumes "generateSelfSignedCert v6 ks now ip hostname = Some c" and "ParseIP v6 ip = Some a"
  shows "a \<in> set (ct_IPAddresses c) \<and> hostname \<in> set (ct_DNSNames c) \<and>
    (\<forall>t. now \<le> t \<and> t \<le> now + 315360000 \<longrightarrow> ct_NotBefore c \<le> t \<and> t \<le> ct_NotAfter c)"
  using assms by (auto simp: generateSelfSignedCert_def cert_template_def Let_def split: if_splits)

definition listen_env_of :: "(string \<Rightarrow> ip option) \<Rightarrow> key_steps \<Rightarrow> int \<Rightarrow> (string \<Rightarrow> string) \<Rightarrow> (transport \<Rightarrow> string \<Rightarrow> int \<Rightarrow> bool) \<Rightarrow> listen_env" where
  \<comment> \<open>the environment in which the key material is made this way\<close>
  "listen_env_of v6 ks now addr grant =
     \<lparr>le_cert = (\<lambda>ip host. generateSelfSignedCert v6 ks now ip host \<noteq> None), le_hostkey = generateHostKey ks,
      le_addr = addr, le_grant = grant\<rparr>"

section \<open>Following the simulator\<close>

text \<open>
  What the sockets depend on is only which groups are live before and after a request, the
  first handle the request may give out, and the sites as they are afterwards.
\<close>

definition gone :: "(nat \<times> string) list \<Rightarrow> (nat \<times> string) list \<Rightarrow> nat list" where
  \<comment> \<open>the handles that were stopped\<close>
  "gone old new = filter (\<lambda>h. h \<notin> fst ` set new) (map fst old)"

definition started :: "nat \<Rightarrow> (string \<Rightarrow> device option) \<Rightarrow> (nat \<times> string) list \<Rightarrow> server list" where
  \<comment> \<open>the groups that were launched, oldest first\<close>
  "started n look new =
     concat (map (\<lambda>(h, ip). if h < n then [] else (case look ip of None \<Rightarrow> [] | Some d \<Rightarrow> launch_group h d)) (rev new))"

definition follow :: "(nat \<times> string) list \<Rightarrow> nat \<Rightarrow> (string \<Rightarrow> device option) \<Rightarrow> (nat \<times> string) list \<Rightarrow>
    server list \<Rightarrow> server list" where
  \<comment> \<open>within a request the stops come before the starts\<close>
  "follow old n look new ls = fold stop_group (gone old new) ls @ started n look new"

definition site :: "'os machine \<Rightarrow> string \<Rightarrow> device option" where
  "site m ip = find (at ip) (m_devices m)"

definition follow_request :: "'os machine \<Rightarrow> 'os machine \<Rightarrow> server list \<Rightarrow> server list" where
  "follow_request m m' = follow (m_servers m) (m_next m) (site m') (m_servers m')"

definition no_address_twice :: "listen_env \<Rightarrow> 'os machine \<Rightarrow> bool" where
  \<comment> \<open>no two sites denote one address\<close>
  "no_address_twice le m \<longleftrightarrow> distinct (map (\<lambda>d. le_addr le (d_IP d)) (m_devices m))"

inductive host_step :: "'os sim_env \<Rightarrow> listen_env \<Rightarrow> 'os machine \<times> server list \<Rightarrow> 'os machine \<times> server list \<Rightarrow> bool"
  for env le where
  request: "perform env now req m = (r, m') \<Longrightarrow> no_address_twice le m' \<Longrightarrow>
    host_step env le (m, ls) (m', follow_request m m' ls)"
| server: "host_step env le (m, ls) (m, get_going le i ls)"

inductive host_reachable :: "'os sim_env \<Rightarrow> listen_env \<Rightarrow> 'os machine \<times> server list \<Rightarrow> bool" for env le where
  boot: "\<forall>d \<in> set (cfg_Devices cfg). site_ok d \<Longrightarrow> m = NewSimulator cfg tmpl opts s os probe \<Longrightarrow>
    no_address_twice le m \<Longrightarrow> host_reachable env le (StartAll m, follow_request m (StartAll m) [])"
| step: "host_reachable env le s \<Longrightarrow> host_step env le s s' \<Longrightarrow> host_reachable env le s'"

inductive_cases host_stepE: "host_step env le s s'"

section \<open>The invariant of the sockets\<close>

fun excused :: "listen_env \<Rightarrow> server list \<Rightarrow> server \<Rightarrow> progress \<Rightarrow> bool" where
  \<comment> \<open>the reasons for which a server may have given up\<close>
  "excused le ls l (Returned (ListenFailed _ _)) \<longleftrightarrow>
     \<not> le_grant le (transport_of (sv_proto l)) (le_addr le (sv_ip l)) (sv_port l) \<or>
     (\<exists>k \<in> set ls. sv_handle k = sv_handle l \<and> sv_proto k \<noteq> sv_proto l \<and> socket le k = socket le l)"
| "excused le ls l (Returned CertFailed) \<longleftrightarrow> \<not> le_cert le (sv_ip l) (sv_host l)"
| "excused le ls l (Returned HostKeyFailed) \<longleftrightarrow> \<not> le_hostkey le"
| "excused le ls l _ \<longleftrightarrow> True"

definition group_of :: "nat \<Rightarrow> server list \<Rightarrow> server list" where
  "group_of h ls = filter (\<lambda>l. sv_handle l = h) ls"

definition sockets_ok :: "listen_env \<Rightarrow> (nat \<times> string) list \<Rightarrow> (string \<Rightarrow> device option) \<Rightarrow> server list \<Rightarrow> bool" where
  "sockets_ok le live look ls \<longleftrightarrow>
     (\<forall>l \<in> set ls. (sv_handle l, sv_ip l) \<in> set live) \<and>
     (\<forall>l \<in> set ls. \<forall>d. look (sv_ip l) = Some d \<longrightarrow> sv_port l = port_of (sv_proto l) d) \<and>
     (\<forall>h \<in> fst ` set live. map sv_proto (group_of h ls) = [RESTCONF, SSH, SNMP]) \<and>
     (\<forall>l \<in> set ls. excused le ls l (sv_progress l))"

definition one_group_per_address :: "listen_env \<Rightarrow> (nat \<times> string) list \<Rightarrow> bool" where
  "one_group_per_address le live \<longleftrightarrow>
     (\<forall>x \<in> set live. \<forall>y \<in> set live. le_addr le (snd x) = le_addr le (snd y) \<longrightarrow> x = y)"

lemma launch_simps [simp]:
  "sv_handle (launch h d p) = h" "sv_proto (launch h d p) = p" "sv_host (launch h d p) = d_Hostname d"
  "sv_ip (launch h d p) = d_IP d" "sv_port (launch h d p) = port_of p d" "sv_progress (launch h d p) = Launched"
  by (simp_all add: launch_def)

lemma set_stop_groups: "set (fold stop_group hs ls) = {l \<in> set ls. sv_handle l \<notin> set hs}"
  by (induction hs arbitrary: ls) (auto simp: stop_group_def)

lemma group_of_stop: "h \<notin> set hs \<Longrightarrow> group_of h (fold stop_group hs ls) = group_of h ls"
proof (induction hs arbitrary: ls)
  case (Cons k hs)
  then have "group_of h (stop_group k ls) = group_of h ls"
    by (auto simp: group_of_def stop_group_def intro!: filter_cong)
  with Cons show ?case by simp
qed simp

lemma group_of_append [simp]: "group_of h (xs @ ys) = group_of h xs @ group_of h ys"
  by (simp add: group_of_def)

lemma group_of_empty: "(\<forall>l \<in> set ls. sv_handle l \<noteq> h) \<Longrightarrow> group_of h ls = []"
  by (simp add: group_of_def filter_empty_conv)

lemma group_of_launch [simp]: "group_of h (launch_group k d) = (if h = k then launch_group k d else [])"
  by (simp add: group_of_def launch_group_def)

lemma launch_group_protos [simp]: "map sv_proto (launch_group h d) = [RESTCONF, SSH, SNMP]"
  by (simp add: launch_group_def)

lemma launch_group_mem:
  "l \<in> set (launch_group h d) \<Longrightarrow> sv_handle l = h \<and> sv_ip l = d_IP d \<and> sv_port l = port_of (sv_proto l) d \<and> sv_progress l = Launched"
  by (auto simp: launch_group_def)

lemma excused_mono: "excused le ls l p \<Longrightarrow> (\<And>k. k \<in> set ls \<Longrightarrow> sv_handle k = sv_handle l \<Longrightarrow> k \<in> set ls') \<Longrightarrow> excused le ls' l p"
  by (induction le ls l p rule: excused.induct) auto

lemma ex_progress_update:
  assumes "i < length ls" and "\<And>k p. Q (k\<lparr>sv_progress := p\<rparr>) = Q k"
  shows "(\<exists>k \<in> set (ls[i := (ls ! i)\<lparr>sv_progress := p\<rparr>]). Q k) \<longleftrightarrow> (\<exists>k \<in> set ls. Q k)"
proof -
  have "Q (ls[i := (ls ! i)\<lparr>sv_progress := p\<rparr>] ! j) = Q (ls ! j)" if "j < length ls" for j
    using that assms by (cases "j = i") simp_all
  then show ?thesis by (auto simp: in_set_conv_nth Bex_def)
qed

lemma socket_progress [simp]: "socket le (k\<lparr>sv_progress := p\<rparr>) = socket le k"
  by (simp add: socket_def)

lemma excused_progress:
  assumes "i < length ls"
  shows "excused le (ls[i := (ls ! i)\<lparr>sv_progress := p\<rparr>]) l q = excused le ls l q"
  using ex_progress_update [OF assms, of "\<lambda>k. sv_handle k = sv_handle l \<and> sv_proto k \<noteq> sv_proto l \<and> socket le k = socket le l"]
  by (induction le ls l q rule: excused.induct) simp_all

lemma excused_own [simp]: "excused le ls (l\<lparr>sv_progress := p\<rparr>) q = excused le ls l q"
  by (induction le ls l q rule: excused.induct) simp_all

lemma group_protos_update:
  assumes "i < length ls"
  shows "map sv_proto (group_of h (ls[i := (ls ! i)\<lparr>sv_progress := p\<rparr>])) = map sv_proto (group_of h ls)"
  using assms
proof (induction ls arbitrary: i)
  case (Cons x ls)
  then show ?case by (cases i) (simp_all add: group_of_def)
qed simp

lemma same_proto_same_server:
  assumes "map sv_proto (group_of h ls) = [RESTCONF, SSH, SNMP]" and "k \<in> set ls" and "l \<in> set ls"
    and "sv_handle k = h" and "sv_handle l = h" and "sv_proto k = sv_proto l"
  shows "k = l"
proof -
  have "distinct (map sv_proto (group_of h ls))" unfolding assms(1) by simp
  then have "inj_on sv_proto (set (group_of h ls))" by (simp add: distinct_map)
  moreover have "k \<in> set (group_of h ls)" "l \<in> set (group_of h ls)" using assms by (simp_all add: group_of_def)
  ultimately show ?thesis using assms(6) by (blast dest: inj_onD)
qed

lemma Serve_excused:
  assumes ok: "sockets_ok le live look ls" and one: "one_group_per_address le live"
    and l: "l \<in> set ls" "sv_progress l = Launched"
  shows "excused le ls l (Serve le ls l)"
proof -
  have L: "excused le ls l (Listen le ls l)"
  proof (cases "in_use le ls l")
    case True
    then obtain k where k: "k \<in> set ls" "sv_progress k = Listening" "socket le k = socket le l"
      by (auto simp: in_use_def list_ex_iff)
    have mem: "(sv_handle k, sv_ip k) \<in> set live" "(sv_handle l, sv_ip l) \<in> set live"
      using ok k(1) l(1) by (simp_all add: sockets_ok_def)
    moreover have "le_addr le (sv_ip k) = le_addr le (sv_ip l)" using k(3) by (simp add: socket_def)
    ultimately have h: "sv_handle k = sv_handle l"
      using one by (force simp: one_group_per_address_def)
    have "map sv_proto (group_of (sv_handle l) ls) = [RESTCONF, SSH, SNMP]"
      using ok mem(2) by (force simp: sockets_ok_def)
    then have "sv_proto k \<noteq> sv_proto l"
      using same_proto_same_server [of "sv_handle l" ls k l] k l h by auto
    with k h show ?thesis by (auto simp: Listen_def)
  qed (simp add: Listen_def)
  then show ?thesis by (cases "sv_proto l") (simp_all add: Serve_def)
qed

lemma sockets_ok_get_going:
  assumes ok: "sockets_ok le live look ls" and one: "one_group_per_address le live"
  shows "sockets_ok le live look (get_going le i ls)"
proof (cases "i < length ls \<and> sv_progress (ls ! i) = Launched")
  case True
  let ?l = "ls ! i"
  let ?l' = "?l\<lparr>sv_progress := Serve le ls ?l\<rparr>"
  have g: "get_going le i ls = ls[i := ?l']" using True by (simp add: get_going_def)
  have mem: "?l \<in> set ls" using True by simp
  have all: "\<forall>x \<in> set (ls[i := ?l']). Q x" if "\<forall>x \<in> set ls. Q x" "Q ?l'" for Q :: "server \<Rightarrow> bool"
    using that set_update_subset_insert [of ls i ?l'] by blast
  have ex: "excused le ls ?l (Serve le ls ?l)" by (rule Serve_excused [OF ok one mem]) (use True in simp)
  note o = ok [unfolded sockets_ok_def]
  show ?thesis
    unfolding g sockets_ok_def
  proof (intro conjI)
    show "\<forall>x \<in> set (ls[i := ?l']). (sv_handle x, sv_ip x) \<in> set live"
      by (rule all) (use o mem in auto)
    show "\<forall>x \<in> set (ls[i := ?l']). \<forall>d. look (sv_ip x) = Some d \<longrightarrow> sv_port x = port_of (sv_proto x) d"
      by (rule all) (use o mem in auto)
    show "\<forall>h \<in> fst ` set live. map sv_proto (group_of h (ls[i := ?l'])) = [RESTCONF, SSH, SNMP]"
      using o True by (simp add: group_protos_update)
    have "\<forall>x \<in> set (ls[i := ?l']). excused le ls x (sv_progress x)"
      by (rule all) (use o ex in auto)
    then show "\<forall>x \<in> set (ls[i := ?l']). excused le (ls[i := ?l']) x (sv_progress x)"
      using True by (simp add: excused_progress)
  qed
next
  case False
  with ok show ?thesis by (auto simp: get_going_def)
qed

lemma sockets_ok_settle:
  assumes "sockets_ok le live look ls" and "one_group_per_address le live"
  shows "sockets_ok le live look (settle le ls)"
  unfolding settle_def by (rule fold_invariant_list) (use assms sockets_ok_get_going in blast)+

lemma length_get_going [simp]: "length (get_going le i ls) = length ls"
  by (simp add: get_going_def)

lemma Serve_not_launched: "Serve le ls l \<noteq> Launched"
  by (cases "sv_proto l") (simp_all add: Serve_def Listen_def)

lemma get_going_nth: "sv_progress (get_going le i ls ! j) = Launched \<Longrightarrow> j < length ls \<Longrightarrow> sv_progress (ls ! j) = Launched \<and> j \<noteq> i"
  using Serve_not_launched by (auto simp: get_going_def nth_list_update split: if_splits)

lemma settle_none_launched:
  assumes "l \<in> set (settle le ls)"
  shows "sv_progress l \<noteq> Launched"
proof -
  have gen: "length (fold (get_going le) is ls) = length ls \<and>
      (\<forall>j < length ls. sv_progress (fold (get_going le) is ls ! j) = Launched \<longrightarrow> j \<notin> set is)" for "is"
  proof (induction "is" rule: rev_induct)
    case (snoc i "is")
    then show ?case using get_going_nth by fastforce
  qed simp
  from assms gen [of "[0..<length ls]"] show ?thesis
    by (auto simp: settle_def in_set_conv_nth)
qed

section \<open>What the socket layer needs of the simulator\<close>

text \<open>
  The sockets do not care how sites are kept. They need a state with live groups, a bound
  on the handles given out and sites found by address, whose requests keep handles fresh, never
  give an address a second group, and leave the ports of a site alone while its group lives.
\<close>

locale group_host =
  fixes live :: "'s \<Rightarrow> (nat \<times> string) list" and bound :: "'s \<Rightarrow> nat" and look :: "'s \<Rightarrow> string \<Rightarrow> device option"
    and ok :: "'s \<Rightarrow> bool" and req :: "'s \<Rightarrow> 's \<Rightarrow> bool"
  assumes live_bound: "ok s \<Longrightarrow> (h, ip) \<in> set (live s) \<Longrightarrow> h < bound s"
    and live_distinct: "ok s \<Longrightarrow> distinct (map fst (live s))"
    and live_site: "ok s \<Longrightarrow> (h, ip) \<in> set (live s) \<Longrightarrow> \<exists>d. look s ip = Some d"
    and look_ip: "look s ip = Some d \<Longrightarrow> d_IP d = ip"
    and req_ok: "ok s \<Longrightarrow> req s s' \<Longrightarrow> ok s'"
    and req_old: "ok s \<Longrightarrow> req s s' \<Longrightarrow> (h, ip) \<in> set (live s') \<Longrightarrow> h < bound s \<Longrightarrow>
      (h, ip) \<in> set (live s) \<and> (\<forall>p d d'. look s ip = Some d \<longrightarrow> look s' ip = Some d' \<longrightarrow> port_of p d' = port_of p d)"
begin

abbreviation after :: "'s \<Rightarrow> 's \<Rightarrow> server list \<Rightarrow> server list" where
  "after s s' ls \<equiv> follow (live s) (bound s) (look s') (live s') ls"

lemma started_mem:
  assumes "ok s'" and "l \<in> set (started n (look s') (live s'))"
  shows "\<exists>h ip d. (h, ip) \<in> set (live s') \<and> n \<le> h \<and> look s' ip = Some d \<and> l \<in> set (launch_group h d)"
  using assms(2) by (force simp: started_def split: if_splits option.splits)

lemma started_facts:
  assumes "ok s'" and "l \<in> set (started n (look s') (live s'))"
  shows "(sv_handle l, sv_ip l) \<in> set (live s') \<and> n \<le> sv_handle l \<and> sv_progress l = Launched \<and>
    (\<forall>d. look s' (sv_ip l) = Some d \<longrightarrow> sv_port l = port_of (sv_proto l) d)"
proof -
  obtain h ip d where d: "(h, ip) \<in> set (live s')" "n \<le> h" "look s' ip = Some d" "l \<in> set (launch_group h d)"
    using started_mem [OF assms] by blast
  then show ?thesis using look_ip [OF d(3)] launch_group_mem [OF d(4)] by simp
qed

lemma started_group:
  assumes "ok s'" and "(h, ip) \<in> set (live s')" and "n \<le> h"
  shows "map sv_proto (group_of h (started n (look s') (live s'))) = [RESTCONF, SSH, SNMP]"
proof -
  have gen: "map sv_proto (group_of h (started n (look s') xs)) =
      (if h \<in> fst ` set xs then [RESTCONF, SSH, SNMP] else [])"
    if "distinct (map fst xs)" "set xs \<subseteq> set (live s')" for xs
    using that
  proof (induction xs)
    case Nil
    show ?case by (simp add: started_def group_of_def)
  next
    case (Cons x xs)
    obtain k a where x: "x = (k, a)" by fastforce
    obtain d where d: "look s' a = Some d" using live_site [OF assms(1)] Cons.prems(2) x by fastforce
    have st: "started n (look s') (x # xs) = started n (look s') xs @ (if k < n then [] else launch_group k d)"
      by (simp add: started_def x d)
    have IH: "map sv_proto (group_of h (started n (look s') xs)) = (if h \<in> fst ` set xs then [RESTCONF, SSH, SNMP] else [])"
      using Cons by simp
    have nil: "group_of h [] = []" by (simp add: group_of_def)
    show ?case
    proof (cases "k = h")
      case True
      then have "h \<notin> fst ` set xs" using Cons.prems(1) x by simp
      then show ?thesis using IH True assms(3) unfolding st by (simp add: x)
    next
      case False
      then show ?thesis using IH unfolding st by (simp add: x nil)
    qed
  qed
  from gen [OF live_distinct [OF assms(1)] subset_refl] assms(2) show ?thesis by force
qed

lemma kept_mem:
  assumes "sockets_ok le (live s) (look s) ls" and "l \<in> set (fold stop_group (gone (live s) (live s')) ls)"
  shows "l \<in> set ls \<and> sv_handle l \<in> fst ` set (live s')"
proof -
  have l: "l \<in> set ls" "sv_handle l \<notin> set (gone (live s) (live s'))" using assms(2) by (simp_all add: set_stop_groups)
  moreover have "sv_handle l \<in> fst ` set (live s)" using assms(1) l(1) by (force simp: sockets_ok_def)
  ultimately show ?thesis by (simp add: gone_def)
qed

lemma kept_live:
  assumes "ok s" and "req s s'" and "sockets_ok le (live s) (look s) ls"
    and "l \<in> set (fold stop_group (gone (live s) (live s')) ls)"
  shows "(sv_handle l, sv_ip l) \<in> set (live s') \<and> sv_handle l < bound s"
proof -
  have l: "(sv_handle l, sv_ip l) \<in> set (live s)" "sv_handle l \<in> fst ` set (live s')"
    using assms(3) kept_mem [OF assms(3,4)] by (auto simp: sockets_ok_def)
  then obtain ip where ip: "(sv_handle l, ip) \<in> set (live s')" by auto
  have b: "sv_handle l < bound s" using live_bound [OF assms(1) l(1)] .
  from req_old [OF assms(1,2) ip b] have "(sv_handle l, ip) \<in> set (live s)" by blast
  with l(1) live_distinct [OF assms(1)] have "ip = sv_ip l" by (meson eq_key_imp_eq_value)
  with ip b show ?thesis by simp
qed

lemma kept_excused:
  assumes "sockets_ok le (live s) (look s) ls" and "l \<in> set (fold stop_group (gone (live s) (live s')) ls)"
  shows "excused le (after s s' ls) l (sv_progress l)"
proof (rule excused_mono)
  show "excused le ls l (sv_progress l)" using kept_mem [OF assms] assms(1) by (simp add: sockets_ok_def)
  fix k assume "k \<in> set ls" "sv_handle k = sv_handle l"
  with assms(2) show "k \<in> set (after s s' ls)" by (simp add: follow_def set_stop_groups)
qed

lemma sockets_ok_request:
  assumes s: "ok s" and r: "req s s'" and ls: "sockets_ok le (live s) (look s) ls"
  shows "sockets_ok le (live s') (look s') (after s s' ls)"
proof -
  let ?old = "fold stop_group (gone (live s) (live s')) ls" and ?new = "started (bound s) (look s') (live s')"
  have s': "ok s'" by (rule req_ok [OF s r])
  note new = started_facts [OF s', of _ "bound s"] and old = kept_live [OF s r ls]
  have ports: "sv_port l = port_of (sv_proto l) d'" if l: "l \<in> set ?old" and d': "look s' (sv_ip l) = Some d'" for l d'
  proof -
    have lv: "(sv_handle l, sv_ip l) \<in> set (live s)" using kept_mem [OF ls l] ls by (simp add: sockets_ok_def)
    obtain d where d: "look s (sv_ip l) = Some d" using live_site [OF s lv] by blast
    have "port_of (sv_proto l) d' = port_of (sv_proto l) d"
      using req_old [OF s r] old [OF l] d d' by blast
    then show ?thesis using ls kept_mem [OF ls l] d by (simp add: sockets_ok_def)
  qed
  have groups: "map sv_proto (group_of h (after s s' ls)) = [RESTCONF, SSH, SNMP]" if h: "(h, ip) \<in> set (live s')" for h ip
  proof (cases "h < bound s")
    case True
    then have lv: "(h, ip) \<in> set (live s)" using req_old [OF s r h] by blast
    have "group_of h ?new = []" using new True by (intro group_of_empty) fastforce
    moreover have "group_of h ?old = group_of h ls" using h by (intro group_of_stop) (force simp: gone_def)
    ultimately show ?thesis using ls lv by (force simp: follow_def sockets_ok_def)
  next
    case False
    have "group_of h ?old = []" using old False by (intro group_of_empty) fastforce
    then show ?thesis using started_group [OF s' h] False by (simp add: follow_def)
  qed
  show ?thesis
    unfolding sockets_ok_def
  proof (intro conjI ballI allI impI)
    fix l assume l: "l \<in> set (after s s' ls)"
    then have c: "l \<in> set ?old \<or> l \<in> set ?new" by (simp add: follow_def)
    then show "(sv_handle l, sv_ip l) \<in> set (live s')" using old new by blast
    show "sv_port l = port_of (sv_proto l) d" if "look s' (sv_ip l) = Some d" for d
      using c ports new that by blast
    from c show "excused le (after s s' ls) l (sv_progress l)"
      using kept_excused [OF ls] new by fastforce
  next
    fix h assume "h \<in> fst ` set (live s')"
    with groups show "map sv_proto (group_of h (after s s' ls)) = [RESTCONF, SSH, SNMP]" by force
  qed
qed

lemma sockets_ok_start:
  assumes "ok s"
  shows "sockets_ok le (live s) (look s) (started 0 (look s) (live s))"
  using started_facts [OF assms, of _ 0] started_group [OF assms, of _ _ 0]
  unfolding sockets_ok_def by force

end

section \<open>The simulator is such a host\<close>

definition keeps_ports :: "(device \<Rightarrow> sim_error option \<times> device) \<Rightarrow> bool" where
  "keeps_ports body \<longleftrightarrow> (\<forall>d p. d_IP (snd (body d)) = d_IP d \<and> port_of p (snd (body d)) = port_of p d)"

lemma port_of_APs [simp]: "port_of p (d\<lparr>d_APs := as\<rparr>) = port_of p d"
  by (cases p) simp_all

lemma port_of_init_config [simp]: "port_of p (init_config env m d) = port_of p d"
  by (cases p) (simp_all add: init_config_def InitConfig_def)

lemma bodies_keep_ports:
  "keeps_ports (add_ap a)" "keeps_ports (remove_ap ip n)" "keeps_ports (remove_client ip mac)"
  "keeps_ports (add_client ip n c)" "keeps_ports (set_ssids ip n ss)" "keeps_ports (move_client ip mac n s)"
  by (auto simp: keeps_ports_def add_ap_def remove_ap_def remove_client_def add_client_def set_ssids_def
      move_client_def Let_def split: option.splits prod.splits)

lemma site_eq: "site m = (\<lambda>ip. find (\<lambda>d. d_IP d = ip) (m_devices m))"
  by (simp add: fun_eq_iff site_def at_eq)

lemma site_IP: "site m ip = Some d \<Longrightarrow> d_IP d = ip"
  by (auto simp: site_def at_def dest: find_Some_memD)

definition old_groups :: "'os machine \<Rightarrow> 'os machine \<Rightarrow> bool" where
  \<comment> \<open>what a request leaves of the groups there were\<close>
  "old_groups m m' \<longleftrightarrow>
     (\<forall>h ip. (h, ip) \<in> set (m_servers m') \<longrightarrow> h < m_next m \<longrightarrow> (h, ip) \<in> set (m_servers m) \<and>
        (\<forall>p d d'. site m ip = Some d \<longrightarrow> site m' ip = Some d' \<longrightarrow> port_of p d' = port_of p d))"

definition handles_once :: "'os machine \<Rightarrow> bool" where
  "handles_once m \<longleftrightarrow> distinct (map fst (m_servers m)) \<and> (\<forall>s \<in> set (m_servers m). fst s < m_next m)"

lemma old_groups_refl: "m_servers m' = m_servers m \<Longrightarrow> m_devices m' = m_devices m \<Longrightarrow> old_groups m m'"
  by (simp add: old_groups_def site_def)

lemma handles_once_start [simp]: "handles_once m \<Longrightarrow> handles_once (start_device d (m\<lparr>m_devices := ds\<rparr>))"
  by (auto simp: handles_once_def)

lemma handles_once_cong: "m_servers m' = m_servers m \<Longrightarrow> m_next m' = m_next m \<Longrightarrow> handles_once m' = handles_once m"
  by (simp add: handles_once_def)

lemma handles_once_stop: "handles_once m \<Longrightarrow> handles_once (stopHandle h m)"
  by (auto simp: handles_once_def stopHandle_def intro: distinct_map_filter)

lemma on_device_groups:
  assumes "keeps_ports body"
  shows "old_groups m (snd (on_device env ip body m)) \<and> m_servers (snd (on_device env ip body m)) = m_servers m \<and>
    m_next (snd (on_device env ip body m)) = m_next m"
proof (cases "find (at ip) (m_devices m)")
  case None
  then show ?thesis by (simp add: on_device_def old_groups_refl)
next
  case (Some d)
  let ?m' = "snd (on_device env ip body m)"
  have "\<exists>x. m_devices ?m' = update_first (at ip) (\<lambda>_. x) (m_devices m) \<and> d_IP x = ip \<and> (\<forall>p. port_of p x = port_of p d)"
  proof (cases "fst (body d)")
    case None
    then show ?thesis
      using Some assms site_IP [of m ip d] unfolding keeps_ports_def site_def
      by (intro exI [of _ "init_config env m (snd (body d))"]) (auto simp: on_device_def split: prod.splits)
  next
    case (Some e)
    then show ?thesis
      using \<open>find (at ip) (m_devices m) = Some d\<close> assms site_IP [of m ip d] unfolding keeps_ports_def site_def
      by (intro exI [of _ "snd (body d)"]) (auto simp: on_device_def split: prod.splits)
  qed
  then obtain x where x: "m_devices ?m' = update_first (at ip) (\<lambda>_. x) (m_devices m)" "d_IP x = ip" "\<forall>p. port_of p x = port_of p d"
    by blast
  have "site ?m' j = (if j = ip then Some x else site m j)" for j
    using sites.find_update_first [of ip "m_devices m" d x j] Some x(1,2) by (simp add: site_eq at_eq)
  moreover have "m_servers ?m' = m_servers m" "m_next ?m' = m_next m"
    using Some by (auto simp: on_device_def split: prod.splits option.splits)
  ultimately show ?thesis using x(3) Some by (auto simp: old_groups_def site_def)
qed

lemma AddDevice_groups:
  assumes "handles_once m" and "sim_wf m"
  shows "old_groups m (snd (AddDevice env now dev m)) \<and> handles_once (snd (AddDevice env now dev m))"
proof (cases "add_check env now dev m")
  case (Inl e)
  then show ?thesis using assms by (simp add: AddDevice_def old_groups_refl)
next
  case (Inr d)
  obtain os where os: "snd (add_alias env d m) = m\<lparr>m_os := os\<rparr>" by (simp add: add_alias_frame)
  have "old_groups m (add_publish env d (m\<lparr>m_os := os\<rparr>))"
    by (auto simp: old_groups_def add_publish_def site_def find_append)
  moreover have "handles_once (add_publish env d (m\<lparr>m_os := os\<rparr>))" "handles_once (m\<lparr>m_os := os\<rparr>)"
    using assms(1) by (auto simp: handles_once_def add_publish_def)
  moreover have "old_groups m (m\<lparr>m_os := os\<rparr>)" by (rule old_groups_refl) simp_all
  ultimately show ?thesis
    using Inr os by (auto simp: AddDevice_def split: prod.splits option.splits)
qed

lemma RemoveDevice_groups:
  assumes "handles_once m" and "sim_wf m"
  shows "old_groups m (snd (RemoveDevice env ip m)) \<and> handles_once (snd (RemoveDevice env ip m))"
proof (cases "find (at ip) (m_devices m)")
  case None
  then show ?thesis using assms by (simp add: RemoveDevice_def remove_unpublish_def old_groups_refl)
next
  case (Some d)
  let ?m' = "snd (RemoveDevice env ip m)"
  let ?u = "saveLocked env (m\<lparr>m_devices := remove_first (at ip) (m_devices m),
     m_handles := remove_first (\<lambda>kv. fst kv = ip) (m_handles m)\<rparr>)"
  let ?c = "case map_of (m_handles m) ip of None \<Rightarrow> ?u | Some h \<Rightarrow> stopHandle h ?u"
  have c: "\<exists>os. ?m' = ?c\<lparr>m_os := os\<rparr>"
    using Some by (auto simp: RemoveDevice_def remove_unpublish_def remove_cleanup_def Let_def)
  have "distinct (map d_IP (m_devices m))" using assms(2) by (simp add: sim_wf_def)
  then have "site ?m' j = (if j = ip then None else site m j)" for j
    using c sites.find_remove_first [of "m_devices m" j ip] by (auto simp: site_eq at_eq split: option.split)
  moreover have "set (m_servers ?m') \<subseteq> set (m_servers m)"
    using c by (auto simp: stopHandle_def split: option.splits if_splits)
  moreover have "handles_once ?c"
    using assms(1) handles_once_stop [of ?u] by (auto simp: handles_once_def split: option.splits)
  then have "handles_once ?m'" using c handles_once_cong [of ?m' ?c] by auto
  ultimately show ?thesis by (auto simp: old_groups_def)
qed

definition all_new :: "nat \<Rightarrow> 'os machine \<Rightarrow> bool" where
  \<comment> \<open>nothing of what was there is left\<close>
  "all_new n m \<longleftrightarrow> handles_once m \<and> n \<le> m_next m \<and> (\<forall>s \<in> set (m_servers m). n \<le> fst s)"

lemma all_new_cong:
  "m_servers m' = m_servers m \<Longrightarrow> m_next m' = m_next m \<Longrightarrow> all_new n m' = all_new n m"
  by (simp add: all_new_def handles_once_def)

lemma all_new_publish: "all_new n m \<Longrightarrow> all_new n (publish env now d m)"
  by (auto simp: all_new_def handles_once_def publish_def Let_def)

lemma all_new_old_groups: "all_new (m_next m) m' \<Longrightarrow> old_groups m m' \<and> handles_once m'"
  by (force simp: all_new_def old_groups_def)

lemma applyConfig_all_new:
  assumes "sim_wf m"
  shows "all_new (m_next m) (snd (applyConfig env now a ds m))"
proof -
  obtain e m' where r: "applyConfig env now a ds m = (e, m')" by fastforce
  have t: "all_new (m_next m) (tear_down env a m)"
    using tear_down_wf [OF assms, of env a] by (simp add: all_new_def handles_once_def)
  have s: "all_new (m_next m) m2" if "setupIPs env ds (tear_down env a m) = (x, m2)" for x m2
    using setupIPs_frame [OF that] t all_new_cong [of m2 "tear_down env a m"] by auto
  have "all_new (m_next m) m'"
    using applyConfig_cases [OF r]
  proof (elim disjE exE conjE)
    fix ds' m2 assume "setupIPs env ds (tear_down env a m) = (Inr ds', m2)" and m': "m' = fold (publish env now) ds' m2"
    with s show ?thesis unfolding m' by (intro fold_invariant_list [of _ "all_new (m_next m)"]) (auto simp: all_new_publish)
  qed (use t s in auto)
  with r show ?thesis by simp
qed

lemma save_groups [simp]:
  "m_servers (snd (save env m)) = m_servers m" "m_next (snd (save env m)) = m_next m"
  "m_servers (snd (deleteState m)) = m_servers m" "m_next (snd (deleteState m)) = m_next m"
  by (simp_all add: save_def deleteState_def Let_def split: prod.split)

lemma replace_groups:
  assumes "sim_wf m" and "handles_once m" and "replaces_all req"
  shows "old_groups m (snd (perform env now req m)) \<and> handles_once (snd (perform env now req m))"
proof -
  have a: "all_new (m_next m) (snd (save env m'))" "all_new (m_next m) (snd (deleteState m'))" "all_new (m_next m) m'"
    if "applyConfig env now au ds m = (e, m')" for au ds e m'
  proof -
    show "all_new (m_next m) m'" using applyConfig_all_new [OF assms(1), of env now au ds] that by simp
    then show "all_new (m_next m) (snd (save env m'))" "all_new (m_next m) (snd (deleteState m'))"
      using all_new_cong [of "snd (save env m')" m'] all_new_cong [of "snd (deleteState m')" m'] by simp_all
  qed
  let ?P = "\<lambda>m'. m' = m \<or> all_new (m_next m) m'"
  have import: "?P (snd (ImportConfig env now data m))" for data
    using a by (auto simp: ImportConfig_def split: sum.splits prod.splits option.splits)
  have reset: "?P (snd (FactoryReset env now m))"
    using a by (auto simp: FactoryReset_def split: sum.splits prod.splits option.splits)
  have clear: "?P (snd (ClearAll env now m))"
    using a by (auto simp: ClearAll_def split: prod.splits option.splits)
  have "?P (snd (perform env now req m))"
    using assms(3) import reset clear by (cases req) simp_all
  then show ?thesis using all_new_old_groups assms(2) by (auto intro: old_groups_refl)
qed

lemma perform_groups:
  assumes wf: "sim_wf m" and once: "handles_once m"
  shows "old_groups m (snd (perform env now req m)) \<and> handles_once (snd (perform env now req m))"
proof (cases "replaces_all req")
  case True
  then show ?thesis by (rule replace_groups [OF wf once])
next
  case False
  have od: "old_groups m (snd (on_device env ip body m)) \<and> handles_once (snd (on_device env ip body m))"
    if "keeps_ports body" for ip body
    using on_device_groups [OF that, of m env ip] once handles_once_cong by blast
  show ?thesis
    using False AddDevice_groups [OF once wf] RemoveDevice_groups [OF once wf]
    by (cases req) (simp_all add: AddAP_def RemoveAP_def AddClient_def RemoveClient_def UpdateAPSSIDs_def
        UpdateClient_def od bodies_keep_ports)
qed

lemma live_has_site:
  assumes wf: "sim_wf m" and h: "(h, ip) \<in> set (m_servers m)"
  shows "\<exists>d. site m ip = Some d"
proof -
  have "(ip, h) \<in> set (m_handles m)" using wf h by (auto simp: sim_wf_def)
  then have "ip \<in> set (map fst (m_handles m))" by force
  then have "ip \<in> d_IP ` set (m_devices m)" using wf by (metis list.set_map sim_wf_def)
  then show ?thesis by (auto simp: site_eq find_None_iff simp flip: not_None_eq)
qed

lemma boot_groups:
  assumes "m = NewSimulator cfg tmpl opts s os probe"
  shows "handles_once (StartAll m) \<and> m_servers m = [] \<and> m_next m = 0"
proof -
  have "handles_once (fold start_device ds m)" for ds
    by (rule fold_invariant_list) (use assms in \<open>auto simp: handles_once_def NewSimulator_def\<close>)
  with assms show ?thesis by (simp add: StartAll_def NewSimulator_def)
qed

interpretation sockets: group_host m_servers m_next site "\<lambda>m. sim_wf m \<and> handles_once m" "sim_step env"
proof unfold_locales
  fix m :: "'a machine" and h ip
  assume ok: "sim_wf m \<and> handles_once m" and l: "(h, ip) \<in> set (m_servers m)"
  show "h < m_next m" using ok l by (force simp: handles_once_def)
  show "\<exists>d. site m ip = Some d" using live_has_site ok l by blast
next
  fix m :: "'a machine" assume "sim_wf m \<and> handles_once m"
  then show "distinct (map fst (m_servers m))" by (simp add: handles_once_def)
next
  fix m :: "'a machine" and ip d assume "site m ip = Some d" then show "d_IP d = ip" by (rule site_IP)
next
  fix m m' :: "'a machine" assume ok: "sim_wf m \<and> handles_once m" and st: "sim_step env m m'"
  then obtain now req r where p: "perform env now req m = (r, m')"
      and dist: "replaces_all req \<longrightarrow> distinct (map d_IP (m_devices m'))" by (blast elim: sim_stepE)
  have g: "old_groups m m' \<and> handles_once m'" using perform_groups [of m env now req] ok p by simp
  then show "sim_wf m' \<and> handles_once m'" using sim_wf_perform [of m req env now] ok p dist by simp
  fix h ip assume "(h, ip) \<in> set (m_servers m')" "h < m_next m"
  with g show "(h, ip) \<in> set (m_servers m) \<and>
      (\<forall>p d d'. site m ip = Some d \<longrightarrow> site m' ip = Some d' \<longrightarrow> port_of p d' = port_of p d)"
    unfolding old_groups_def by blast
qed

section \<open>Every site gets its three servers\<close>

lemma distinct_addresses: "no_address_twice le m \<Longrightarrow> distinct (map d_IP (m_devices m))"
  using distinct_map [of "le_addr le" "map d_IP (m_devices m)"] by (simp add: no_address_twice_def o_def)

lemma one_group_if_no_address_twice:
  assumes wf: "sim_wf m" and no: "no_address_twice le m"
  shows "one_group_per_address le (m_servers m)"
proof -
  have inj: "inj_on (le_addr le) (d_IP ` set (m_devices m))"
    using no distinct_map [of "le_addr le" "map d_IP (m_devices m)"] by (simp add: no_address_twice_def o_def)
  have ip: "snd x \<in> d_IP ` set (m_devices m)" if x: "x \<in> set (m_servers m)" for x
  proof -
    obtain d where "site m (snd x) = Some d" using live_has_site [OF wf, of "fst x" "snd x"] x by auto
    then have "d \<in> set (m_devices m)" "d_IP d = snd x" by (auto simp: site_def at_def dest!: find_Some_memD)
    then show ?thesis by (metis image_eqI)
  qed
  have h: "x = y" if xy: "x \<in> set (m_servers m)" "y \<in> set (m_servers m)" "snd x = snd y" for x y
  proof -
    obtain d where "d \<in> set (m_devices m)" "d_IP d = snd x" using ip [OF xy(1)] by auto
    then have "\<exists>!h. (h, snd x) \<in> set (m_servers m)" using sim_wf_one_server [OF wf] by metis
    with xy show ?thesis by (metis prod.collapse)
  qed
  show ?thesis
    unfolding one_group_per_address_def using inj ip h by (metis inj_onD)
qed

lemma host_reachable_inv:
  assumes "host_reachable env le s"
  shows "sim_wf (fst s) \<and> handles_once (fst s) \<and> no_address_twice le (fst s) \<and>
    sockets_ok le (m_servers (fst s)) (site (fst s)) (snd s)"
  using assms
proof (induction rule: host_reachable.induct)
  case (boot cfg m tmpl opts s os probe)
  have m: "m_devices m = cfg_Devices cfg" by (simp add: boot(2) NewSimulator_def)
  have no: "no_address_twice le (StartAll m)"
    using boot(3) by (simp add: no_address_twice_def StartAll_def fold_frame)
  have wf: "sim_wf (StartAll m)"
    unfolding boot(2) by (rule sim_wf_boot) (use distinct_addresses [OF boot(3)] m boot(1) in simp_all)
  have g: "handles_once (StartAll m)" "m_servers m = []" "m_next m = 0"
    using boot_groups [OF boot(2)] by auto
  have "follow_request m (StartAll m) [] = started 0 (site (StartAll m)) (m_servers (StartAll m))"
    by (simp add: follow_request_def follow_def gone_def g)
  then show ?case using no wf g sockets.sockets_ok_start [of "StartAll m" le] by simp
next
  case (step s s')
  obtain m ls where s: "s = (m, ls)" by fastforce
  have IH: "sim_wf m" "handles_once m" "no_address_twice le m" "sockets_ok le (m_servers m) (site m) ls"
    using step.IH by (simp_all add: s)
  from step.hyps(2) show ?case
  proof (rule host_stepE)
    fix now req k r m' ls'
    assume st: "s = (k, ls')" "s' = (m', follow_request k m' ls')" "perform env now req k = (r, m')"
      and no: "no_address_twice le m'"
    have sim: "sim_step env m m'"
      by (rule sim_step.request [of env now req m r]) (use st s no in \<open>simp_all add: distinct_addresses\<close>)
    have "sockets_ok le (m_servers m') (site m') (follow_request m m' ls)"
      unfolding follow_request_def
      by (rule sockets.sockets_ok_request [of m env m']) (use IH sim in simp_all)
    then show ?thesis
      using sockets.req_ok [of m env m'] IH(1,2) sim no st s by simp
  next
    fix k ls' i assume "s = (k, ls')" "s' = (k, get_going le i ls')"
    then show ?thesis
      using IH s sockets_ok_get_going [OF IH(4) one_group_if_no_address_twice [OF IH(1,3)]] by simp
  qed
qed

lemma host_reachable_settle: "host_reachable env le (m, ls) \<Longrightarrow> host_reachable env le (m, settle le ls)"
proof -
  assume r: "host_reachable env le (m, ls)"
  have "host_reachable env le (m, fold (get_going le) is ls)" for "is"
    by (rule fold_invariant_list [of _ "\<lambda>ls. host_reachable env le (m, ls)"])
      (use r host_step.server host_reachable.step in blast)+
  then show ?thesis by (simp add: settle_def)
qed

definition keys_work :: "listen_env \<Rightarrow> bool" where
  "keys_work le \<longleftrightarrow> le_hostkey le \<and> (\<forall>ip host. le_cert le ip host)"

definition granted :: "listen_env \<Rightarrow> device \<Rightarrow> protocol \<Rightarrow> bool" where
  "granted le d p \<longleftrightarrow> le_grant le (transport_of p) (le_addr le (d_IP d)) (port_of p d)"

lemma keys_work_from_library:
  "ks_GenerateKey ks \<Longrightarrow> ks_CreateCertificate ks = (\<lambda>_. True) \<Longrightarrow> ks_MarshalKey ks \<Longrightarrow> ks_KeyPair ks \<Longrightarrow>
     keys_work (listen_env_of v6 ks now addr grant)"
  by (simp add: keys_work_def listen_env_of_def generateSelfSignedCert_def generateHostKey_def Let_def)

lemma group_filter:
  assumes "map sv_proto (group_of h ls) = [RESTCONF, SSH, SNMP]"
  shows "\<exists>l. filter (\<lambda>l. sv_handle l = h \<and> sv_proto l = p) ls = [l]"
proof -
  have "filter (\<lambda>l. sv_handle l = h \<and> sv_proto l = p) ls = filter (\<lambda>l. sv_proto l = p) (group_of h ls)"
    by (simp add: group_of_def conj_commute)
  moreover obtain a b c where "group_of h ls = [a, b, c]" "sv_proto a = RESTCONF" "sv_proto b = SSH" "sv_proto c = SNMP"
    using assms by (auto simp: Cons_eq_map_conv map_eq_Cons_conv)
  ultimately show ?thesis by (cases p) auto
qed

lemma site_server:
  assumes r: "host_reachable env le (m, ls)" and keys: "keys_work le" and d: "d \<in> set (m_devices m)"
  shows "\<exists>l. filter (\<lambda>l. sv_ip l = d_IP d \<and> sv_proto l = p) ls = [l] \<and> sv_port l = port_of p d \<and>
    (d_HTTPSPort d \<noteq> d_SSHPort d \<longrightarrow> granted le d p \<longrightarrow> sv_progress l \<in> {Launched, Listening})"
proof -
  have wf: "sim_wf m" and once: "handles_once m" and ok: "sockets_ok le (m_servers m) (site m) ls"
    using host_reachable_inv [OF r] by auto
  obtain h where h: "(h, d_IP d) \<in> set (m_servers m)" and one: "\<And>k. (k, d_IP d) \<in> set (m_servers m) \<Longrightarrow> k = h"
    using sim_wf_one_server [OF wf d] by blast
  have st: "site m (d_IP d) = Some d"
    using wf d by (metis (no_types, lifting) at_def distinct_map find_None_iff find_Some_memD inj_onD not_None_eq sim_wf_def site_def)
  have g: "map sv_proto (group_of h ls) = [RESTCONF, SSH, SNMP]" using ok h by (force simp: sockets_ok_def)
  have live: "(sv_handle l, sv_ip l) \<in> set (m_servers m)" if "l \<in> set ls" for l
    using ok that by (simp add: sockets_ok_def)
  have same: "sv_ip l = d_IP d \<longleftrightarrow> sv_handle l = h" if "l \<in> set ls" for l
    using live [OF that] h one once unfolding handles_once_def by (metis eq_key_imp_eq_value)
  obtain l where "filter (\<lambda>l. sv_handle l = h \<and> sv_proto l = p) ls = [l]" using group_filter [OF g] by blast
  moreover have "filter (\<lambda>l. sv_ip l = d_IP d \<and> sv_proto l = p) ls = filter (\<lambda>l. sv_handle l = h \<and> sv_proto l = p) ls"
    using same by (intro filter_cong) auto
  ultimately have f: "filter (\<lambda>l. sv_ip l = d_IP d \<and> sv_proto l = p) ls = [l]" by simp
  have "l \<in> set (filter (\<lambda>l. sv_ip l = d_IP d \<and> sv_proto l = p) ls)" unfolding f by simp
  then have l: "l \<in> set ls" "sv_ip l = d_IP d" "sv_proto l = p" by simp_all
  have port: "sv_port k = port_of (sv_proto k) d" if "k \<in> set ls" "sv_ip k = d_IP d" for k
    using ok that st by (simp add: sockets_ok_def)
  have ex: "excused le ls l (sv_progress l)" using ok l(1) by (simp add: sockets_ok_def)
  have "sv_progress l \<in> {Launched, Listening}" if ne: "d_HTTPSPort d \<noteq> d_SSHPort d" and gr: "granted le d p"
  proof (cases "sv_progress l")
    case (Returned e)
    have "False" if k: "k \<in> set ls" "sv_handle k = sv_handle l" "sv_proto k \<noteq> sv_proto l" "socket le k = socket le l" for k
    proof -
      have "sv_ip k = d_IP d" using same k(1,2) same l(1,2) by metis
      then have "port_of (sv_proto k) d = port_of (sv_proto l) d" "transport_of (sv_proto k) = transport_of (sv_proto l)"
        using k(4) port [OF k(1)] port [OF l(1,2)] by (simp_all add: socket_def)
      with k(3) ne show False by (cases "sv_proto k"; cases "sv_proto l") simp_all
    qed
    then have "False" using ex Returned keys gr l port [OF l(1,2)] by (cases e) (auto simp: keys_work_def granted_def)
    then show ?thesis ..
  qed simp_all
  with f l port show ?thesis by auto
qed


definition sample_listen :: listen_env where
  "sample_listen = \<lparr>le_cert = \<lambda>_ _. True, le_hostkey = True, le_addr = (\<lambda>a. a), le_grant = \<lambda>_ _ p. 0 < p \<and> p < 65536\<rparr>"

definition running_sockets :: "server list" where
  "running_sockets = follow_request (NewSimulator one_site ''t'' plain_options empty_fs [(''10.0.0.1/32'', ''lo'')] True) running []"

lemma running_host_reachable: "host_reachable env sample_listen (running, running_sockets)"
  unfolding running_def running_sockets_def
  by (rule host_reachable.boot [of one_site _ "''t''" plain_options empty_fs "[(''10.0.0.1/32'', ''lo'')]" True])
    (simp_all add: one_site_def site_ok_def has_default_ap_device_defaults no_address_twice_def NewSimulator_def)

lemma sample_keys_work: "keys_work sample_listen"
  by (simp add: keys_work_def sample_listen_def)




section \<open>A site replaced while it is being removed\<close>

lemma settle_in_use:
  assumes "i < length ls" and "sv_progress (ls ! i) = Listening" and "j < length ls" and "sv_progress (ls ! j) = Launched"
    and "socket le (ls ! i) = socket le (ls ! j)"
  shows "\<exists>e. sv_progress (settle le ls ! j) = Returned e"
proof -
  define I where "I = (\<lambda>xs. length xs = length ls \<and> sv_progress (xs ! i) = Listening \<and> socket le (xs ! i) = socket le (ls ! i) \<and>
    socket le (xs ! j) = socket le (ls ! j) \<and> (sv_progress (xs ! j) = Launched \<or> (\<exists>e. sv_progress (xs ! j) = Returned e)))"
  have st: "I (get_going le k xs)" if I: "I xs" for k xs
  proof (cases "k = j \<and> sv_progress (xs ! j) = Launched")
    case True
    have "in_use le xs (xs ! j)"
      using I assms(1,5) unfolding I_def in_use_def list_ex_iff by (metis nth_mem)
    then have "\<exists>e. Serve le xs (xs ! j) = Returned e" by (cases "sv_proto (xs ! j)") (simp_all add: Serve_def Listen_def)
    then show ?thesis using I True assms(2,3,4) by (auto simp: I_def get_going_def nth_list_update)
  next
    case False
    then show ?thesis using I by (auto simp: I_def get_going_def nth_list_update)
  qed
  have "I (settle le ls)"
    unfolding settle_def by (rule fold_invariant_list) (use st assms in \<open>auto simp: I_def\<close>)
  moreover have "sv_progress (settle le ls ! j) \<noteq> Launched"
    using calculation assms(3) by (intro settle_none_launched [of _ le ls]) (simp add: I_def)
  ultimately show ?thesis by (auto simp: I_def)
qed

lemma get_going_ids: "map sv_handle (get_going le i ls) = map sv_handle ls" "map sv_ip (get_going le i ls) = map sv_ip ls"
  by (auto simp: get_going_def map_update intro: list_update_same_conv [THEN iffD2])

lemma settle_ids: "map sv_handle (settle le ls) = map sv_handle ls" "map sv_ip (settle le ls) = map sv_ip ls"
  unfolding settle_def by (rule fold_frame, rule get_going_ids)+

lemma settle_count:
  "length (filter (\<lambda>l. Q (sv_handle l) (sv_ip l)) (settle le ls)) = length (filter (\<lambda>l. Q (sv_handle l) (sv_ip l)) ls)"
proof -
  have "map (\<lambda>l. (sv_handle l, sv_ip l)) (settle le ls) = map (\<lambda>l. (sv_handle l, sv_ip l)) ls"
    unfolding settle_def
    by (rule fold_frame) (auto simp: get_going_def map_update intro: list_update_same_conv [THEN iffD2])
  from arg_cong [OF this, of "\<lambda>xs. length (filter (\<lambda>(h, a). Q h a) xs)"] show ?thesis
    by (simp add: filter_map o_def)
qed

lemma fold_stop_groups: "fold stop_group hs ls = filter (\<lambda>l. sv_handle l \<notin> set hs) ls"
  by (induction hs arbitrary: ls) (auto simp: stop_group_def intro: filter_cong)

lemma stopHandle_servers: "m_servers (stopHandle h m) = filter (\<lambda>s. fst s \<noteq> h) (m_servers m)"
  by (auto simp: stopHandle_def image_iff intro!: filter_True [symmetric])

lemma add_check_ports:
  assumes "add_check env now dev m = Inr d"
  shows "port_of p d = port_of p (port_defaults dev)"
  using assms by (cases p) (auto simp: add_check_def Let_def init_config_def InitConfig_def EnsureDefaultAP_fields split: if_splits)

lemma AddDevice_publishes:
  assumes "AddDevice env now dev m = (None, m')" and "handles_once m"
  shows "\<exists>d. d_IP d = d_IP dev \<and> (\<forall>p. port_of p d = port_of p (port_defaults dev)) \<and>
    site m' (d_IP dev) = Some d \<and> m_servers m' = (m_next m, d_IP dev) # m_servers m \<and> m_next m' = Suc (m_next m) \<and>
    follow_request m m' ls = ls @ launch_group (m_next m) d"
proof -
  obtain d where c: "add_check env now dev m = Inr d" using assms(1) by (auto simp: AddDevice_def split: sum.splits)
  obtain os where os: "m' = add_publish env d (m\<lparr>m_os := os\<rparr>)"
    using assms(1) c add_alias_frame [of env d m] by (auto simp: AddDevice_def split: prod.splits option.splits)
  have ip: "d_IP d = d_IP dev" "d_IP dev \<notin> d_IP ` set (m_devices m)" using add_check_Inr [OF c] by auto
  then have "find (at (d_IP dev)) (m_devices m) = None" unfolding find_None_iff at_def by (metis image_eqI)
  then have st: "site m' (d_IP dev) = Some d" using ip by (simp add: site_def os add_publish_def find_append at_def)
  have srv: "m_servers m' = (m_next m, d_IP dev) # m_servers m" "m_next m' = Suc (m_next m)"
    using ip by (simp_all add: os add_publish_def)
  have "gone (m_servers m) (m_servers m') = []" by (auto simp: gone_def filter_empty_conv srv)
  moreover have "started (m_next m) (site m') (m_servers m') = launch_group (m_next m) d"
    using assms(2) st by (auto simp: started_def srv handles_once_def)
  ultimately have "follow_request m m' ls = ls @ launch_group (m_next m) d" by (simp add: follow_request_def follow_def)
  with ip st srv add_check_ports [OF c] show ?thesis by blast
qed

text \<open>
  C27. \<^verbatim>\<open>RemoveDevice\<close> forgets the site under the lock and stops its servers and removes the
  alias afterwards without it. When a site with the same address and ports is added in between, and its servers get
  going before the old ones have closed, all three fail to listen; the clean-up then stops the old group
  and removes the alias of the address. \<^verbatim>\<open>AddDevice\<close> has reported success, the
  site is listed and saved, and nothing answers at its address.
\<close>

theorem site_added_during_removal_is_dead:
  assumes "host_reachable env le (m, ls)" and "\<forall>l \<in> set ls. sv_ip l = ip \<longrightarrow> sv_progress l = Listening"
    and "remove_unpublish env ip m = (Inr dh, m1)" and "AddDevice env now dev m1 = (None, m2)" and "d_IP dev = ip"
    and "\<forall>p. port_of p (port_defaults dev) = port_of p (fst dh)"
    and "ls2 = settle le (follow_request m1 m2 ls)" and "m3 = remove_cleanup env dh m2"
    and "ls3 = follow_request m2 m3 ls2"
  shows "ip \<in> d_IP ` set (m_devices m3) \<and> m_os m3 = snd (RemoveIP (e_net env) ip (m_os m2)) \<and>
    length (filter (\<lambda>l. sv_ip l = ip) ls3) = 3 \<and>
    (\<forall>l \<in> set ls3. sv_ip l = ip \<longrightarrow> (\<exists>e. sv_progress l = Returned e))"
proof -
  have wf: "sim_wf m" and once: "handles_once m" and ok: "sockets_ok le (m_servers m) (site m) ls"
    using host_reachable_inv [OF assms(1)] by auto
  obtain d0 where d0: "site m ip = Some d0" and dh: "dh = (d0, map_of (m_handles m) ip)"
    and m1: "m_servers m1 = m_servers m" "m_next m1 = m_next m" "m_handles m1 = remove_first (\<lambda>kv. fst kv = ip) (m_handles m)"
    using assms(3) by (auto simp: remove_unpublish_def site_def split: option.splits)
  have d0m: "d0 \<in> set (m_devices m)" "d_IP d0 = ip" using d0 by (auto simp: site_def at_def dest!: find_Some_memD)
  obtain h where h: "(h, ip) \<in> set (m_servers m)" and one: "\<And>k. (k, ip) \<in> set (m_servers m) \<Longrightarrow> k = h"
    using sim_wf_one_server [OF wf d0m(1)] d0m(2) by blast
  have mh: "map_of (m_handles m) ip = Some h"
    using wf h by (intro map_of_is_SomeI) (auto simp: sim_wf_def)
  have hb: "h < m_next m" using once h by (force simp: handles_once_def)
  have once1: "handles_once m1" using once m1 by (simp add: handles_once_def)
  let ?n = "m_next m"
  obtain d where d: "\<forall>p. port_of p d = port_of p (port_defaults dev)" "d_IP d = ip" "site m2 ip = Some d"
    and m2: "m_servers m2 = (?n, ip) # m_servers m" "m_next m2 = Suc ?n" "follow_request m1 m2 ls = ls @ launch_group ?n d"
    using AddDevice_publishes [OF assms(4) once1, of ls] assms(5) m1 by auto
  let ?L = "ls @ launch_group ?n d"
  have ls2: "ls2 = settle le ?L" by (simp add: assms(7) m2(3))
  have m3: "m_servers m3 = filter (\<lambda>s. fst s \<noteq> h) (m_servers m2)" "m_devices m3 = m_devices m2"
      "m_os m3 = snd (RemoveIP (e_net env) ip (m_os m2))"
    by (simp_all add: assms(8) remove_cleanup_def Let_def dh mh stopHandle_servers d0m(2))
  have dev: "ip \<in> d_IP ` set (m_devices m3)"
    using d(2,3) m3(2) by (auto simp: site_def dest!: find_Some_memD)
  have "fst s < ?n" if "s \<in> set (m_servers m)" for s using once that by (simp add: handles_once_def)
  then have below: "fst s < Suc ?n" if "s \<in> set (m_servers m3)" for s
    using that by (cases s) (auto simp: m2(1) m3(1) less_Suc_eq split: if_splits)
  have "set (gone (m_servers m2) (m_servers m3)) = {h}" using h hb by (force simp: gone_def m2(1) m3(1))
  moreover have "started (Suc ?n) (site m3) (m_servers m3) = []" using below by (force simp: started_def)
  ultimately have ls3: "ls3 = filter (\<lambda>l. sv_handle l \<noteq> h) ls2"
    by (simp add: assms(9) follow_request_def follow_def m2(2) fold_stop_groups)
  have old: "sv_handle l = h" if "l \<in> set ls" "sv_ip l = ip" for l
    using ok that one by (auto simp: sockets_ok_def)
  have "filter (\<lambda>l. sv_handle l \<noteq> h \<and> sv_ip l = ip) ls = []" using old by (auto simp: filter_empty_conv)
  then have "length (filter (\<lambda>l. sv_handle l \<noteq> h \<and> sv_ip l = ip) ?L) = 3"
    using hb d(2) by (simp add: launch_group_def)
  then have len: "length (filter (\<lambda>l. sv_ip l = ip) ls3) = 3"
    using settle_count [of "\<lambda>k a. k \<noteq> h \<and> a = ip" le ?L] by (simp add: ls3 ls2 conj_commute)
  have "\<exists>e. sv_progress l = Returned e" if l: "l \<in> set ls3" "sv_ip l = ip" for l
  proof -
    obtain j where j: "j < length ?L" "l = settle le ?L ! j" "sv_handle l \<noteq> h"
      using l(1) settle_ids(1) [of le ?L, THEN arg_cong [of _ _ length]] by (auto simp: ls3 ls2 in_set_conv_nth)
    have id: "sv_handle (?L ! j) = sv_handle l" "sv_ip (?L ! j) = ip"
      using settle_ids [of le ?L, THEN arg_cong [of _ _ "\<lambda>xs. xs ! j"]] j l(2)
        settle_ids(1) [of le ?L, THEN arg_cong [of _ _ length]] by (simp_all flip: map_append)
    have "?L ! j \<notin> set ls" using old id j(3) by metis
    then have new: "?L ! j \<in> set (launch_group ?n d)" using j(1) nth_mem [OF j(1)] by simp
    let ?p = "sv_proto (?L ! j)"
    have g: "map sv_proto (group_of h ls) = [RESTCONF, SSH, SNMP]" using ok h by (force simp: sockets_ok_def)
    obtain k where "filter (\<lambda>l. sv_handle l = h \<and> sv_proto l = ?p) ls = [k]" using group_filter [OF g] by metis
    then have "k \<in> set (filter (\<lambda>l. sv_handle l = h \<and> sv_proto l = ?p) ls)" by (metis list.set_intros(1))
    then have k: "k \<in> set ls" "sv_handle k = h" "sv_proto k = ?p" by simp_all
    have "(h, sv_ip k) \<in> set (m_servers m)" using ok k by (auto simp: sockets_ok_def)
    then have ip: "sv_ip k = ip" using h once by (auto simp: handles_once_def dest: eq_key_imp_eq_value)
    then have "sv_port k = port_of ?p d0" using ok k d0 by (auto simp: sockets_ok_def)
    then have "socket le k = socket le (?L ! j)"
      using k(3) ip launch_group_mem [OF new] d(1,2) assms(6) dh by (simp add: socket_def)
    moreover obtain i where "i < length ls" "k = ls ! i" using k(1) by (auto simp: in_set_conv_nth)
    ultimately show ?thesis
      using settle_in_use [of i ?L j le] j(1,2) assms(2) k(1) ip launch_group_mem [OF new] by (simp add: nth_append)
  qed
  with dev m3(3) len show ?thesis by blast
qed

definition removing :: "(string \<times> string) list machine" where
  "removing = snd (remove_unpublish darwin_sim ''10.0.0.1'' running)"

definition added_meanwhile :: "(string \<times> string) list machine" where
  "added_meanwhile = snd (AddDevice darwin_sim 0 (dev_at ''B'' ''10.0.0.1'') removing)"

definition cleaned_up :: "(string \<times> string) list machine" where
  "cleaned_up = remove_cleanup darwin_sim (projr (fst (remove_unpublish darwin_sim ''10.0.0.1'' running))) added_meanwhile"

definition sockets_left :: "server list" where
  "sockets_left = follow_request added_meanwhile cleaned_up (settle sample_listen
     (follow_request removing added_meanwhile (settle sample_listen running_sockets)))"

lemma added_meanwhile_ok: "fst (AddDevice darwin_sim 0 (dev_at ''B'' ''10.0.0.1'') removing) = None"
proof -
  have "m_devices removing = []" "m_os removing = [(''10.0.0.1/32'', ''lo'')]" by code_simp+
  then show ?thesis
    by (simp add: AddDevice_def darwin_sim_def dev_at_def empty_device_def port_defaults_def add_check_def
        add_alias_def AddIP_def linux_sim_def linux_host_def EnsureDefaultAP_fields run_def host_run_def Let_def)
qed

theorem site_added_during_removal_is_dead_witness:
  "''10.0.0.1'' \<in> d_IP ` set (m_devices cleaned_up) \<and> length (filter (\<lambda>l. sv_ip l = ''10.0.0.1'') sockets_left) = 3 \<and>
     list_all (\<lambda>l. \<exists>e. sv_progress l = Returned e) (filter (\<lambda>l. sv_ip l = ''10.0.0.1'') sockets_left)"
proof -
  let ?ip = "''10.0.0.1''" and ?dev = "dev_at ''B'' ''10.0.0.1''" and ?ls = "settle sample_listen running_sockets"
  let ?r = "remove_unpublish darwin_sim ?ip running"
  have up: "\<forall>l \<in> set ?ls. sv_ip l = ?ip \<longrightarrow> sv_progress l = Listening" by code_simp
  have "\<not> isl (fst ?r)" by code_simp
  then have dh: "?r = (Inr (projr (fst ?r)), removing)" unfolding removing_def by (metis prod.collapse sum.collapse(2))
  have a: "AddDevice darwin_sim 0 ?dev removing = (None, added_meanwhile)"
    using added_meanwhile_ok unfolding added_meanwhile_def by (metis prod.collapse)
  have "port_of RESTCONF (port_defaults ?dev) = port_of RESTCONF (fst (projr (fst ?r)))"
    "port_of SSH (port_defaults ?dev) = port_of SSH (fst (projr (fst ?r)))"
    "port_of SNMP (port_defaults ?dev) = port_of SNMP (fst (projr (fst ?r)))" by code_simp+
  then have ports: "port_of p (port_defaults ?dev) = port_of p (fst (projr (fst ?r)))" for p by (cases p) blast+
  have r: "host_reachable darwin_sim sample_listen (running, ?ls)"
    by (rule host_reachable_settle) (rule running_host_reachable)
  from site_added_during_removal_is_dead [OF r up dh a _ allI [OF ports] refl refl refl]
  show ?thesis by (simp add: dev_at_def cleaned_up_def sockets_left_def list_all_iff)
qed

end
