(* ===== verification/Slices.thy ===== *)
theory Slices
  imports Simulator
begin

text \<open>
  \<open>Simulator\<close> keeps access points and clients as lists. In the code they are slices:
  headers over backing arrays, and \<^verbatim>\<open>append(xs[:j], xs[j+1:]...)\<close> moves the elements of the array
  in place. This theory has the site operations of \<^verbatim>\<open>internal/simulator/simulator.go\<close> on
  such arrays, shows that for the site itself they are the list operations, and what
  the shallow copies that \<^verbatim>\<open>Devices\<close> and \<^verbatim>\<open>Snapshot\<close> hand out
  show after a change.
\<close>

section \<open>Slices and their memory\<close>

record slice =
  sl_arr :: nat       \<comment> \<open>the backing array\<close>
  sl_off :: nat
  sl_len :: nat
  sl_cap :: nat

record 'a mem =
  me_cells :: "nat \<Rightarrow> 'a list"
  me_next :: nat

definition elems :: "'a mem \<Rightarrow> slice \<Rightarrow> 'a list" where
  "elems M s = take (sl_len s) (drop (sl_off s) (me_cells M (sl_arr s)))"

definition slice_from_to :: "slice \<Rightarrow> nat \<Rightarrow> nat \<Rightarrow> slice" where
  \<comment> \<open>\<^verbatim>\<open>s[i:j]\<close>\<close>
  "slice_from_to s i j = s\<lparr>sl_off := sl_off s + i, sl_len := j - i, sl_cap := sl_cap s - i\<rparr>"

definition overwrite :: "nat \<Rightarrow> 'a list \<Rightarrow> 'a list \<Rightarrow> 'a list" where
  "overwrite i xs ys = take i ys @ xs @ drop (i + length xs) ys"

definition go_append :: "(nat \<Rightarrow> nat \<Rightarrow> nat) \<Rightarrow> 'a \<Rightarrow> 'a list \<Rightarrow> 'a mem \<Rightarrow> slice \<Rightarrow> slice \<times> 'a mem" where
  \<comment> \<open>in place while the capacity lasts, otherwise into a new array of the size the runtime
     chooses (its growth rule is an argument), filled with the zero value\<close>
  "go_append grow z xs M s =
     (let n = sl_len s + length xs
      in if n \<le> sl_cap s
         then (s\<lparr>sl_len := n\<rparr>,
               M\<lparr>me_cells := (me_cells M)(sl_arr s := overwrite (sl_off s + sl_len s) xs (me_cells M (sl_arr s)))\<rparr>)
         else (let c = max n (grow (sl_cap s) n)
               in (\<lparr>sl_arr = me_next M, sl_off = 0, sl_len = n, sl_cap = c\<rparr>,
                   M\<lparr>me_cells := (me_cells M)(me_next M := elems M s @ xs @ replicate (c - n) z),
                     me_next := Suc (me_next M)\<rparr>)))"

definition remove_at :: "(nat \<Rightarrow> nat \<Rightarrow> nat) \<Rightarrow> 'a \<Rightarrow> nat \<Rightarrow> 'a mem \<Rightarrow> slice \<Rightarrow> slice \<times> 'a mem" where
  \<comment> \<open>\<^verbatim>\<open>append(s[:j], s[j+1:]...)\<close>\<close>
  "remove_at grow z j M s = go_append grow z (elems M (slice_from_to s (Suc j) (sl_len s))) M (slice_from_to s 0 j)"

definition set_at :: "nat \<Rightarrow> 'a \<Rightarrow> 'a mem \<Rightarrow> slice \<Rightarrow> 'a mem" where
  \<comment> \<open>\<^verbatim>\<open>s[j] = x\<close>\<close>
  "set_at j x M s = M\<lparr>me_cells := (me_cells M)(sl_arr s := (me_cells M (sl_arr s))[sl_off s + j := x])\<rparr>"

definition fresh_slice :: "'a list \<Rightarrow> 'a mem \<Rightarrow> slice \<times> 'a mem" where
  \<comment> \<open>what a decoder returns: an array of its own\<close>
  "fresh_slice xs M = (\<lparr>sl_arr = me_next M, sl_off = 0, sl_len = length xs, sl_cap = length xs\<rparr>,
     M\<lparr>me_cells := (me_cells M)(me_next M := xs), me_next := Suc (me_next M)\<rparr>)"

fun index_where :: "('a \<Rightarrow> bool) \<Rightarrow> 'a list \<Rightarrow> nat option" where
  \<comment> \<open>\<^verbatim>\<open>for j := range xs { if P(xs[j]) { ... return } }\<close>\<close>
  "index_where P [] = None"
| "index_where P (x # xs) = (if P x then Some 0 else map_option Suc (index_where P xs))"

section \<open>The laws of slices\<close>

definition slice_ok :: "'a mem \<Rightarrow> slice \<Rightarrow> bool" where
  "slice_ok M s \<longleftrightarrow> sl_len s \<le> sl_cap s \<and>
     (sl_cap s = 0 \<or> sl_arr s < me_next M \<and> sl_off s + sl_cap s \<le> length (me_cells M (sl_arr s)))"

definition apart :: "slice \<Rightarrow> slice \<Rightarrow> bool" where
  "apart s t \<longleftrightarrow> sl_arr s \<noteq> sl_arr t \<or> sl_cap s = 0 \<or> sl_cap t = 0"

lemma apart_sym: "apart s t = apart t s"
  by (auto simp: apart_def)

lemma length_elems: "slice_ok M s \<Longrightarrow> length (elems M s) = sl_len s"
  by (auto simp: slice_ok_def elems_def)

lemma length_overwrite: "i + length xs \<le> length ys \<Longrightarrow> length (overwrite i xs ys) = length ys"
  by (simp add: overwrite_def)

lemma take_drop_overwrite:
  assumes "i + length xs \<le> length ys" and "b \<le> i"
  shows "take (i + length xs - b) (drop b (overwrite i xs ys)) = take (i - b) (drop b ys) @ xs"
proof -
  have "drop b (take i ys) = take (i - b) (drop b ys)" by (simp add: drop_take)
  then have "drop b (overwrite i xs ys) = (take (i - b) (drop b ys) @ xs) @ drop (i + length xs) ys"
    using assms by (simp add: overwrite_def)
  moreover have "length (take (i - b) (drop b ys) @ xs) = i + length xs - b" using assms by simp
  ultimately show ?thesis by (metis append_eq_conv_conj)
qed

lemma overwrite_Nil [simp]: "overwrite i [] ys = ys"
  by (simp add: overwrite_def)

lemma append_in_place:
  assumes "sl_len s + length xs \<le> sl_cap s"
  shows "go_append grow z xs M s = (s\<lparr>sl_len := sl_len s + length xs\<rparr>,
    M\<lparr>me_cells := (me_cells M)(sl_arr s := overwrite (sl_off s + sl_len s) xs (me_cells M (sl_arr s)))\<rparr>)"
  using assms by (simp add: go_append_def Let_def)

lemma append_moves:
  assumes "\<not> sl_len s + length xs \<le> sl_cap s"
  shows "\<exists>c \<ge> sl_len s + length xs. go_append grow z xs M s =
    (\<lparr>sl_arr = me_next M, sl_off = 0, sl_len = sl_len s + length xs, sl_cap = c\<rparr>,
     M\<lparr>me_cells := (me_cells M)(me_next M := elems M s @ xs @ replicate (c - (sl_len s + length xs)) z),
       me_next := Suc (me_next M)\<rparr>)"
  using assms by (auto simp: go_append_def Let_def intro!: exI [of _ "max (sl_len s + length xs) (grow (sl_cap s) (sl_len s + length xs))"])

lemma elems_append:
  assumes "slice_ok M s" and "go_append grow z xs M s = (s', M')"
  shows "elems M' s' = elems M s @ xs \<and> slice_ok M' s' \<and> me_next M \<le> me_next M' \<and>
    (sl_arr s' = sl_arr s \<and> sl_cap s' = sl_cap s \<or> sl_arr s' = me_next M)"
proof (cases "sl_len s + length xs \<le> sl_cap s")
  case True
  note r = assms(2) [unfolded append_in_place [OF True], simplified, THEN conjunct1, symmetric]
    assms(2) [unfolded append_in_place [OF True], simplified, THEN conjunct2, symmetric]
  show ?thesis
  proof (cases "sl_cap s = 0")
    case True
    with assms(1) \<open>sl_len s + length xs \<le> sl_cap s\<close> show ?thesis by (simp add: r elems_def slice_ok_def)
  next
    case False
    then have b: "sl_off s + sl_len s + length xs \<le> length (me_cells M (sl_arr s))"
      using assms(1) True by (simp add: slice_ok_def)
    from take_drop_overwrite [OF b, of "sl_off s"] length_overwrite [OF b] assms(1) True False show ?thesis
      by (simp add: r elems_def slice_ok_def)
  qed
next
  case False
  then obtain c where c: "sl_len s + length xs \<le> c"
    "go_append grow z xs M s = (\<lparr>sl_arr = me_next M, sl_off = 0, sl_len = sl_len s + length xs, sl_cap = c\<rparr>,
     M\<lparr>me_cells := (me_cells M)(me_next M := elems M s @ xs @ replicate (c - (sl_len s + length xs)) z),
       me_next := Suc (me_next M)\<rparr>)"
    using append_moves [of s xs grow z M] by blast
  then have r: "s' = \<lparr>sl_arr = me_next M, sl_off = 0, sl_len = sl_len s + length xs, sl_cap = c\<rparr>"
    "M' = M\<lparr>me_cells := (me_cells M)(me_next M := elems M s @ xs @ replicate (c - (sl_len s + length xs)) z),
       me_next := Suc (me_next M)\<rparr>" using assms(2) by simp_all
  show ?thesis
    using c(1) length_elems [OF assms(1)] by (simp add: r slice_ok_def elems_def [of _ "\<lparr>sl_arr = _, sl_off = _, sl_len = _, sl_cap = _\<rparr>"])
qed

lemma elems_append_apart:
  assumes "slice_ok M t" and "apart s t" and "go_append grow z xs M s = (s', M')"
    and "slice_ok M s"
  shows "elems M' t = elems M t \<and> slice_ok M' t \<and> apart s' t"
proof (cases "sl_len s + length xs \<le> sl_cap s")
  case True
  note r = assms(3) [unfolded append_in_place [OF True], simplified, THEN conjunct1, symmetric]
    assms(3) [unfolded append_in_place [OF True], simplified, THEN conjunct2, symmetric]
  show ?thesis
    using assms(1,2) True by (auto simp: r elems_def slice_ok_def apart_def)
next
  case False
  from append_moves [OF this, of grow z M] assms(3) assms(1) show ?thesis
    by (auto simp: elems_def slice_ok_def apart_def)
qed

lemma drop_elems: "elems M (slice_from_to s i (sl_len s)) = drop i (elems M s)"
  by (simp add: elems_def slice_from_to_def drop_take add.commute)

lemma take_elems: "j \<le> sl_len s \<Longrightarrow> elems M (slice_from_to s 0 j) = take j (elems M s)"
  by (simp add: elems_def slice_from_to_def min_def)

lemma remove_at_facts:
  assumes ok: "slice_ok M s" and j: "j < sl_len s" and r: "remove_at grow z j M s = (s', M')"
  shows "s' = s\<lparr>sl_len := sl_len s - 1\<rparr> \<and> elems M' s' = take j (elems M s) @ drop (Suc j) (elems M s) \<and>
    elems M' s = take j (elems M s) @ drop (Suc j) (elems M s) @ [last (elems M s)] \<and>
    slice_ok M' s' \<and> me_next M' = me_next M \<and>
    (\<forall>t. slice_ok M t \<longrightarrow> apart s t \<longrightarrow> elems M' t = elems M t \<and> slice_ok M' t)"
proof -
  let ?p = "slice_from_to s 0 j" and ?xs = "drop (Suc j) (elems M s)"
  have len: "length (elems M s) = sl_len s" by (rule length_elems [OF ok])
  have cap: "sl_len s \<le> sl_cap s" "sl_cap s \<noteq> 0" using ok j by (auto simp: slice_ok_def)
  have r': "go_append grow z ?xs M ?p = (s', M')" using r by (simp add: remove_at_def drop_elems)
  have okp: "slice_ok M ?p" using ok j by (auto simp: slice_ok_def slice_from_to_def)
  have fits: "sl_len ?p + length ?xs \<le> sl_cap ?p" using cap j len by (simp add: slice_from_to_def)
  note eq = r' [unfolded append_in_place [OF fits], simplified, THEN conjunct1, symmetric]
    r' [unfolded append_in_place [OF fits], simplified, THEN conjunct2, symmetric]
  have s': "s' = s\<lparr>sl_len := sl_len s - 1\<rparr>" using j len by (simp add: eq slice_from_to_def)
  have el: "elems M' s' = take j (elems M s) @ ?xs \<and> slice_ok M' s'"
    using elems_append [OF okp r'] take_elems [of j s M] j by simp
  moreover have "elems M' s = (take j (elems M s) @ ?xs) @ [last (elems M s)]"
  proof -
    let ?A = "me_cells M (sl_arr s)"
    have fit: "sl_off s + sl_len s \<le> length ?A" using ok cap by (auto simp: slice_ok_def)
    have last: "last (elems M s) = ?A ! (sl_off s + sl_len s - 1)"
      using len j fit by (subst last_conv_nth) (auto simp: elems_def)
    have A': "me_cells M' (sl_arr s) = overwrite (sl_off s + j) ?xs ?A" by (simp add: eq slice_from_to_def)
    have "elems M' s = elems M' s' @ [overwrite (sl_off s + j) ?xs ?A ! (sl_off s + sl_len s - 1)]"
    proof -
      have "take (sl_len s) ys = take (sl_len s - 1) ys @ [ys ! (sl_len s - 1)]" if "sl_len s \<le> length ys" for ys :: "'a list"
        using that j by (metis Suc_pred' diff_less less_le_trans less_nat_zero_code linorder_neqE_nat take_Suc_conv_app_nth zero_less_one less_trans)
      moreover have "sl_len s \<le> length (drop (sl_off s) (overwrite (sl_off s + j) ?xs ?A))"
        using fit j len by (subst length_drop, subst length_overwrite) auto
      ultimately show ?thesis using fit j len by (simp add: elems_def [of M'] s' A' length_overwrite)
    qed
    moreover have "overwrite (sl_off s + j) ?xs ?A ! (sl_off s + sl_len s - 1) = ?A ! (sl_off s + sl_len s - 1)"
      using fit j len by (auto simp: overwrite_def nth_append)
    ultimately show ?thesis using el last by simp
  qed
  moreover have "elems M' t = elems M t \<and> slice_ok M' t" if "slice_ok M t" "apart s t" for t
    using elems_append_apart [OF that(1) _ r' okp] that(2) by (simp add: apart_def slice_from_to_def)
  ultimately show ?thesis using s' el by (simp add: eq)
qed

lemma set_at_facts:
  assumes ok: "slice_ok M s" and j: "j < sl_len s"
  shows "elems (set_at j x M s) s = (elems M s)[j := x] \<and> me_next (set_at j x M s) = me_next M \<and>
    (\<forall>t. slice_ok M t \<longrightarrow> slice_ok (set_at j x M s) t)"
  using assms by (auto simp: set_at_def elems_def slice_ok_def drop_update_swap take_update_swap)

lemma fresh_slice_facts:
  assumes "fresh_slice xs M = (s, M')"
  shows "elems M' s = xs \<and> slice_ok M' s \<and> me_next M \<le> me_next M' \<and> sl_arr s = me_next M \<and>
    (\<forall>t. slice_ok M t \<longrightarrow> elems M' t = elems M t \<and> slice_ok M' t \<and> apart s t)"
  using assms by (auto simp: fresh_slice_def elems_def slice_ok_def apart_def)

section \<open>First index and first match\<close>

lemma index_where_Some:
  "index_where P xs = Some j \<Longrightarrow> j < length xs \<and> P (xs ! j) \<and> find P xs = Some (xs ! j)"
  by (induction xs arbitrary: j) (auto split: if_splits)

lemma index_where_None: "index_where P xs = None \<longleftrightarrow> \<not> list_ex P xs"
  by (induction xs) auto

lemma update_first_index: "index_where P xs = Some j \<Longrightarrow> update_first P f xs = xs[j := f (xs ! j)]"
  by (induction xs arbitrary: j) (auto split: if_splits)

lemma remove_first_index: "index_where P xs = Some j \<Longrightarrow> remove_first P xs = take j xs @ drop (Suc j) xs"
  by (induction xs arbitrary: j) (auto split: if_splits)

lemma index_where_map: "index_where P (map f xs) = index_where (P \<circ> f) xs"
  by (induction xs) auto

section \<open>The site operations on arrays\<close>

record ap_cell =
  ac_Name :: string
  ac_MAC :: string
  ac_Model :: string
  ac_SSIDs :: "string list"
  ac_Clients :: slice
  ac_Default :: bool

record world =
  w_aps :: "ap_cell mem"
  w_clients :: "client mem"

definition nil_slice :: slice where
  "nil_slice = \<lparr>sl_arr = 0, sl_off = 0, sl_len = 0, sl_cap = 0\<rparr>"

definition zero_cell :: ap_cell where
  "zero_cell = \<lparr>ac_Name = [], ac_MAC = [], ac_Model = [], ac_SSIDs = [], ac_Clients = nil_slice, ac_Default = False\<rparr>"

definition abs_ap :: "client mem \<Rightarrow> ap_cell \<Rightarrow> ap" where
  "abs_ap C c = \<lparr>ap_Name = ac_Name c, ap_MAC = ac_MAC c, ap_Model = ac_Model c, ap_SSIDs = ac_SSIDs c,
     ap_Clients = elems C (ac_Clients c), ap_Default = ac_Default c\<rparr>"

definition abs_aps :: "world \<Rightarrow> slice \<Rightarrow> ap list" where
  "abs_aps W s = map (abs_ap (w_clients W)) (elems (w_aps W) s)"

definition cell_at :: "nat \<Rightarrow> world \<Rightarrow> slice \<Rightarrow> ap_cell" where
  "cell_at j W s = elems (w_aps W) s ! j"

definition find_ap :: "string \<Rightarrow> world \<Rightarrow> slice \<Rightarrow> nat option" where
  "find_ap name W s = index_where (\<lambda>c. ac_Name c = name) (elems (w_aps W) s)"

definition find_client :: "string \<Rightarrow> world \<Rightarrow> slice \<Rightarrow> (nat \<times> nat) option" where
  \<comment> \<open>the two nested loops: access point, then client\<close>
  "find_client mac W s =
     (case index_where (\<lambda>c. list_ex (has_mac mac) (elems (w_clients W) (ac_Clients c))) (elems (w_aps W) s) of
        None \<Rightarrow> None
      | Some j \<Rightarrow> map_option (Pair j) (index_where (has_mac mac) (elems (w_clients W) (ac_Clients (cell_at j W s)))))"

definition put_clients :: "nat \<Rightarrow> slice \<times> client mem \<Rightarrow> world \<Rightarrow> slice \<Rightarrow> world" where
  \<comment> \<open>\<^verbatim>\<open>d.APs[j].Clients = ...\<close>\<close>
  "put_clients j r W s = W\<lparr>w_aps := set_at j ((cell_at j W s)\<lparr>ac_Clients := fst r\<rparr>) (w_aps W) s, w_clients := snd r\<rparr>"

definition push_client :: "(nat \<Rightarrow> nat \<Rightarrow> nat) \<Rightarrow> client \<Rightarrow> nat \<Rightarrow> world \<Rightarrow> slice \<Rightarrow> world" where
  "push_client grow c j W s = put_clients j (go_append grow empty_client [c] (w_clients W) (ac_Clients (cell_at j W s))) W s"

definition cut_client :: "(nat \<Rightarrow> nat \<Rightarrow> nat) \<Rightarrow> nat \<Rightarrow> nat \<Rightarrow> world \<Rightarrow> slice \<Rightarrow> world" where
  "cut_client grow j k W s = put_clients j (remove_at grow empty_client k (w_clients W) (ac_Clients (cell_at j W s))) W s"

datatype site_op =
    OpAddAP ap
  | OpRemoveAP string
  | OpAddClient string client
  | OpRemoveClient string
  | OpSetSSIDs string "string list"
  | OpMoveClient string string string

fun body_of :: "string \<Rightarrow> site_op \<Rightarrow> device \<Rightarrow> sim_error option \<times> device" where
  "body_of ip (OpAddAP a) = add_ap a"
| "body_of ip (OpRemoveAP name) = remove_ap ip name"
| "body_of ip (OpAddClient name c) = add_client ip name c"
| "body_of ip (OpRemoveClient mac) = remove_client ip mac"
| "body_of ip (OpSetSSIDs name ss) = set_ssids ip name ss"
| "body_of ip (OpMoveClient mac newAP newSSID) = move_client ip mac newAP newSSID"

definition new_cell :: "ap \<Rightarrow> slice \<Rightarrow> ap_cell" where
  "new_cell a cs = \<lparr>ac_Name = ap_Name a, ac_MAC = ap_MAC a, ac_Model = ap_Model a, ac_SSIDs = ap_SSIDs a,
     ac_Clients = cs, ac_Default = ap_Default a\<rparr>"

fun heap_op :: "(nat \<Rightarrow> nat \<Rightarrow> nat) \<Rightarrow> string \<Rightarrow> site_op \<Rightarrow> slice \<Rightarrow> world \<Rightarrow> sim_error option \<times> slice \<times> world" where
  "heap_op grow ip (OpAddAP a) s W =
     (let (cs, C) = fresh_slice (ap_Clients a) (w_clients W);
          (s', A) = go_append grow zero_cell [new_cell a cs] (w_aps W) s
      in (None, s', W\<lparr>w_aps := A, w_clients := C\<rparr>))"
| "heap_op grow ip (OpRemoveAP name) s W =
     (case find_ap name W s of
        None \<Rightarrow> (Some (APNotFound name ip), s, W)
      | Some j \<Rightarrow>
          if ac_Default (cell_at j W s) then (Some (DefaultAPLocked name), s, W)
          else (let (s', A) = remove_at grow zero_cell j (w_aps W) s in (None, s', W\<lparr>w_aps := A\<rparr>)))"
| "heap_op grow ip (OpAddClient name c) s W =
     (case find_ap name W s of
        None \<Rightarrow> (Some (APNotFound name ip), s, W)
      | Some j \<Rightarrow> (None, s, push_client grow c j W s))"
| "heap_op grow ip (OpRemoveClient mac) s W =
     (case find_client mac W s of
        None \<Rightarrow> (Some (ClientNotFound mac ip), s, W)
      | Some (j, k) \<Rightarrow> (None, s, cut_client grow j k W s))"
| "heap_op grow ip (OpSetSSIDs name ss) s W =
     (case find_ap name W s of
        None \<Rightarrow> (Some (APNotFound name ip), s, W)
      | Some j \<Rightarrow> (None, s, W\<lparr>w_aps := set_at j ((cell_at j W s)\<lparr>ac_SSIDs := ss\<rparr>) (w_aps W) s\<rparr>))"
| "heap_op grow ip (OpMoveClient mac newAP newSSID) s W =
     (case find_client mac W s of
        None \<Rightarrow> (Some (ClientNotFound mac ip), s, W)
      | Some (j, k) \<Rightarrow>
          (let c = elems (w_clients W) (ac_Clients (cell_at j W s)) ! k;
               W1 = cut_client grow j k W s;
               c1 = (if newSSID \<noteq> [] then c\<lparr>c_SSID := newSSID\<rparr> else c)
           in case find_ap newAP W1 s of
                None \<Rightarrow> (Some (TargetAPNotFound newAP ip), s, W1)
              | Some i \<Rightarrow> (None, s, push_client grow c1 i W1 s)))"

section \<open>Separation and refinement\<close>

definition world_ok :: "world \<Rightarrow> slice \<Rightarrow> bool" where
  "world_ok W s \<longleftrightarrow> slice_ok (w_aps W) s \<and>
     (\<forall>i < sl_len s. slice_ok (w_clients W) (ac_Clients (cell_at i W s))) \<and>
     (\<forall>i < sl_len s. \<forall>j < sl_len s. i \<noteq> j \<longrightarrow> apart (ac_Clients (cell_at i W s)) (ac_Clients (cell_at j W s)))"

definition separate :: "world \<Rightarrow> slice \<Rightarrow> slice \<Rightarrow> bool" where
  \<comment> \<open>two sites share no array\<close>
  "separate W s t \<longleftrightarrow> apart s t \<and>
     (\<forall>i < sl_len s. \<forall>j < sl_len t. apart (ac_Clients (cell_at i W s)) (ac_Clients (cell_at j W t)))"

definition leaves_others :: "world \<Rightarrow> slice \<Rightarrow> world \<Rightarrow> slice \<Rightarrow> bool" where
  "leaves_others W s W' s' \<longleftrightarrow>
     (\<forall>t. world_ok W t \<longrightarrow> separate W s t \<longrightarrow> abs_aps W' t = abs_aps W t \<and> world_ok W' t \<and> separate W' s' t)"

lemma leaves_others_refl: "leaves_others W s W s"
  by (simp add: leaves_others_def)

lemma leaves_others_trans: "leaves_others W s W' s' \<Longrightarrow> leaves_others W' s' W'' s'' \<Longrightarrow> leaves_others W s W'' s''"
  by (simp add: leaves_others_def)

lemma set_at_apart:
  "slice_ok M s \<Longrightarrow> j < sl_len s \<Longrightarrow> slice_ok M t \<Longrightarrow> apart s t \<Longrightarrow> elems (set_at j x M s) t = elems M t"
  by (auto simp: set_at_def elems_def slice_ok_def apart_def)

lemma cell_at_mem: "slice_ok (w_aps W) s \<Longrightarrow> i < sl_len s \<Longrightarrow> cell_at i W s \<in> set (elems (w_aps W) s)"
  by (simp add: cell_at_def length_elems)

lemma length_abs_aps: "slice_ok (w_aps W) s \<Longrightarrow> length (abs_aps W s) = sl_len s"
  by (simp add: abs_aps_def length_elems)

lemma abs_aps_nth: "slice_ok (w_aps W) s \<Longrightarrow> i < sl_len s \<Longrightarrow> abs_aps W s ! i = abs_ap (w_clients W) (cell_at i W s)"
  by (simp add: abs_aps_def length_elems cell_at_def)

lemma abs_aps_eqI:
  assumes "slice_ok (w_aps W) s" and "length as = sl_len s"
    and "\<And>i. i < sl_len s \<Longrightarrow> abs_ap (w_clients W) (cell_at i W s) = as ! i"
  shows "abs_aps W s = as"
  using assms by (intro nth_equalityI) (simp_all add: length_abs_aps abs_aps_nth)

lemma others_same:
  \<comment> \<open>a change that touches neither the cells of another site nor its clients\<close>
  assumes ok: "world_ok W t" and ap: "slice_ok (w_aps W') t" "elems (w_aps W') t = elems (w_aps W) t"
    and cl: "\<And>i. i < sl_len t \<Longrightarrow> elems (w_clients W') (ac_Clients (cell_at i W t)) = elems (w_clients W) (ac_Clients (cell_at i W t)) \<and>
      slice_ok (w_clients W') (ac_Clients (cell_at i W t))"
  shows "abs_aps W' t = abs_aps W t \<and> world_ok W' t \<and> (\<forall>i < sl_len t. cell_at i W' t = cell_at i W t)"
proof -
  have c: "cell_at i W' t = cell_at i W t" for i by (simp add: cell_at_def ap(2))
  have okt: "slice_ok (w_aps W) t" using ok by (simp add: world_ok_def)
  have "abs_aps W' t = abs_aps W t"
    by (rule abs_aps_eqI [OF ap(1)]) (use cl in \<open>simp_all add: length_abs_aps okt c abs_aps_nth abs_ap_def\<close>)
  moreover have "world_ok W' t" using ok ap(1) cl by (simp add: world_ok_def c)
  ultimately show ?thesis by (simp add: c)
qed

lemma put_clients_facts:
  assumes ok: "world_ok W s" and j: "j < sl_len s" and X: "elems C' cs' = X" "slice_ok C' cs'"
    and fr: "\<And>t. slice_ok (w_clients W) t \<Longrightarrow> apart (ac_Clients (cell_at j W s)) t \<Longrightarrow>
      elems C' t = elems (w_clients W) t \<and> slice_ok C' t \<and> apart cs' t"
  shows "world_ok (put_clients j (cs', C') W s) s \<and> leaves_others W s (put_clients j (cs', C') W s) s \<and>
    abs_aps (put_clients j (cs', C') W s) s = (abs_aps W s)[j := (abs_aps W s ! j)\<lparr>ap_Clients := X\<rparr>]"
proof -
  let ?W = "put_clients j (cs', C') W s" and ?c = "cell_at j W s"
  have oks: "slice_ok (w_aps W) s" and okc: "\<And>i. i < sl_len s \<Longrightarrow> slice_ok (w_clients W) (ac_Clients (cell_at i W s))"
    and ap: "\<And>i. i < sl_len s \<Longrightarrow> i \<noteq> j \<Longrightarrow> apart (ac_Clients ?c) (ac_Clients (cell_at i W s))"
    and ap2: "\<And>i k. i < sl_len s \<Longrightarrow> k < sl_len s \<Longrightarrow> i \<noteq> k \<Longrightarrow> apart (ac_Clients (cell_at i W s)) (ac_Clients (cell_at k W s))"
    using ok j by (auto simp: world_ok_def)
  have W: "w_clients ?W = C'" "w_aps ?W = set_at j (?c\<lparr>ac_Clients := cs'\<rparr>) (w_aps W) s"
    by (simp_all add: put_clients_def)
  have oks': "slice_ok (w_aps ?W) t" if "slice_ok (w_aps W) t" for t
    using set_at_facts [OF oks j] that by (simp add: W)
  have cell: "cell_at i ?W s = (if i = j then ?c\<lparr>ac_Clients := cs'\<rparr> else cell_at i W s)" if "i < sl_len s" for i
    using set_at_facts [OF oks j] that length_elems [OF oks] by (simp add: cell_at_def W nth_list_update)
  have wok: "world_ok ?W s"
    unfolding world_ok_def
  proof (intro conjI allI impI)
    show "slice_ok (w_aps ?W) s" by (rule oks' [OF oks])
    fix i assume i: "i < sl_len s"
    show "slice_ok (w_clients ?W) (ac_Clients (cell_at i ?W s))"
      using fr [OF okc [OF i] ap [OF i]] X(2) i j by (cases "i = j") (simp_all add: cell W)
    fix k assume "k < sl_len s" "i \<noteq> k"
    then show "apart (ac_Clients (cell_at i ?W s)) (ac_Clients (cell_at k ?W s))"
      using fr [OF okc ap] ap2 i by (cases "i = j"; cases "k = j") (simp_all add: cell apart_sym)
  qed
  have "abs_aps ?W s = (abs_aps W s)[j := (abs_aps W s ! j)\<lparr>ap_Clients := X\<rparr>]"
  proof (rule abs_aps_eqI [OF oks' [OF oks]])
    fix i assume i: "i < sl_len s"
    show "abs_ap (w_clients ?W) (cell_at i ?W s) = (abs_aps W s)[j := (abs_aps W s ! j)\<lparr>ap_Clients := X\<rparr>] ! i"
      using fr [OF okc [OF i] ap [OF i]] X(1) i j
      by (cases "i = j") (simp_all add: cell W abs_aps_nth [OF oks] length_abs_aps [OF oks] abs_ap_def)
  qed (simp add: length_abs_aps oks)
  moreover have "leaves_others W s ?W s"
    unfolding leaves_others_def
  proof (intro allI impI)
    fix t assume t: "world_ok W t" "separate W s t"
    have okt: "slice_ok (w_aps W) t" using t(1) by (simp add: world_ok_def)
    have tc: "elems C' (ac_Clients (cell_at i W t)) = elems (w_clients W) (ac_Clients (cell_at i W t)) \<and>
        slice_ok C' (ac_Clients (cell_at i W t)) \<and> apart cs' (ac_Clients (cell_at i W t))" if "i < sl_len t" for i
      by (rule fr) (use t that j in \<open>auto simp: world_ok_def separate_def\<close>)
    have el: "elems (w_aps ?W) t = elems (w_aps W) t"
      unfolding W by (rule set_at_apart [OF oks j okt]) (use t(2) in \<open>simp add: separate_def\<close>)
    have o: "abs_aps ?W t = abs_aps W t \<and> world_ok ?W t \<and> (\<forall>i < sl_len t. cell_at i ?W t = cell_at i W t)"
      by (rule others_same [OF t(1) oks' [OF okt] el]) (use tc in \<open>simp add: W\<close>)
    moreover have "separate ?W s t"
      using t(2) o tc by (auto simp: separate_def cell)
    ultimately show "abs_aps ?W t = abs_aps W t \<and> world_ok ?W t \<and> separate ?W s t" by simp
  qed
  ultimately show ?thesis using wok by simp
qed

lemma push_client_facts:
  assumes ok: "world_ok W s" and j: "j < sl_len s"
  shows "world_ok (push_client grow c j W s) s \<and> leaves_others W s (push_client grow c j W s) s \<and>
    abs_aps (push_client grow c j W s) s = (abs_aps W s)[j := append_client c (abs_aps W s ! j)]"
proof -
  let ?cs = "ac_Clients (cell_at j W s)"
  obtain cs' C' where r: "go_append grow empty_client [c] (w_clients W) ?cs = (cs', C')" by fastforce
  have okc: "slice_ok (w_clients W) ?cs" and oks: "slice_ok (w_aps W) s" using ok j by (auto simp: world_ok_def)
  note a = elems_append [OF okc r]
  have "append_client c (abs_aps W s ! j) = (abs_aps W s ! j)\<lparr>ap_Clients := elems C' cs'\<rparr>"
    using a by (simp add: append_client_def abs_aps_nth [OF oks j] abs_ap_def)
  then show ?thesis
    using put_clients_facts [OF ok j refl, of C' cs'] a elems_append_apart [OF _ _ r okc]
    by (simp add: push_client_def r)
qed

lemma cut_client_facts:
  assumes ok: "world_ok W s" and j: "j < sl_len s"
    and k: "index_where (has_mac mac) (elems (w_clients W) (ac_Clients (cell_at j W s))) = Some k"
  shows "world_ok (cut_client grow j k W s) s \<and> leaves_others W s (cut_client grow j k W s) s \<and>
    abs_aps (cut_client grow j k W s) s = (abs_aps W s)[j := drop_client mac (abs_aps W s ! j)]"
proof -
  let ?cs = "ac_Clients (cell_at j W s)"
  obtain cs' C' where r: "remove_at grow empty_client k (w_clients W) ?cs = (cs', C')" by fastforce
  have okc: "slice_ok (w_clients W) ?cs" and oks: "slice_ok (w_aps W) s" using ok j by (auto simp: world_ok_def)
  have k': "k < sl_len ?cs" using index_where_Some [OF k] length_elems [OF okc] by simp
  note a = remove_at_facts [OF okc k' r]
  have "drop_client mac (abs_aps W s ! j) = (abs_aps W s ! j)\<lparr>ap_Clients := elems C' cs'\<rparr>"
  proof -
    have "elems C' cs' = remove_first (has_mac mac) (elems (w_clients W) ?cs)"
      using a remove_first_index [OF k] by metis
    then show ?thesis by (simp add: drop_client_def abs_aps_nth [OF oks j] abs_ap_def)
  qed
  moreover have "apart cs' t" if "apart ?cs t" for t using a that by (simp add: apart_def)
  moreover have "slice_ok C' cs'" using a by blast
  moreover have "elems C' t = elems (w_clients W) t \<and> slice_ok C' t" if "slice_ok (w_clients W) t" "apart ?cs t" for t
    using a that by blast
  ultimately show ?thesis
    using put_clients_facts [OF ok j refl, of C' cs'] by (simp add: cut_client_def r)
qed

lemma find_ap_abs: "find_ap name W s = index_where (named name) (abs_aps W s)"
  by (simp add: find_ap_def abs_aps_def index_where_map o_def named_def abs_ap_def)

lemma carriers_abs:
  "index_where (\<lambda>c. list_ex (has_mac mac) (elems (w_clients W) (ac_Clients c))) (elems (w_aps W) s) =
     index_where (carries mac) (abs_aps W s)"
  by (simp add: abs_aps_def index_where_map o_def carries_def abs_ap_def)

lemma find_ap_bound: "slice_ok (w_aps W) s \<Longrightarrow> find_ap name W s = Some j \<Longrightarrow> j < sl_len s"
  using index_where_Some length_elems unfolding find_ap_def by metis

lemma find_client_Some:
  assumes "slice_ok (w_aps W) s" and "find_client mac W s = Some (j, k)"
  shows "j < sl_len s \<and> index_where (carries mac) (abs_aps W s) = Some j \<and>
    index_where (has_mac mac) (elems (w_clients W) (ac_Clients (cell_at j W s))) = Some k"
proof -
  have j: "index_where (carries mac) (abs_aps W s) = Some j"
    "index_where (has_mac mac) (elems (w_clients W) (ac_Clients (cell_at j W s))) = Some k"
    using assms(2) by (auto simp: find_client_def carriers_abs split: option.splits)
  with index_where_Some [OF j(1)] length_abs_aps [OF assms(1)] show ?thesis by simp
qed

lemma find_client_None:
  assumes "slice_ok (w_aps W) s" and "find_client mac W s = None"
  shows "index_where (carries mac) (abs_aps W s) = None"
proof (rule ccontr)
  assume "index_where (carries mac) (abs_aps W s) \<noteq> None"
  then obtain j where j: "index_where (carries mac) (abs_aps W s) = Some j" by blast
  have "j < sl_len s" "carries mac (abs_aps W s ! j)"
    using index_where_Some [OF j] length_abs_aps [OF assms(1)] by simp_all
  then have "list_ex (has_mac mac) (elems (w_clients W) (ac_Clients (cell_at j W s)))"
    by (simp add: carries_def abs_aps_nth [OF assms(1)] abs_ap_def)
  with assms(2) j show False by (auto simp: find_client_def carriers_abs index_where_None)
qed

lemma take_client_index:
  "take_client mac as = (case index_where (carries mac) as of None \<Rightarrow> (None, as)
     | Some j \<Rightarrow> (find (has_mac mac) (ap_Clients (as ! j)), as[j := drop_client mac (as ! j)]))"
proof (induction as)
  case (Cons a as)
  show ?case
  proof (cases "find (has_mac mac) (ap_Clients a)")
    case None
    then have "\<not> carries mac a" by (simp add: carries_def find_None_list_ex)
    with None Cons show ?thesis by (auto split: option.splits)
  next
    case (Some c)
    then have "carries mac a" by (metis carries_def find_None_list_ex option.distinct(1))
    with Some show ?thesis by simp
  qed
qed simp

lemma heap_add_ap:
  assumes ok: "world_ok W s" and r: "heap_op grow ip (OpAddAP a) s W = (e, s', W')"
  shows "e = None \<and> world_ok W' s' \<and> leaves_others W s W' s' \<and> abs_aps W' s' = abs_aps W s @ [a]"
proof -
  obtain cs C where c: "fresh_slice (ap_Clients a) (w_clients W) = (cs, C)" by fastforce
  obtain A where A: "go_append grow zero_cell [new_cell a cs] (w_aps W) s = (s', A)" and
    W'': "W' = W\<lparr>w_aps := A, w_clients := C\<rparr>" and e: "e = None"
    using r by (auto simp: c split: prod.splits)
  have W': "w_aps W' = A" "w_clients W' = C" by (simp_all add: W'')
  have oks: "slice_ok (w_aps W) s" using ok by (simp add: world_ok_def)
  note fs = fresh_slice_facts [OF c] and ap = elems_append [OF oks A]
  have len: "sl_len s' = Suc (sl_len s)" using ap length_elems [of A s'] length_elems [OF oks] by simp
  have cell: "cell_at i W' s' = (if i < sl_len s then cell_at i W s else new_cell a cs)" if "i < sl_len s'" for i
    using ap that len length_elems [OF oks] by (auto simp: cell_at_def W' nth_append less_Suc_eq)
  have cl: "elems C (ac_Clients (cell_at i W s)) = elems (w_clients W) (ac_Clients (cell_at i W s)) \<and>
      slice_ok C (ac_Clients (cell_at i W s)) \<and> apart cs (ac_Clients (cell_at i W s))" if "i < sl_len s" for i
    using fs ok that by (simp add: world_ok_def)
  have "world_ok W' s'"
    unfolding world_ok_def
  proof (intro conjI allI impI)
    show "slice_ok (w_aps W') s'" using ap by (simp add: W')
    fix i assume i: "i < sl_len s'"
    show "slice_ok (w_clients W') (ac_Clients (cell_at i W' s'))"
      using cl fs by (simp add: cell [OF i] W' new_cell_def)
    fix j assume j: "j < sl_len s'" and ij: "i \<noteq> j"
    show "apart (ac_Clients (cell_at i W' s')) (ac_Clients (cell_at j W' s'))"
      using cl ok i j ij len by (auto simp: cell new_cell_def world_ok_def apart_sym less_Suc_eq)
  qed
  moreover have "abs_aps W' s' = abs_aps W s @ [a]"
  proof (rule abs_aps_eqI)
    show "slice_ok (w_aps W') s'" using ap by (simp add: W')
    show "length (abs_aps W s @ [a]) = sl_len s'" by (simp add: length_abs_aps oks len)
    fix i assume i: "i < sl_len s'"
    show "abs_ap (w_clients W') (cell_at i W' s') = (abs_aps W s @ [a]) ! i"
      using cl fs i len by (auto simp: cell [OF i] nth_append length_abs_aps [OF oks] abs_aps_nth [OF oks] abs_ap_def W' new_cell_def)
  qed
  moreover have "leaves_others W s W' s'"
    unfolding leaves_others_def
  proof (intro allI impI)
    fix t assume t: "world_ok W t" "separate W s t"
    have okt: "slice_ok (w_aps W) t" and at: "apart s t" using t by (simp_all add: world_ok_def separate_def)
    note el = elems_append_apart [OF okt at A oks]
    have tc: "elems C (ac_Clients (cell_at i W t)) = elems (w_clients W) (ac_Clients (cell_at i W t)) \<and>
        slice_ok C (ac_Clients (cell_at i W t)) \<and> apart cs (ac_Clients (cell_at i W t))" if "i < sl_len t" for i
      using fs t(1) that by (simp add: world_ok_def)
    have o: "abs_aps W' t = abs_aps W t \<and> world_ok W' t \<and> (\<forall>i < sl_len t. cell_at i W' t = cell_at i W t)"
      by (rule others_same [OF t(1)]) (use el tc in \<open>simp_all add: W'\<close>)
    moreover have "separate W' s' t"
      using t(2) o tc el len by (auto simp: separate_def cell new_cell_def less_Suc_eq)
    ultimately show "abs_aps W' t = abs_aps W t \<and> world_ok W' t \<and> separate W' s' t" by simp
  qed
  ultimately show ?thesis by (simp add: e)
qed

lemma heap_remove_ap:
  assumes ok: "world_ok W s" and j: "j < sl_len s" and A: "remove_at grow zero_cell j (w_aps W) s = (s', A)"
    and W': "w_aps W' = A" "w_clients W' = w_clients W"
  shows "world_ok W' s' \<and> leaves_others W s W' s' \<and>
    abs_aps W' s' = take j (abs_aps W s) @ drop (Suc j) (abs_aps W s) \<and>
    abs_aps W' s = take j (abs_aps W s) @ drop (Suc j) (abs_aps W s) @ [last (abs_aps W s)]"
proof -
  have oks: "slice_ok (w_aps W) s" using ok by (simp add: world_ok_def)
  note rm' = remove_at_facts [OF oks j A]
  have rm: "elems A s' = take j (elems (w_aps W) s) @ drop (Suc j) (elems (w_aps W) s)"
    "elems A s = take j (elems (w_aps W) s) @ drop (Suc j) (elems (w_aps W) s) @ [last (elems (w_aps W) s)]"
    "slice_ok A s'" "sl_arr s' = sl_arr s" "sl_cap s' = sl_cap s"
    and fr: "\<And>t. slice_ok (w_aps W) t \<Longrightarrow> apart s t \<Longrightarrow> elems A t = elems (w_aps W) t \<and> slice_ok A t"
    using rm' by (blast, blast, blast, simp, simp, blast)
  have ne: "elems (w_aps W) s \<noteq> []" using length_elems [OF oks] j by auto
  have len: "sl_len s' = sl_len s - 1" using rm' by simp
  define f where "f = (\<lambda>i. if i < j then i else Suc i)"
  have cell: "cell_at i W' s' = cell_at (f i) W s" if "i < sl_len s'" for i
    using rm that length_elems [OF oks] j len by (auto simp: cell_at_def W' nth_append f_def min_def)
  have f: "f i < sl_len s" if "i < sl_len s'" for i using that len by (auto simp: f_def)
  have inj: "f i \<noteq> f k" if "i \<noteq> k" for i k using that by (auto simp: f_def)
  have "world_ok W' s'"
    unfolding world_ok_def using rm ok cell f inj by (simp add: W' world_ok_def)
  moreover have "abs_aps W' s' = take j (abs_aps W s) @ drop (Suc j) (abs_aps W s)"
    "abs_aps W' s = take j (abs_aps W s) @ drop (Suc j) (abs_aps W s) @ [last (abs_aps W s)]"
    using rm ne by (simp_all add: abs_aps_def W' take_map drop_map last_map)
  moreover have "leaves_others W s W' s'"
    unfolding leaves_others_def
  proof (intro allI impI)
    fix t assume t: "world_ok W t" "separate W s t"
    have okt: "slice_ok (w_aps W) t" and at: "apart s t" using t by (simp_all add: world_ok_def separate_def)
    have o: "abs_aps W' t = abs_aps W t \<and> world_ok W' t \<and> (\<forall>i < sl_len t. cell_at i W' t = cell_at i W t)"
      by (rule others_same [OF t(1)]) (use fr okt at t(1) in \<open>simp_all add: W' world_ok_def\<close>)
    moreover have "apart s' t" using at rm by (simp add: apart_def)
    ultimately show "abs_aps W' t = abs_aps W t \<and> world_ok W' t \<and> separate W' s' t"
      using t(2) cell f by (simp add: separate_def)
  qed
  ultimately show ?thesis by simp
qed

lemma set_ssids_cell:
  assumes ok: "world_ok W s" and j: "j < sl_len s"
    and W': "w_aps W' = set_at j ((cell_at j W s)\<lparr>ac_SSIDs := ss\<rparr>) (w_aps W) s" "w_clients W' = w_clients W"
  shows "world_ok W' s \<and> leaves_others W s W' s \<and> abs_aps W' s = (abs_aps W s)[j := (abs_aps W s ! j)\<lparr>ap_SSIDs := ss\<rparr>]"
proof -
  have oks: "slice_ok (w_aps W) s" using ok by (simp add: world_ok_def)
  note st = set_at_facts [OF oks j]
  have oks': "slice_ok (w_aps W') t" if "slice_ok (w_aps W) t" for t using st that by (simp add: W')
  have cell: "cell_at i W' s = (if i = j then (cell_at j W s)\<lparr>ac_SSIDs := ss\<rparr> else cell_at i W s)" if "i < sl_len s" for i
    using st that length_elems [OF oks] by (simp add: cell_at_def W' nth_list_update)
  have "world_ok W' s" using ok oks' [OF oks] by (simp add: world_ok_def cell W')
  moreover have "abs_aps W' s = (abs_aps W s)[j := (abs_aps W s ! j)\<lparr>ap_SSIDs := ss\<rparr>]"
    by (rule abs_aps_eqI [OF oks' [OF oks]])
      (simp_all add: length_abs_aps [OF oks] cell W' abs_aps_nth [OF oks] nth_list_update abs_ap_def)
  moreover have "leaves_others W s W' s"
    unfolding leaves_others_def
  proof (intro allI impI)
    fix t assume t: "world_ok W t" "separate W s t"
    have okt: "slice_ok (w_aps W) t" using t by (simp add: world_ok_def)
    have el: "elems (w_aps W') t = elems (w_aps W) t"
      unfolding W' by (rule set_at_apart [OF oks j okt]) (use t(2) in \<open>simp add: separate_def\<close>)
    have o: "abs_aps W' t = abs_aps W t \<and> world_ok W' t \<and> (\<forall>i < sl_len t. cell_at i W' t = cell_at i W t)"
      by (rule others_same [OF t(1) oks' [OF okt] el]) (use t(1) in \<open>simp add: W' world_ok_def\<close>)
    then show "abs_aps W' t = abs_aps W t \<and> world_ok W' t \<and> separate W' s t"
      using t(2) by (simp add: separate_def cell)
  qed
  ultimately show ?thesis by simp
qed

abbreviation refines_body :: "string \<Rightarrow> site_op \<Rightarrow> device \<Rightarrow> slice \<Rightarrow> world \<Rightarrow> sim_error option \<times> slice \<times> world \<Rightarrow> bool" where
  "refines_body ip op d s W r \<equiv>
     body_of ip op (d\<lparr>d_APs := abs_aps W s\<rparr>) = (fst r, d\<lparr>d_APs := abs_aps (snd (snd r)) (fst (snd r))\<rparr>) \<and>
     world_ok (snd (snd r)) (fst (snd r)) \<and> leaves_others W s (snd (snd r)) (fst (snd r))"

lemma found_ap:
  assumes "world_ok W s" and "find_ap name W s = Some j"
  shows "j < sl_len s \<and> index_where (named name) (abs_aps W s) = Some j \<and> list_ex (named name) (abs_aps W s) \<and>
    find (named name) (abs_aps W s) = Some (abs_aps W s ! j) \<and> ap_Default (abs_aps W s ! j) = ac_Default (cell_at j W s)"
proof -
  have i: "index_where (named name) (abs_aps W s) = Some j" using assms(2) by (simp add: find_ap_abs)
  have oks: "slice_ok (w_aps W) s" using assms(1) by (simp add: world_ok_def)
  have j: "j < sl_len s" by (rule find_ap_bound [OF oks assms(2)])
  have "list_ex (named name) (abs_aps W s)" using index_where_None [of "named name" "abs_aps W s"] i by simp
  with i j index_where_Some [OF i] show ?thesis by (simp add: abs_aps_nth [OF oks] abs_ap_def)
qed

lemma no_ap: "find_ap name W s = None \<Longrightarrow> \<not> list_ex (named name) (abs_aps W s) \<and> find (named name) (abs_aps W s) = None"
  by (simp add: find_ap_abs index_where_None find_None_list_ex)

lemma refines_add: "world_ok W s \<Longrightarrow> refines_body ip (OpAddAP a) d s W (heap_op grow ip (OpAddAP a) s W)"
  using heap_add_ap [of W s grow ip a] by (cases "heap_op grow ip (OpAddAP a) s W") (auto simp: add_ap_def)

lemma refines_remove:
  assumes ok: "world_ok W s"
  shows "refines_body ip (OpRemoveAP name) d s W (heap_op grow ip (OpRemoveAP name) s W)"
proof (cases "find_ap name W s")
  case None
  with ok no_ap [OF None] show ?thesis by (simp add: remove_ap_def leaves_others_refl)
next
  case (Some j)
  note f = found_ap [OF ok Some]
  obtain s' A where A: "remove_at grow zero_cell j (w_aps W) s = (s', A)" by fastforce
  have j: "j < sl_len s" using f by blast
  show ?thesis
    using heap_remove_ap [OF ok j A, of "W\<lparr>w_aps := A\<rparr>"] f ok remove_first_index [of "named name" "abs_aps W s" j]
    by (auto simp: Some A remove_ap_def leaves_others_refl)
qed

lemma refines_add_client:
  assumes ok: "world_ok W s"
  shows "refines_body ip (OpAddClient name c) d s W (heap_op grow ip (OpAddClient name c) s W)"
proof (cases "find_ap name W s")
  case None
  with ok no_ap [OF None] show ?thesis by (simp add: add_client_def leaves_others_refl)
next
  case (Some j)
  note f = found_ap [OF ok Some]
  then show ?thesis
    using push_client_facts [OF ok, of j grow c] update_first_index [of "named name" "abs_aps W s" j]
    by (simp add: Some add_client_def)
qed

lemma refines_set_ssids:
  assumes ok: "world_ok W s"
  shows "refines_body ip (OpSetSSIDs name ss) d s W (heap_op grow ip (OpSetSSIDs name ss) s W)"
proof (cases "find_ap name W s")
  case None
  with ok no_ap [OF None] show ?thesis by (simp add: set_ssids_def leaves_others_refl)
next
  case (Some j)
  note f = found_ap [OF ok Some]
  let ?W = "W\<lparr>w_aps := set_at j ((cell_at j W s)\<lparr>ac_SSIDs := ss\<rparr>) (w_aps W) s\<rparr>"
  have "world_ok ?W s \<and> leaves_others W s ?W s \<and> abs_aps ?W s = (abs_aps W s)[j := (abs_aps W s ! j)\<lparr>ap_SSIDs := ss\<rparr>]"
    by (rule set_ssids_cell [OF ok]) (use f in simp_all)
  with f show ?thesis
    using update_first_index [of "named name" "abs_aps W s" j] by (simp add: Some set_ssids_def)
qed

lemma refines_remove_client:
  assumes ok: "world_ok W s"
  shows "refines_body ip (OpRemoveClient mac) d s W (heap_op grow ip (OpRemoveClient mac) s W)"
proof -
  have oks: "slice_ok (w_aps W) s" using ok by (simp add: world_ok_def)
  show ?thesis
  proof (cases "find_client mac W s")
    case None
    with find_client_None [OF oks None] ok show ?thesis
      by (simp add: remove_client_def leaves_others_refl index_where_None)
  next
    case (Some jk)
    obtain j k where jk: "jk = (j, k)" by fastforce
    note f = find_client_Some [OF oks Some [unfolded jk]]
    have "list_ex (carries mac) (abs_aps W s)" using f index_where_None [of "carries mac" "abs_aps W s"] by simp
    with f show ?thesis
      using cut_client_facts [OF ok, of j mac k grow] update_first_index [of "carries mac" "abs_aps W s" j]
      by (simp add: Some jk remove_client_def)
  qed
qed

lemma refines_move:
  assumes ok: "world_ok W s"
  shows "refines_body ip (OpMoveClient mac newAP newSSID) d s W (heap_op grow ip (OpMoveClient mac newAP newSSID) s W)"
proof -
  have oks: "slice_ok (w_aps W) s" using ok by (simp add: world_ok_def)
  show ?thesis
  proof (cases "find_client mac W s")
    case None
    with find_client_None [OF oks None] ok show ?thesis
      by (simp add: move_client_def leaves_others_refl take_client_index)
  next
    case (Some jk)
    obtain j k where jk: "jk = (j, k)" by fastforce
    note f = find_client_Some [OF oks Some [unfolded jk]]
    define c where "c = elems (w_clients W) (ac_Clients (cell_at j W s)) ! k"
    define W1 where "W1 = cut_client grow j k W s"
    define c1 where "c1 = (if newSSID \<noteq> [] then c\<lparr>c_SSID := newSSID\<rparr> else c)"
    have cut: "world_ok W1 s" "leaves_others W s W1 s" "abs_aps W1 s = (abs_aps W s)[j := drop_client mac (abs_aps W s ! j)]"
      using cut_client_facts [OF ok, of j mac k grow] f by (simp_all add: W1_def)
    have "find (has_mac mac) (ap_Clients (abs_aps W s ! j)) = Some c"
      using f index_where_Some [of "has_mac mac" "elems (w_clients W) (ac_Clients (cell_at j W s))" k]
      by (simp add: c_def abs_aps_nth [OF oks] abs_ap_def)
    then have take: "take_client mac (abs_aps W s) = (Some c, abs_aps W1 s)"
      using f by (simp add: take_client_index cut(3))
    have heap: "heap_op grow ip (OpMoveClient mac newAP newSSID) s W =
        (case find_ap newAP W1 s of
           None \<Rightarrow> (Some (TargetAPNotFound newAP ip), s, W1)
         | Some i \<Rightarrow> (None, s, push_client grow c1 i W1 s))"
      unfolding c1_def c_def W1_def by (simp add: Some jk Let_def)
    have body: "body_of ip (OpMoveClient mac newAP newSSID) (d\<lparr>d_APs := abs_aps W s\<rparr>) =
        (if list_ex (named newAP) (abs_aps W1 s)
         then (None, d\<lparr>d_APs := update_first (named newAP) (append_client c1) (abs_aps W1 s)\<rparr>)
         else (Some (TargetAPNotFound newAP ip), d\<lparr>d_APs := abs_aps W1 s\<rparr>))"
      by (simp add: move_client_def take c1_def Let_def)
    show ?thesis
    proof (cases "find_ap newAP W1 s")
      case None
      with no_ap [OF None] cut show ?thesis by (simp only: heap body) simp
    next
      case (Some i)
      note g = found_ap [OF cut(1) Some]
      have "world_ok (push_client grow c1 i W1 s) s" "leaves_others W1 s (push_client grow c1 i W1 s) s"
          "abs_aps (push_client grow c1 i W1 s) s = update_first (named newAP) (append_client c1) (abs_aps W1 s)"
        using push_client_facts [OF cut(1), of i grow c1] g update_first_index [of "named newAP" "abs_aps W1 s" i]
        by simp_all
      with g Some cut(2) leaves_others_trans show ?thesis by (simp only: heap body) (auto intro: leaves_others_trans)
    qed
  qed
qed

lemma refines_all: "world_ok W s \<Longrightarrow> refines_body ip op d s W (heap_op grow ip op s W)"
  by (cases op) (simp_all only: refines_add refines_remove refines_add_client refines_remove_client refines_set_ssids refines_move)

lemma requests_are_bodies:
  "AddAP env ip a = on_device env ip (body_of ip (OpAddAP a))"
  "RemoveAP env ip name = on_device env ip (body_of ip (OpRemoveAP name))"
  "AddClient env ip name c = on_device env ip (body_of ip (OpAddClient name c))"
  "RemoveClient env ip mac = on_device env ip (body_of ip (OpRemoveClient mac))"
  "UpdateAPSSIDs env ip name ss = on_device env ip (body_of ip (OpSetSSIDs name ss))"
  "UpdateClient env ip mac newAP newSSID = on_device env ip (body_of ip (OpMoveClient mac newAP newSSID))"
  by (simp_all add: AddAP_def RemoveAP_def AddClient_def RemoveClient_def UpdateAPSSIDs_def UpdateClient_def fun_eq_iff)

text \<open>
  C7. The site operations, carried out on backing arrays with the slices' in-place appends and removals, do to the
  access points and clients of the site exactly what the list operations of \<open>Simulator\<close> do, errors included,
  whatever capacities the runtime chooses; they keep the arrays of different slices apart, and no other site changes.
\<close>

theorem slices_refine_lists:
  assumes "world_ok W s" and "heap_op grow ip op s W = (e, s', W')"
  shows "body_of ip op (d\<lparr>d_APs := abs_aps W s\<rparr>) = (e, d\<lparr>d_APs := abs_aps W' s'\<rparr>) \<and> world_ok W' s' \<and>
    leaves_others W s W' s'"
  using refines_all [OF assms(1), of ip op d grow] unfolding assms(2) by simp

definition cell_named :: "string \<Rightarrow> slice \<Rightarrow> ap_cell" where
  "cell_named n cs = zero_cell\<lparr>ac_Name := n, ac_Clients := cs\<rparr>"

definition three_aps :: world where
  \<comment> \<open>access points a, b and c in one array, b with one client and room for another\<close>
  "three_aps = \<lparr>w_aps = \<lparr>me_cells = (\<lambda>_. [])(0 := [cell_named ''a'' nil_slice,
       cell_named ''b'' \<lparr>sl_arr = 0, sl_off = 0, sl_len = 1, sl_cap = 2\<rparr>, cell_named ''c'' nil_slice]), me_next = 1\<rparr>,
     w_clients = \<lparr>me_cells = (\<lambda>_. [])(0 := [empty_client\<lparr>c_MAC := ''m''\<rparr>, empty_client]), me_next = 1\<rparr>\<rparr>"

definition three_slice :: slice where
  "three_slice = \<lparr>sl_arr = 0, sl_off = 0, sl_len = 3, sl_cap = 3\<rparr>"

lemma three_aps_ok: "world_ok three_aps three_slice"
proof -
  have i: "i = 0 \<or> i = 1 \<or> i = 2" if "i < sl_len three_slice" for i using that by (auto simp: three_slice_def)
  have c: "ac_Clients (cell_at 0 three_aps three_slice) = nil_slice" "ac_Clients (cell_at 2 three_aps three_slice) = nil_slice"
    "ac_Clients (cell_at 1 three_aps three_slice) = \<lparr>sl_arr = 0, sl_off = 0, sl_len = 1, sl_cap = 2\<rparr>"
    by (simp_all add: cell_at_def elems_def three_slice_def three_aps_def cell_named_def)
  have n: "slice_ok M nil_slice" "apart nil_slice t" "apart t nil_slice" for M :: "client mem" and t
    by (simp_all add: slice_ok_def apart_def nil_slice_def)
  have "slice_ok (w_aps three_aps) three_slice"
    "slice_ok (w_clients three_aps) \<lparr>sl_arr = 0, sl_off = 0, sl_len = 1, sl_cap = 2\<rparr>"
    by (simp_all add: slice_ok_def three_slice_def three_aps_def)
  then show ?thesis unfolding world_ok_def using i c n by metis
qed

theorem slices_refine_lists_witness:
  "map ap_Name (abs_aps (snd (snd (heap_op (\<lambda>_ n. n) ''10.0.0.1'' (OpRemoveAP ''b'') three_slice three_aps)))
     (fst (snd (heap_op (\<lambda>_ n. n) ''10.0.0.1'' (OpRemoveAP ''b'') three_slice three_aps)))) = [''a'', ''c'']"
proof -
  let ?r = "heap_op (\<lambda>_ n. n) ''10.0.0.1'' (OpRemoveAP ''b'') three_slice three_aps"
  have "remove_ap ''10.0.0.1'' ''b'' (empty_device\<lparr>d_APs := abs_aps three_aps three_slice\<rparr>) =
      (fst ?r, empty_device\<lparr>d_APs := abs_aps (snd (snd ?r)) (fst (snd ?r))\<rparr>)"
    using slices_refine_lists [OF three_aps_ok, of "\<lambda>_ n. n" "''10.0.0.1''" "OpRemoveAP ''b''" "fst ?r" "fst (snd ?r)" "snd (snd ?r)" empty_device]
    by simp
  moreover have "map ap_Name (d_APs (snd (remove_ap ''10.0.0.1'' ''b'' (empty_device\<lparr>d_APs := abs_aps three_aps three_slice\<rparr>)))) = [''a'', ''c'']"
    by code_simp
  ultimately show ?thesis by simp
qed

section \<open>What a shallow copy shows\<close>

text \<open>
  C39. \<^verbatim>\<open>Devices\<close> and \<^verbatim>\<open>Snapshot\<close> copy the structs under the lock, but the copies' slices are
  the live ones; the dashboard encodes them, and \<^verbatim>\<open>save\<close> writes them, after the lock is released. A copy
  taken before an access point is removed reads, afterwards, as the remaining access points with the last one twice, so it is
  not a snapshot of any state there was (unless the last one was removed).
\<close>

theorem shallow_copy_after_RemoveAP:
  assumes "world_ok W s" and "heap_op grow ip (OpRemoveAP name) s W = (None, s', W')"
  shows "abs_aps W' s' = remove_first (named name) (abs_aps W s) \<and>
    abs_aps W' s = remove_first (named name) (abs_aps W s) @ [last (abs_aps W s)]"
proof -
  obtain j A where j: "find_ap name W s = Some j" and A: "remove_at grow zero_cell j (w_aps W) s = (s', A)" "W' = W\<lparr>w_aps := A\<rparr>"
    using assms(2) by (auto split: option.splits if_splits prod.splits)
  note f = found_ap [OF assms(1) j]
  show ?thesis
    using heap_remove_ap [OF assms(1) _ A(1), of W'] f remove_first_index [of "named name" "abs_aps W s" j] by (simp add: A(2))
qed

theorem shallow_copy_after_RemoveAP_witness:
  "map ap_Name (abs_aps (snd (snd (heap_op (\<lambda>_ n. n) ''10.0.0.1'' (OpRemoveAP ''a'') three_slice three_aps))) three_slice) = [''b'', ''c'', ''c'']"
proof -
  let ?r = "heap_op (\<lambda>_ n. n) ''10.0.0.1'' (OpRemoveAP ''a'') three_slice three_aps"
  have "fst ?r = None" by code_simp
  then have "?r = (None, fst (snd ?r), snd (snd ?r))" by (metis prod.collapse)
  from shallow_copy_after_RemoveAP [OF three_aps_ok this]
  have "abs_aps (snd (snd ?r)) three_slice = remove_first (named ''a'') (abs_aps three_aps three_slice) @ [last (abs_aps three_aps three_slice)]"
    by blast
  moreover have "map ap_Name (remove_first (named ''a'') (abs_aps three_aps three_slice) @ [last (abs_aps three_aps three_slice)]) =
      [''b'', ''c'', ''c'']" by code_simp
  ultimately show ?thesis by simp
qed

end
