(* ===== verification/Rollout.thy ===== *)
theory Rollout
  imports Helper Mock
begin

text \<open>
  An update from its first download to the outcome the dashboard shows: the background run of
  \<^verbatim>\<open>internal/updater/updater.go\<close>, the document it leaves for the detached helper, the helper of
  \<^verbatim>\<open>internal/updater/helper.go\<close> that reads it back, and the result file that the restarted
  program reads. The JSON codec between the processes is a parameter; what is relied on is that
  decoding returns what was encoded.
\<close>

section \<open>Starting the helper\<close>

datatype helper_output = LogFile | Discarded

definition helper_args :: "string \<Rightarrow> string list" where
  \<comment> \<open>the running binary itself, so that a swap on disk does not change what the helper executes\<close>
  "helper_args cfgPath = [''/proc/self/exe'', ''-update-helper'', cfgPath]"

definition spawnHelper :: "bool \<Rightarrow> bool \<Rightarrow> string \<Rightarrow> (string list \<times> helper_output) option" where
  \<comment> \<open>whether the log file could be opened, and whether the command could be started\<close>
  "spawnHelper log_opens starts cfgPath =
     (let out = (if log_opens then LogFile else Discarded)
      in if starts then Some (helper_args cfgPath, out) else None)"

section \<open>The codec\<close>

record codec =
  dec_config :: "string \<Rightarrow> helper_config option"
  enc_result :: "result \<Rightarrow> string option"
  dec_result :: "string \<Rightarrow> result option"

definition codec_law :: "upd_env \<Rightarrow> codec \<Rightarrow> bool" where
  "codec_law env c \<longleftrightarrow>
     (\<forall>cfg doc. encode_config env cfg = Some doc \<longrightarrow> dec_config c doc = Some cfg) \<and>
     (\<forall>res doc. enc_result c res = Some doc \<longrightarrow> dec_result c doc = Some res)"

section \<open>The two processes one after the other\<close>

definition rollout :: "upd_env \<Rightarrow> helper_env \<Rightarrow> codec \<Rightarrow> int \<Rightarrow> release \<Rightarrow> nat \<Rightarrow> updater \<times> fs \<Rightarrow> bool \<times> updater \<times> fs" where
  \<comment> \<open>whether the helper ran; it starts at the given time, and its exit status is not looked at\<close>
  "rollout env henv c clock rel t us =
     (case run_update env rel us of
        (False, us1) \<Rightarrow> (False, us1)
      | (True, (u1, s1)) \<Rightarrow>
          (True, u1, snd (RunHelper henv (dec_config c) (enc_result c) clock (helper_path (fst us)) (t, s1))))"

section \<open>All paths of an update are different\<close>

lemma path_base_join: "CHR ''/'' \<notin> set n \<Longrightarrow> path_base (path_join d n) = n"
proof -
  assume "CHR ''/'' \<notin> set n"
  then have "takeWhile (\<lambda>c. c \<noteq> CHR ''/'') (rev n @ CHR ''/'' # rev d) = rev n"
    by (subst takeWhile_append2) auto
  then show ?thesis by (simp add: path_base_def path_join_def)
qed

lemma update_paths [simp]:
  "path_base (new_wlcsim u) = ''wlcsim.new''" "path_base (new_console u) = ''wlcsim-console.new''"
  "path_base (helper_path u) = ''helper.json''" "path_base (resultPath u) = ''last-result.json''"
  by (simp_all add: new_wlcsim_def new_console_def helper_path_def resultPath_def path_base_join)

lemma path_base_tmp: "path_base (path_join d n @ ''.tmp'') = n @ ''.tmp''" if "CHR ''/'' \<notin> set n"
proof -
  have "path_join d n @ ''.tmp'' = path_join d (n @ ''.tmp'')" by (simp add: path_join_def)
  then show ?thesis using path_base_join [of "n @ ''.tmp''" d] that by simp
qed

definition bin_names :: "string list" where
  "bin_names = [''wlcsim.new'', ''wlcsim'', ''wlcsim.bak'', ''wlcsim-console.new'', ''wlcsim-console'', ''wlcsim-console.bak'']"

lemma swap_path_names: "map path_base (concat (map swap_paths (helper_swaps u))) = bin_names"
  by (simp add: helper_swaps_def swap_paths_def bin_names_def path_base_join)

lemma helper_paths_distinct: "paths_distinct (helper_swaps u)"
proof -
  have "distinct (map path_base (concat (map swap_paths (helper_swaps u))))"
    unfolding swap_path_names by (simp add: bin_names_def)
  then show ?thesis by (simp add: paths_distinct_def distinct_map)
qed

lemma swap_path_base: "b \<in> set (helper_swaps u) \<Longrightarrow> p \<in> set (swap_paths b) \<Longrightarrow> path_base p \<in> set bin_names"
  unfolding swap_path_names [of u, symmetric] by auto

lemma other_paths:
  assumes "b \<in> set (helper_swaps u)" and "p \<in> set (swap_paths b)"
  shows "p \<noteq> helper_path u \<and> p \<noteq> helper_path u @ ''.tmp'' \<and> p \<noteq> resultPath u \<and> p \<noteq> resultPath u @ ''.tmp''"
proof -
  have "path_base (helper_path u @ ''.tmp'') = ''helper.json.tmp''" "path_base (resultPath u @ ''.tmp'') = ''last-result.json.tmp''"
    unfolding helper_path_def resultPath_def by (simp_all add: path_base_tmp)
  moreover have "path_base p \<notin> {''helper.json'', ''helper.json.tmp'', ''last-result.json'', ''last-result.json.tmp''}"
    using swap_path_base [OF assms] by (auto simp: bin_names_def)
  ultimately show ?thesis using update_paths(3,4) [of u] by auto
qed

lemma live_not_staged:
  assumes "b \<in> set (helper_swaps u)"
  shows "sw_Live b \<notin> staging u"
proof -
  have "path_base (sw_Live b) \<in> {''wlcsim'', ''wlcsim-console''}"
    using assms by (auto simp: helper_swaps_def path_base_join)
  then have "sw_Live b \<noteq> new_wlcsim u" "sw_Live b \<noteq> new_console u" by auto
  with other_paths [OF assms swap_paths_mem(2)] show ?thesis by (simp add: staging_def)
qed

section \<open>A process that died stays dead\<close>

lemma crash_stays:
  "crashed s \<Longrightarrow> crashed (snd (WriteFile p d s))" "crashed s \<Longrightarrow> crashed (snd (Rename a b s))"
  "crashed s \<Longrightarrow> crashed (snd (Remove p s))" "crashed s \<Longrightarrow> crashed (snd (MkdirAll s))"
  by (auto simp: WriteFile_def Rename_def Remove_def MkdirAll_def next_fault_def tick_def Let_def split: option.split)

lemma writeJSON_alive: "\<not> crashed (snd (writeJSON_data path doc s)) \<Longrightarrow> \<not> crashed s"
  using crash_stays by (auto simp: writeJSON_data_def Let_def split: option.splits prod.splits) (metis snd_conv)+

section \<open>The outcome\<close>

lemma RunHelper_result:
  assumes read: "ReadFile cfgPath s = Inr data" "dec data = Some cfg"
    and run: "runSequence henv cfg (t, s) = (res, t', s1)"
    and r: "RunHelper henv dec enc clock cfgPath (t, s) = (st, s2)"
  shows "st = 0 \<and> (\<not> crashed s2 \<longrightarrow> \<not> crashed s1) \<and>
    (\<forall>q. q \<noteq> hc_ResultPath cfg \<longrightarrow> q \<noteq> hc_ResultPath cfg @ ''.tmp'' \<longrightarrow> q \<noteq> cfgPath \<longrightarrow> files s2 q = files s1 q) \<and>
    (cfgPath \<noteq> hc_ResultPath cfg \<longrightarrow> no_faults s1 \<longrightarrow> enc (res\<lparr>res_Timestamp := clock\<rparr>) \<noteq> None \<longrightarrow>
      files s2 (hc_ResultPath cfg) = enc (res\<lparr>res_Timestamp := clock\<rparr>) \<and> files s2 cfgPath = None)"
proof -
  let ?doc = "enc (res\<lparr>res_Timestamp := clock\<rparr>)"
  obtain b s3 where w: "writeJSON_data (hc_ResultPath cfg) ?doc s1 = (b, s3)" by fastforce
  have s2: "st = 0" "s2 = snd (Remove cfgPath s3)" using read run r w by (auto simp: RunHelper_def)
  have "\<not> crashed s1" if "\<not> crashed s2"
    using that crash_stays(3) [of s3 cfgPath] writeJSON_alive [of "hc_ResultPath cfg" ?doc s1] w s2 by auto
  moreover have "files s2 q = files s1 q" if "q \<noteq> hc_ResultPath cfg" "q \<noteq> hc_ResultPath cfg @ ''.tmp''" "q \<noteq> cfgPath" for q
    using Remove_frame [of q cfgPath s3] writeJSON_data_frame [OF w] that s2 by simp
  moreover have "files s2 (hc_ResultPath cfg) = ?doc \<and> files s2 cfgPath = None"
    if "cfgPath \<noteq> hc_ResultPath cfg" "no_faults s1" "?doc \<noteq> None"
  proof -
    have b: "b" using writeJSON_data_ok [OF that(2,3), of "hc_ResultPath cfg"] w by auto
    have "no_faults s3" by (rule no_faults_writeJSON_data [OF w that(2)])
    then have "files s2 cfgPath = None" by (simp add: s2 no_faults_Remove)
    moreover have "files s2 (hc_ResultPath cfg) = files s3 (hc_ResultPath cfg)"
      using Remove_frame [of "hc_ResultPath cfg" cfgPath s3] that(1) s2 by simp
    ultimately show ?thesis using writeJSON_data_success [of "hc_ResultPath cfg" ?doc s1 s3] w b by auto
  qed
  ultimately show ?thesis using s2 by blast
qed

definition published :: "upd_env \<Rightarrow> release \<Rightarrow> string \<Rightarrow> string option \<Rightarrow> bool" where
  \<comment> \<open>contents whose digest the release's checksum file lists for the asset\<close>
  "published env rel asset c \<longleftrightarrow>
     (\<exists>cs sums data. find_asset rel ''checksums.txt'' = Some cs \<and> fetchChecksums env (as_URL cs) = Inr sums \<and>
        c = Some data \<and> sums asset = Some (sha256 env data))"

definition live_wlcsim :: "updater \<Rightarrow> string" where
  "live_wlcsim u = path_join (u_binDir u) ''wlcsim''"

definition live_console :: "updater \<Rightarrow> string" where
  "live_console u = path_join (u_binDir u) ''wlcsim-console''"

lemma swap_ends:
  "hd (helper_swaps u) \<in> set (helper_swaps u)" "last (helper_swaps u) \<in> set (helper_swaps u)"
  "sw_Live (hd (helper_swaps u)) = live_wlcsim u" "sw_Live (last (helper_swaps u)) = live_console u"
  "sw_New (hd (helper_swaps u)) = new_wlcsim u" "sw_New (last (helper_swaps u)) = new_console u"
  "\<forall>b \<in> set (helper_swaps u). b = hd (helper_swaps u) \<or> b = last (helper_swaps u)"
  by (simp_all add: helper_swaps_def live_wlcsim_def live_console_def)

lemma spawned_facts:
  assumes "run_update env rel (u, s) = (True, u', s1)"
  shows "(\<forall>q. q \<notin> staging u \<longrightarrow> files s1 q = files s q) \<and>
    (\<exists>suffix. published env rel (''wlcsim-'' @ suffix) (files s1 (new_wlcsim u)) \<and>
       published env rel (''wlcsim-console-'' @ suffix) (files s1 (new_console u))) \<and>
    (\<exists>doc. encode_config env (handoff_config rel u) = Some doc \<and> files s1 (helper_path u) = Some doc)"
proof -
  have "run_stage env rel (u, s) = (None, u', s1)"
    using assms by (auto simp: run_update_def split: prod.splits option.splits)
  from run_stage_result [OF this] show ?thesis unfolding published_def staged_ok_def by blast
qed

lemma rollout_spawned:
  assumes "rollout env henv c clock rel t (u, s) = (True, u', s2)"
  shows "\<exists>s1. run_update env rel (u, s) = (True, u', s1) \<and>
    s2 = snd (RunHelper henv (dec_config c) (enc_result c) clock (helper_path u) (t, s1))"
  using assms by (auto simp: rollout_def split: prod.splits bool.splits)

lemma no_faults_rename: "no_faults s \<Longrightarrow> Rename a b s = (e, s') \<Longrightarrow> no_faults s'"
  using no_faults_preserved(2) [of s a b] by simp

lemma no_faults_install_loop: "install_loop ds bs s = (r, s') \<Longrightarrow> no_faults s \<Longrightarrow> no_faults s'"
proof (induction ds bs s rule: install_loop.induct)
  case (2 ds b bs s)
  obtain e1 s1 where r1: "Rename (sw_Live b) (sw_Bak b) s = (e1, s1)" by fastforce
  obtain e2 s2 where r2: "Rename (sw_New b) (sw_Live b) s1 = (e2, s2)" by fastforce
  have nf: "no_faults s1" "no_faults s2" using no_faults_rename 2(3) r1 r2 2(4) by blast+
  show ?case
  proof (cases "e1 = Some IOFault \<or> e2 \<noteq> None")
    case True
    then show ?thesis using 2(3) r1 r2 nf by (cases e1; cases "the e1"; cases e2) auto
  next
    case False
    then have "e1 = None \<or> e1 = Some NotExist" "e2 = None" by (cases e1, auto) (metis fs_error.exhaust)
    then have "install_loop (ds @ [b]) bs s2 = (r, s')" using 2(3) r1 r2 by auto
    then show ?thesis using 2 r1 r2 nf \<open>e1 = None \<or> e1 = Some NotExist\<close> \<open>e2 = None\<close> by fastforce
  qed
qed simp

lemma no_faults_rollback: "rollback bs s = (n, s') \<Longrightarrow> no_faults s \<Longrightarrow> no_faults s'"
  by (induction bs arbitrary: n s) (auto simp: Let_def dest: no_faults_rename split: prod.splits)

lemma no_faults_runSequence:
  assumes "runSequence henv cfg (t, s) = (res, t', s')" and "no_faults s"
  shows "no_faults s'"
proof -
  obtain r s1 where i: "install_loop [] (hc_Binaries cfg) s = (r, s1)" by fastforce
  have nf: "no_faults s1" by (rule no_faults_install_loop [OF i assms(2)])
  have rb: "no_faults (snd (rollback bs s1))" for bs using no_faults_rollback [OF prod.collapse [symmetric] nf] .
  have "s' = s \<or> s' = s1 \<or> s' = snd (rollback (to_restore r) s1)"
    using assms(1) i
    by (auto simp: runSequence_def recoverFailure_def Let_def split: install_result.splits prod.splits if_splits)
  with assms(2) nf rb show ?thesis by auto
qed

lemma runSequence_about:
  assumes "runSequence henv cfg (t, s) = (res, t', s')"
  shows "res_Target res = hc_TargetVersion cfg \<and> res_Previous res = hc_PreviousVersion cfg"
  using assms
  by (auto simp: runSequence_def recoverFailure_def mk_result_def Let_def split: install_result.splits prod.splits if_splits)

lemma install_loop_clean:
  assumes "no_faults s" and "paths_distinct bs" and "\<forall>b \<in> set bs. files s (sw_New b) \<noteq> None \<and> files s (sw_Live b) \<noteq> None"
  shows "\<exists>s'. install_loop ds bs s = (Installed (ds @ bs), s')"
  using assms
proof (induction bs arbitrary: ds s)
  case (Cons b bs)
  have neq: "sw_Live b \<noteq> sw_Bak b" "sw_New b \<noteq> sw_Live b" "sw_New b \<noteq> sw_Bak b"
    using Cons.prems(2) by (auto simp: paths_distinct_Cons swap_paths_def)
  obtain l n where ln: "files s (sw_Live b) = Some l" "files s (sw_New b) = Some n" using Cons.prems(3) by auto
  obtain e1 s1 where r1: "Rename (sw_Live b) (sw_Bak b) s = (e1, s1)" by fastforce
  obtain e2 s2 where r2: "Rename (sw_New b) (sw_Live b) s1 = (e2, s2)" by fastforce
  have e1: "e1 = None" using no_faults_Rename [OF Cons.prems(1) ln(1) neq(1)] r1 by simp
  have nf1: "no_faults s1" by (rule no_faults_rename [OF Cons.prems(1) r1])
  have "files s1 (sw_New b) = Some n" using osfs.rename_frame [OF r1, of "sw_New b"] neq ln by simp
  then have e2: "e2 = None" using no_faults_Rename [OF nf1 _ neq(2)] r2 by simp
  have nf2: "no_faults s2" by (rule no_faults_rename [OF nf1 r2])
  have sep: "set (swap_paths b) \<inter> set (swap_paths x) = {}" if "x \<in> set bs" for x
    using Cons.prems(2) that by (auto simp: paths_distinct_Cons)
  have "files s2 p = files s p" if x: "x \<in> set bs" and p: "p \<in> set (swap_paths x)" for x p
    using rename_other [OF r2 swap_paths_mem(1,2) sep [OF x] p] rename_other [OF r1 swap_paths_mem(2,3) sep [OF x] p] by simp
  then have "\<forall>x \<in> set bs. files s2 (sw_New x) \<noteq> None \<and> files s2 (sw_Live x) \<noteq> None"
    using Cons.prems(3) by simp
  from Cons.IH [OF nf2 _ this, of "ds @ [b]"] Cons.prems(2) obtain s' where
    "install_loop (ds @ [b]) bs s2 = (Installed ((ds @ [b]) @ bs), s')" by (auto simp: paths_distinct_Cons)
  then show ?case using r1 r2 e1 e2 by simp
qed simp

definition goes_down :: "helper_env \<Rightarrow> helper_config \<Rightarrow> nat \<Rightarrow> bool \<times> nat" where
  \<comment> \<open>whether and when the stopped service no longer answers\<close>
  "goes_down henv cfg t = waitStopped henv (hc_HealthURL cfg) (hc_HealthTimeout cfg) (runService henv (hc_ServiceName cfg) ''stop'' t)"

definition comes_back :: "helper_env \<Rightarrow> helper_config \<Rightarrow> nat \<Rightarrow> bool" where
  \<comment> \<open>whether the service, started at that time, becomes healthy within the timeout\<close>
  "comes_back henv cfg t = fst (waitHealthy henv (hc_HealthURL cfg) (hc_HealthTimeout cfg) (runService henv (hc_ServiceName cfg) ''start'' t))"

lemma clean_cutover:
  assumes "runSequence henv cfg (t, s) = (res, t', s')" and "no_faults s" and "helper_ready cfg s"
    and "\<forall>b \<in> set (hc_Binaries cfg). files s (sw_New b) \<noteq> None"
    and "fst (goes_down henv cfg t)" and "comes_back henv cfg (snd (goes_down henv cfg t))"
  shows "res_Phase res = PhaseDone"
proof -
  obtain s1 where "install_loop [] (hc_Binaries cfg) s = (Installed (hc_Binaries cfg), s1)"
    using install_loop_clean [OF assms(2), of "hc_Binaries cfg" "[]"] assms(3,4) by (auto simp: helper_ready_def)
  then show ?thesis
    using assms(1,5,6)
    by (auto simp: runSequence_def Let_def goes_down_def comes_back_def mk_result_def split: prod.splits if_splits)
qed

text \<open>
  C5. One update from end to end, for every behaviour of the network, the service and the file system in which the helper
  does not die: whatever the helper reports is what happened to the two installed binaries. "Done" means that each
  is now a file whose digest the release's checksum file lists for it, with the previous one in its backup;
  "rolled back" and "nothing changed" mean that both are what they were before the download; in every case each previous binary
  is at its path or in its backup. Without file system faults, a service that stops and comes back healthy in time makes the
  outcome "done", the result is on disk, and the status of the restarted program shows it for fifteen minutes.
\<close>

theorem rollout_outcome:
  assumes law: "codec_law env c"
    and r: "rollout env henv c clock rel t (u, s) = (True, u', s2)"
    and live: "files s (live_wlcsim u) \<noteq> None" "files s (live_console u) \<noteq> None"
    and alive: "\<not> crashed s2"
  shows "\<exists>s1 res t' s'. run_update env rel (u, s) = (True, u', s1) \<and>
    runSequence henv (handoff_config rel u) (t, s1) = (res, t', s') \<and>
    res_Target res = rel_TagName rel \<and> res_Previous res = u_version u \<and>
    (res_Phase res = PhaseDone \<longrightarrow>
      (\<exists>suffix. published env rel (''wlcsim-'' @ suffix) (files s2 (live_wlcsim u)) \<and>
         published env rel (''wlcsim-console-'' @ suffix) (files s2 (live_console u))) \<and>
      (\<forall>b \<in> set (helper_swaps u). files s2 (sw_Bak b) = files s (sw_Live b))) \<and>
    (res_Phase res = PhaseRolledBack \<or> res_Message res = NothingChanged \<longrightarrow>
      (\<forall>b \<in> set (helper_swaps u). files s2 (sw_Live b) = files s (sw_Live b))) \<and>
    (\<forall>b \<in> set (helper_swaps u). files s2 (sw_Live b) = files s (sw_Live b) \<or> files s2 (sw_Bak b) = files s (sw_Live b)) \<and>
    (no_faults s1 \<longrightarrow> fst (goes_down henv (handoff_config rel u) t) \<longrightarrow>
      comes_back henv (handoff_config rel u) (snd (goes_down henv (handoff_config rel u) t)) \<longrightarrow> res_Phase res = PhaseDone) \<and>
    (no_faults s1 \<longrightarrow> enc_result c (res\<lparr>res_Timestamp := clock\<rparr>) \<noteq> None \<longrightarrow>
      (\<forall>v now. u_workDir v = u_workDir u \<longrightarrow> now - clock < resultTTL \<longrightarrow>
        st_LastResult (Status (dec_result c) now v s2) = Some (res\<lparr>res_Timestamp := clock\<rparr>)))"
proof -
  let ?cfg = "handoff_config rel u"
  obtain s1 where up: "run_update env rel (u, s) = (True, u', s1)"
    and s2: "s2 = snd (RunHelper henv (dec_config c) (enc_result c) clock (helper_path u) (t, s1))"
    using rollout_spawned [OF r] by blast
  note sp = spawned_facts [OF up]
  obtain doc where doc: "encode_config env ?cfg = Some doc" "files s1 (helper_path u) = Some doc" using sp by blast
  have read: "ReadFile (helper_path u) s1 = Inr doc" "dec_config c doc = Some ?cfg"
    using doc law by (simp_all add: ReadFile_def codec_law_def)
  obtain res t' s' where run: "runSequence henv ?cfg (t, s1) = (res, t', s')" by (metis surj_pair)
  obtain st where rh: "RunHelper henv (dec_config c) (enc_result c) clock (helper_path u) (t, s1) = (st, s2)"
    using s2 by (metis prod.collapse)
  note R = RunHelper_result [OF read run rh]
  have bins: "hc_Binaries ?cfg = helper_swaps u" and rp: "hc_ResultPath ?cfg = resultPath u"
    by (simp_all add: handoff_config_def)
  have old: "files s1 (sw_Live b) = files s (sw_Live b)" if "b \<in> set (helper_swaps u)" for b
    using sp live_not_staged [OF that] by blast
  have same: "files s2 p = files s' p" if "b \<in> set (helper_swaps u)" "p \<in> set (swap_paths b)" for b p
    using R other_paths [OF that] rp by simp
  have "files s1 (sw_Live b) \<noteq> None" if b: "b \<in> set (helper_swaps u)" for b
    using swap_ends(7) [of u] b swap_ends(3,4) [of u] live old [OF b] by metis
  then have ready: "helper_ready ?cfg s1" using helper_paths_distinct by (simp add: helper_ready_def bins)
  have "\<not> crashed s'" using R alive by blast
  note T = update_outcome_truthful_facts [OF run ready this, unfolded bins]
  have dn: "(\<exists>suffix. published env rel (''wlcsim-'' @ suffix) (files s2 (live_wlcsim u)) \<and>
         published env rel (''wlcsim-console-'' @ suffix) (files s2 (live_console u))) \<and>
      (\<forall>b \<in> set (helper_swaps u). files s2 (sw_Bak b) = files s (sw_Live b))" if "res_Phase res = PhaseDone"
  proof -
    have sw: "\<forall>b \<in> set (helper_swaps u). swapped (files s1) (files s') b" using T that by blast
    have l: "files s2 (sw_Live b) = files s1 (sw_New b)" "files s2 (sw_Bak b) = files s (sw_Live b)"
      if b: "b \<in> set (helper_swaps u)" for b
      using sw b same [OF b swap_paths_mem(2)] same [OF b swap_paths_mem(3)] old [OF b] by (simp_all add: swapped_def)
    have "files s2 (live_wlcsim u) = files s1 (new_wlcsim u)" "files s2 (live_console u) = files s1 (new_console u)"
      using l(1) [OF swap_ends(1)] l(1) [OF swap_ends(2)] by (simp_all add: swap_ends)
    with sp l(2) show ?thesis by auto
  qed
  have kept: "files s2 (sw_Live b) = files s (sw_Live b)"
    if "res_Phase res = PhaseRolledBack \<or> res_Message res = NothingChanged" "b \<in> set (helper_swaps u)" for b
    using T that same [OF that(2) swap_paths_mem(2)] old [OF that(2)] by auto
  have lost: "files s2 (sw_Live b) = files s (sw_Live b) \<or> files s2 (sw_Bak b) = files s (sw_Live b)"
    if b: "b \<in> set (helper_swaps u)" for b
    using no_binary_lost_facts [OF run ready, of b] b same [OF b swap_paths_mem(2)] same [OF b swap_paths_mem(3)] old [OF b]
    by (simp add: bins)
  have clean: "res_Phase res = PhaseDone" if "no_faults s1" "fst (goes_down henv ?cfg t)" "comes_back henv ?cfg (snd (goes_down henv ?cfg t))"
  proof (rule clean_cutover [OF run that(1) ready _ that(2,3)], rule ballI)
    fix b assume "b \<in> set (hc_Binaries ?cfg)"
    then show "files s1 (sw_New b) \<noteq> None"
      using swap_ends(5,6,7) [of u] sp unfolding bins published_def by (metis option.distinct(1))
  qed
  have status: "st_LastResult (Status (dec_result c) now v s2) = Some (res\<lparr>res_Timestamp := clock\<rparr>)"
    if st: "no_faults s1" "enc_result c (res\<lparr>res_Timestamp := clock\<rparr>) \<noteq> None" "u_workDir v = u_workDir u" "now - clock < resultTTL" for v now
  proof -
    have "no_faults s'" by (rule no_faults_runSequence [OF run st(1)])
    moreover have "helper_path u \<noteq> resultPath u" by (simp add: helper_path_def resultPath_def path_join_def)
    ultimately have f: "files s2 (resultPath u) = enc_result c (res\<lparr>res_Timestamp := clock\<rparr>)"
      using R st(2) rp by metis
    obtain d where d: "enc_result c (res\<lparr>res_Timestamp := clock\<rparr>) = Some d" using st(2) by blast
    then have "dec_result c d = Some (res\<lparr>res_Timestamp := clock\<rparr>)" using law by (simp add: codec_law_def)
    moreover have "resultPath v = resultPath u" using st(3) by (simp add: resultPath_def)
    ultimately show ?thesis using f d st(4) by (simp add: Status_def readResult_def ReadFile_def)
  qed
  have about: "res_Target res = rel_TagName rel" "res_Previous res = u_version u"
    using runSequence_about [OF run] by (simp_all add: handoff_config_def)
  show ?thesis
    by (intro exI conjI, rule up, rule run, rule about(1), rule about(2)) (use dn kept lost clean status in blast)+
qed

definition busy_updater :: updater where
  "busy_updater = demo_updater\<lparr>u_busy := True\<rparr>"

definition demo_handoff :: helper_config where
  "demo_handoff = handoff_config demo_release busy_updater"

definition demo_result :: result where
  "demo_result = (mk_result demo_handoff PhaseDone (UpdatedTo ''v1.2.0''))\<lparr>res_Timestamp := 7\<rparr>"

definition demo_codec :: codec where
  \<comment> \<open>a codec for the two documents of the sample run\<close>
  "demo_codec = \<lparr>dec_config = (\<lambda>d. if d = ''cfg'' then Some demo_handoff else None),
     enc_result = (\<lambda>r. if r = demo_result then Some ''res'' else None),
     dec_result = (\<lambda>d. if d = ''res'' then Some demo_result else None)\<rparr>"

definition rollout_env :: upd_env where
  "rollout_env = demo_env\<lparr>
     http_get := (\<lambda>u. if u = ''u2'' then HttpResponse 200 ''bb'' True else http_get demo_env u),
     encode_config := (\<lambda>c. if c = demo_handoff then Some ''cfg'' else None)\<rparr>"

definition restart_env :: helper_env where
  \<comment> \<open>every command takes a second; the service answers again one and a half seconds after the start\<close>
  "restart_env = \<lparr>service_cmd = (\<lambda>_ _ _. (True, 1000)), health = (\<lambda>_ t. (0, if t < 1500 then None else Some 200))\<rparr>"

definition installed_files :: fs where
  "installed_files = empty_fs\<lparr>files := [''/bin/wlcsim'' \<mapsto> ''old1'', ''/bin/wlcsim-console'' \<mapsto> ''old2'']\<rparr>"

lemma demo_codec_law: "codec_law rollout_env demo_codec"
  by (auto simp: codec_law_def rollout_env_def demo_codec_def split: if_splits)

lemma demo_update:
  "\<exists>u' s1. run_update rollout_env demo_release (busy_updater, installed_files) = (True, u', s1) \<and> no_faults s1"
proof -
  have nf: "no_faults installed_files" by (simp add: installed_files_def)
  have asset: "find_asset demo_release (''wlcsim-'' @ ''linux-amd64'') = Some \<lparr>as_Name = ''wlcsim-linux-amd64'', as_URL = ''u1'', as_Size = 1\<rparr>"
    "find_asset demo_release (''wlcsim-console-'' @ ''linux-amd64'') = Some \<lparr>as_Name = ''wlcsim-console-linux-amd64'', as_URL = ''u2'', as_Size = 1\<rparr>"
    "find_asset demo_release ''checksums.txt'' = Some \<lparr>as_Name = ''checksums.txt'', as_URL = ''u3'', as_Size = 1\<rparr>"
    by (simp_all add: find_asset_def demo_release_def)
  have web: "http_get rollout_env ''u1'' = HttpResponse 200 ''aa'' True" "http_get rollout_env ''u2'' = HttpResponse 200 ''bb'' True"
    "archAssetSuffix (goarch rollout_env) = Some ''linux-amd64''" "spawn_ok rollout_env" "sha256 rollout_env = (\<lambda>d. d)"
    "encode_config rollout_env (handoff_config demo_release busy_updater) \<noteq> None"
    by (simp_all add: rollout_env_def demo_env_def archAssetSuffix_def demo_handoff_def)
  have "fetchChecksums rollout_env ''u3'' = fetchChecksums demo_env ''u3''"
    by (simp add: fetchChecksums_def rollout_env_def)
  moreover have "(case fetchChecksums demo_env ''u3'' of Inl _ \<Rightarrow> False
      | Inr m \<Rightarrow> m ''wlcsim-linux-amd64'' = Some ''aa'' \<and> m ''wlcsim-console-linux-amd64'' = Some ''bb'')" by code_simp
  ultimately obtain sums where sums: "fetchChecksums rollout_env ''u3'' = Inr sums"
    "sums ''wlcsim-linux-amd64'' = Some ''aa''" "sums ''wlcsim-console-linux-amd64'' = Some ''bb''"
    by (auto split: sum.splits)
  obtain u' s1 where st: "run_stage rollout_env demo_release (busy_updater, installed_files) = (None, u', s1)"
    using run_stage_ok [OF web(3) asset(1) _ _ _ asset(2) _ _ _ asset(3), of "''aa''" sums "''bb''" busy_updater installed_files]
      web sums nf by (auto simp: maxDownloadBytes_def)
  from no_faults_run_stage [OF st nf] st show ?thesis by (simp add: run_update_def)
qed

lemma demo_service:
  "fst (goes_down restart_env demo_handoff 0)" "comes_back restart_env demo_handoff (snd (goes_down restart_env demo_handoff 0))"
  by (simp_all add: goes_down_def comes_back_def waitStopped_def waitHealthy_def runService_def restart_env_def
      poll_stopped.simps poll_healthy.simps timeout_ms_def demo_handoff_def handoff_config_def healthTimeoutSec_def)

lemma no_faults_RunHelper:
  assumes "no_faults s"
  shows "no_faults (snd (RunHelper henv dec enc clock p (t, s)))"
proof -
  have "no_faults (snd (Remove p (snd (writeJSON_data q d s1))))" if "runSequence henv cfg (t, s) = (res, t', s1)" for q d s1 cfg res t'
    using no_faults_preserved(3) no_faults_writeJSON_data [OF prod.collapse [symmetric]] no_faults_runSequence [OF that assms] by blast
  with assms show ?thesis by (auto simp: RunHelper_def split: sum.split option.split prod.split)
qed

theorem rollout_outcome_witness:
  "\<exists>suffix. published rollout_env demo_release (''wlcsim-'' @ suffix)
     (files (snd (snd (rollout rollout_env restart_env demo_codec 7 demo_release 0 (busy_updater, installed_files)))) ''/bin/wlcsim'')"
proof -
  let ?r = "rollout rollout_env restart_env demo_codec 7 demo_release 0 (busy_updater, installed_files)"
  obtain u' s1 where up: "run_update rollout_env demo_release (busy_updater, installed_files) = (True, u', s1)" "no_faults s1"
    using demo_update by blast
  let ?s2 = "snd (RunHelper restart_env (dec_config demo_codec) (enc_result demo_codec) 7 (helper_path busy_updater) (0, s1))"
  have r: "?r = (True, u', ?s2)" by (simp add: rollout_def up)
  have "\<not> crashed ?s2" using no_faults_RunHelper [OF up(2)] by (simp add: no_faults_def)
  have l: "live_wlcsim busy_updater = ''/bin/wlcsim''" "live_console busy_updater = ''/bin/wlcsim-console''" by code_simp+
  then have live: "files installed_files (live_wlcsim busy_updater) \<noteq> None" "files installed_files (live_console busy_updater) \<noteq> None"
    by (simp_all add: installed_files_def)
  note O = rollout_outcome [OF demo_codec_law r live \<open>\<not> crashed ?s2\<close>]
  with up demo_service show ?thesis unfolding l r demo_handoff_def by auto
qed

end
