(* ===== verification/Platform.thy ===== *)
theory Platform
  imports Updater "HOL-Library.Word"
begin

text \<open>
  The files of \<^verbatim>\<open>internal/updater\<close> that differ between builds: the free space of a file
  system, from the counters of the Linux call or a constant elsewhere
  (\<^verbatim>\<open>diskspace_linux.go\<close>, \<^verbatim>\<open>diskspace_other.go\<close>), and the address of the
  release API, which only a test build takes from its environment
  (\<^verbatim>\<open>apibase_testhook.go\<close>).
\<close>

section \<open>Free space\<close>

record statfs =
  Bavail :: "64 word"
  Bsize :: "64 word"     \<comment> \<open>signed in the structure, converted before the product\<close>

definition freeBytes_linux :: "statfs option \<Rightarrow> 64 word option" where
  \<comment> \<open>None: the call failed\<close>
  "freeBytes_linux st = map_option (\<lambda>x. Bavail x * Bsize x) st"

definition freeBytes_other :: "64 word option" where
  "freeBytes_other = Some (push_bit 50 1)"

datatype build = LinuxBuild | OtherBuild

definition freeBytes :: "build \<Rightarrow> statfs option \<Rightarrow> 64 word option" where
  "freeBytes b st = (case b of LinuxBuild \<Rightarrow> freeBytes_linux st | OtherBuild \<Rightarrow> freeBytes_other)"

lemma uint_freeBytes_linux:
  "uint (Bavail x) * uint (Bsize x) < 2 ^ 64 \<Longrightarrow> map_option uint (freeBytes_linux (Some x)) = Some (uint (Bavail x) * uint (Bsize x))"
  by (simp add: freeBytes_linux_def uint_word_ariths take_bit_int_eq_self)

lemma Apply_space:
  assumes "u_appliance u" and "\<not> u_busy u" and "releaseForApply env now (u\<lparr>u_busy := True\<rparr>) = (Inr rel, u1)"
    and "archAssetSuffix (goarch env) \<noteq> None"
  shows "fst (Apply env now u) = (case free_bytes env (u_binDir u1) of
     Some free \<Rightarrow> if free < minFreeBytes then Inl ErrInsufficientSpace else Inr rel | None \<Rightarrow> Inr rel)"
  using assms by (simp add: Apply_def apply_checks_def split: option.split)

text \<open>
  C31. The space check of \<^verbatim>\<open>Apply\<close> against the counters of the file system, in the machine's
  64-bit arithmetic: while the product of free blocks and block size fits, an update that passes the other checks
  is refused for lack of space exactly when fewer than 150 MB are free; a failing call never refuses it,
  nor does any build but the one for Linux.
\<close>

theorem space_check_exact:
  assumes "u_appliance u" and "\<not> u_busy u" and "releaseForApply env now (u\<lparr>u_busy := True\<rparr>) = (Inr rel, u1)"
    and "archAssetSuffix (goarch env) \<noteq> None"
    and "free_bytes env (u_binDir u1) = map_option uint (freeBytes b st)"
    and "\<forall>x. st = Some x \<longrightarrow> uint (Bavail x) * uint (Bsize x) < 2 ^ 64"
  shows "fst (Apply env now u) =
    (if b = LinuxBuild \<and> (\<exists>x. st = Some x \<and> uint (Bavail x) * uint (Bsize x) < 150 * 1024 * 1024)
     then Inl ErrInsufficientSpace else Inr rel)"
proof (cases b)
  case LinuxBuild
  show ?thesis
  proof (cases st)
    case None
    with LinuxBuild show ?thesis unfolding Apply_space [OF assms(1-4)] assms(5) by (simp add: freeBytes_def freeBytes_linux_def)
  next
    case (Some x)
    obtain w where "freeBytes_linux (Some x) = Some w" "uint w = uint (Bavail x) * uint (Bsize x)"
      using uint_freeBytes_linux [of x] assms(6) Some by auto
    with LinuxBuild Some show ?thesis
      unfolding Apply_space [OF assms(1-4)] assms(5) by (simp add: freeBytes_def minFreeBytes_def)
  qed
next
  case OtherBuild
  then show ?thesis
    unfolding Apply_space [OF assms(1-4)] assms(5) by (simp add: freeBytes_def freeBytes_other_def minFreeBytes_def)
qed

definition full_disk :: statfs where
  "full_disk = \<lparr>Bavail = 10000, Bsize = 4096\<rparr>"

definition full_env :: upd_env where
  "full_env = demo_env\<lparr>free_bytes := (\<lambda>_. map_option uint (freeBytes LinuxBuild (Some full_disk)))\<rparr>"

theorem space_check_exact_witness:
  "fst (Apply full_env 100 (demo_updater\<lparr>u_latest := Some demo_release\<rparr>)) = Inl ErrInsufficientSpace"
proof -
  let ?u = "demo_updater\<lparr>u_latest := Some demo_release\<rparr>"
  have "isNewer (rel_TagName demo_release) (u_version demo_updater)" by code_simp
  then have r: "releaseForApply full_env 100 (?u\<lparr>u_busy := True\<rparr>) = (Inr demo_release, ?u\<lparr>u_busy := True\<rparr>)"
    by (simp add: releaseForApply_def Let_def)
  have a: "u_appliance ?u" "\<not> u_busy ?u" by (simp_all add: demo_updater_def NewUpdater_def)
  have s: "archAssetSuffix (goarch full_env) \<noteq> None" by (simp add: full_env_def demo_env_def archAssetSuffix_def)
  from space_check_exact [OF a r s, of LinuxBuild "Some full_disk"] show ?thesis
    by (simp add: full_env_def full_disk_def)
qed

text \<open>Beyond that the product wraps: four exabytes free, in blocks of four kilobytes, count as nothing.\<close>

lemma free_space_wraps: "freeBytes_linux (Some \<lparr>Bavail = 4503599627370496, Bsize = 4096\<rparr>) = Some 0"
  by (simp add: freeBytes_linux_def)

section \<open>The release API\<close>

definition apiBaseURL :: string where
  "apiBaseURL = ''https://api.github.com''"

definition api_base :: "bool \<Rightarrow> string option \<Rightarrow> string" where
  \<comment> \<open>the build tag, and the environment variable, if set\<close>
  "api_base tagged v = (if tagged \<and> v \<noteq> None \<and> v \<noteq> Some [] then the v else apiBaseURL)"

definition release_url :: "string \<Rightarrow> string \<Rightarrow> string" where
  "release_url base repo = base @ ''/repos/'' @ repo @ ''/releases/latest''"

lemma production_asks_GitHub: "release_url (api_base False v) repo = latest_url repo"
  by (simp add: release_url_def api_base_def apiBaseURL_def latest_url_def)

lemma test_build_asks_mock: "v = Some (c # cs) \<Longrightarrow> release_url (api_base True v) repo = (c # cs) @ ''/repos/'' @ repo @ ''/releases/latest''"
  by (simp add: release_url_def api_base_def)

end
