(* ===== verification/TftpSites.thy ===== *)
theory TftpSites
  imports Tftp
begin

text \<open>
  \<^verbatim>\<open>internal/tftpsim/server.go\<close> again, together with the object it serves from: an
  instance keeps the \<^verbatim>\<open>*device.Device\<close> of the call that started it, while the manager finds an
  instance by address. Removing a site does not reach the manager, so a site that takes over an
  address meets the instance of its predecessor. The events of one address are in sequence here;
  each is preceded by the time that has passed, in which an idle instance ends.
\<close>

section \<open>Instances and the objects they serve\<close>

record tftp_sites =
  ts_mgr :: manager
  ts_dev :: "nat \<Rightarrow> device option"   \<comment> \<open>the object an instance was started with\<close>

definition ensure_for :: "bool \<Rightarrow> device \<Rightarrow> tftp_sites \<Rightarrow> tftp_sites" where
  \<comment> \<open>\<^verbatim>\<open>EnsureRunning(dev)\<close>; \<open>ok\<close> tells whether a new instance can listen\<close>
  "ensure_for ok d t =
     (let (running, m) = ensure_check (d_IP d) (ts_mgr t)
      in if running then t\<lparr>ts_mgr := m\<rparr>
         else (let (i, m1) = run_start (d_IP d) m
               in t\<lparr>ts_mgr := run_listen ok i m1, ts_dev := (ts_dev t)(i \<mapsto> d)\<rparr>))"

definition elapse :: "int \<Rightarrow> string \<Rightarrow> tftp_sites \<Rightarrow> tftp_sites" where
  \<comment> \<open>time passes without a request; the instance of the address ends when its timer fires\<close>
  "elapse dt ip t =
     (let m = (ts_mgr t)\<lparr>mg_now := mg_now (ts_mgr t) + dt\<rparr>
      in case mg_inst m ip of
           None \<Rightarrow> t\<lparr>ts_mgr := m\<rparr>
         | Some i \<Rightarrow>
             (case mg_all m i of
                None \<Rightarrow> t\<lparr>ts_mgr := m\<rparr>
              | Some x \<Rightarrow> if in_deadline x \<le> mg_now m then t\<lparr>ts_mgr := run_delete i (run_close i m)\<rparr> else t\<lparr>ts_mgr := m\<rparr>))"

datatype tftp_event =
    Copy bool device                          \<comment> \<open>a copy on the command line of a site asks for the server\<close>
  | Fetch int "string option" string          \<comment> \<open>a client reads a file: the time, its address, the name\<close>

fun serve_event :: "render_env \<Rightarrow> string \<Rightarrow> tftp_event \<Rightarrow> tftp_sites \<times> store \<Rightarrow> panic + (string option \<times> tftp_sites \<times> store)" where
  \<comment> \<open>what a client that reads is offered: nothing when nobody listens at the address\<close>
  "serve_event env ip (Copy ok d) (t, logs) = Inr (None, ensure_for ok d t, logs)"
| "serve_event env ip (Fetch now remote filename) (t, logs) =
     (case mg_inst (ts_mgr t) ip of
        None \<Rightarrow> Inr (None, t, logs)
      | Some i \<Rightarrow>
          (case ts_dev t i of
             None \<Rightarrow> Inr (None, t, logs)
           | Some d \<Rightarrow>
               on_ok (\<lambda>(config, d', logs', m'). Inr (Some config, t\<lparr>ts_mgr := m', ts_dev := (ts_dev t)(i \<mapsto> d')\<rparr>, logs'))
                 (readHandler env now remote filename i (d, logs, ts_mgr t))))"

fun serve_events :: "render_env \<Rightarrow> string \<Rightarrow> (int \<times> tftp_event) list \<Rightarrow> tftp_sites \<times> store \<Rightarrow>
    panic + (string option list \<times> tftp_sites \<times> store)" where
  "serve_events env ip [] ts = Inr ([], ts)"
| "serve_events env ip ((dt, ev) # evs) ts =
     on_ok (\<lambda>(r, t1, l1). on_ok (\<lambda>(rs, ts2). Inr (r # rs, ts2)) (serve_events env ip evs (t1, l1)))
       (serve_event env ip ev (elapse dt ip (fst ts), snd ts))"

section \<open>Properties\<close>

definition held :: "string \<Rightarrow> nat \<Rightarrow> tftp_sites \<Rightarrow> bool" where
  \<comment> \<open>the instance has the address and its timer is fresh\<close>
  "held ip i t \<longleftrightarrow> mg_inst (ts_mgr t) ip = Some i \<and>
     (\<exists>x. mg_all (ts_mgr t) i = Some x \<and> in_IP x = ip \<and> in_deadline x = mg_now (ts_mgr t) + idleTimeout)"

lemma elapse_held:
  assumes "held ip i t" and "dt < idleTimeout"
  shows "elapse dt ip t = t\<lparr>ts_mgr := (ts_mgr t)\<lparr>mg_now := mg_now (ts_mgr t) + dt\<rparr>\<rparr>"
  using assms by (auto simp: held_def elapse_def Let_def)

lemma elapse_gone:
  assumes "held ip i t" and "idleTimeout \<le> dt"
  shows "mg_inst (ts_mgr (elapse dt ip t)) ip = None"
  using assms by (auto simp: held_def elapse_def Let_def run_delete_def run_close_def)

lemma RunningConfig_cached: "d_cachedConfig d \<noteq> [] \<Longrightarrow> RunningConfig env d = (d_cachedConfig d, d)"
  by (simp add: RunningConfig_def)

lemma ensure_first:
  "mg_inst (ts_mgr t) (d_IP d) = None \<Longrightarrow>
     held (d_IP d) (mg_next (ts_mgr t)) (ensure_for True d t) \<and> ts_dev (ensure_for True d t) (mg_next (ts_mgr t)) = Some d"
  by (simp add: held_def ensure_for_def ensure_check_def run_start_def run_listen_def set_instance_def Let_def)

fun quick :: "string \<Rightarrow> int \<times> tftp_event \<Rightarrow> bool" where
  \<comment> \<open>an event at the address before the timer fires\<close>
  "quick ip (dt, ev) \<longleftrightarrow> 0 \<le> dt \<and> dt < idleTimeout \<and> (case ev of Copy ok d \<Rightarrow> d_IP d = ip | Fetch _ _ _ \<Rightarrow> True)"

definition offered :: "device \<Rightarrow> tftp_event \<Rightarrow> string option" where
  "offered d ev = (case ev of Copy _ _ \<Rightarrow> None | Fetch _ _ _ \<Rightarrow> Some (d_cachedConfig d))"

lemma serve_event_held:
  assumes held: "held ip i t" and dev: "ts_dev t i = Some d" "d_cachedConfig d \<noteq> []"
    and quick: "quick ip (dt, ev)" and logs: "store_wf logs"
  shows "\<exists>t' logs'. serve_event env ip ev (elapse dt ip t, logs) = Inr (offered d ev, t', logs') \<and>
    held ip i t' \<and> ts_dev t' i = Some d \<and> store_wf logs'"
proof -
  define m where "m = (ts_mgr t)\<lparr>mg_now := mg_now (ts_mgr t) + dt\<rparr>"
  have e: "elapse dt ip t = t\<lparr>ts_mgr := m\<rparr>"
    using elapse_held [OF held] quick by (simp add: m_def)
  obtain x where m: "mg_inst m ip = Some i" "mg_all m i = Some x" "in_IP x = ip"
    using held by (auto simp: held_def m_def)
  have h: "held ip i (t\<lparr>ts_mgr := touch i m\<rparr>)" "held ip i (t\<lparr>ts_mgr := touch i (touch i m), ts_dev := (ts_dev t)(i \<mapsto> d)\<rparr>)"
    using m by (simp_all add: held_def touch_def)
  show ?thesis
  proof (cases ev)
    case (Copy ok d')
    with quick m h(1) dev logs show ?thesis
      by (simp add: e ensure_for_def ensure_check_def offered_def)
  next
    case (Fetch now remote filename)
    with m h(2) dev logs Add_result [OF logs] show ?thesis
      by (simp add: e readHandler_def Let_def RunningConfig_cached StartupConfig_def offered_def)
  qed
qed

lemma serve_events_held:
  "held ip i t \<Longrightarrow> ts_dev t i = Some d \<Longrightarrow> d_cachedConfig d \<noteq> [] \<Longrightarrow> list_all (quick ip) evs \<Longrightarrow> store_wf logs \<Longrightarrow>
     \<exists>t' logs'. serve_events env ip evs (t, logs) = Inr (map (\<lambda>(dt, ev). offered d ev) evs, t', logs') \<and>
       held ip i t' \<and> ts_dev t' i = Some d \<and> store_wf logs'"
proof (induction evs arbitrary: t logs)
  case (Cons ev evs)
  obtain dt e where ev: "ev = (dt, e)" by (cases ev)
  with Cons.prems obtain t1 l1 where 1: "serve_event env ip e (elapse dt ip t, logs) = Inr (offered d e, t1, l1)"
      "held ip i t1" "ts_dev t1 i = Some d" "store_wf l1"
    using serve_event_held [of ip i t d dt e logs env] by auto
  with Cons.IH [of t1 l1] Cons.prems ev show ?case by auto
qed simp

text \<open>
  C28. A site that takes over the address of a removed one does not reach the TFTP server while the
  old instance is in use: as long as no thirty seconds pass without an event there, every file
  fetched from the address is the old site's configuration, however often the new site's own copy
  commands ask for its server. After thirty idle seconds the next request starts a server that
  does serve the site that asked.
\<close>

theorem replaced_site_serves_old_config:
  assumes free: "mg_inst (ts_mgr t) (d_IP old) = None" and rendered: "d_cachedConfig old \<noteq> []"
    and events: "list_all (quick (d_IP old)) evs" and logs: "store_wf logs"
    and heir: "d_IP new = d_IP old" "d_cachedConfig new \<noteq> []"
  shows "\<exists>t' logs'. serve_events env (d_IP old) evs (ensure_for True old t, logs) =
      Inr (map (\<lambda>(dt, ev). offered old ev) evs, t', logs') \<and>
    (\<forall>dt \<ge> idleTimeout. \<exists>t'' logs''. serve_events env (d_IP old) [(dt, Copy True new), (0, Fetch now remote file)] (t', logs') =
      Inr ([None, Some (d_cachedConfig new)], t'', logs''))"
proof -
  define ip where "ip = d_IP old"
  define i where "i = mg_next (ts_mgr t)"
  have "held ip i (ensure_for True old t)" "ts_dev (ensure_for True old t) i = Some old"
    using ensure_first [OF free] by (simp_all add: ip_def i_def)
  from serve_events_held [OF this rendered events [folded ip_def] logs, of env] obtain t' logs' where
    t': "serve_events env ip evs (ensure_for True old t, logs) = Inr (map (\<lambda>(dt, ev). offered old ev) evs, t', logs')"
      "held ip i t'" "store_wf logs'" by blast
  have "\<exists>t'' logs''. serve_events env ip [(dt, Copy True new), (0, Fetch now remote file)] (t', logs') =
      Inr ([None, Some (d_cachedConfig new)], t'', logs'')" if "dt \<ge> idleTimeout" for dt
  proof -
    define u where "u = ensure_for True new (elapse dt ip t')"
    define j where "j = mg_next (ts_mgr (elapse dt ip t'))"
    have "held ip j u" "ts_dev u j = Some new"
      using ensure_first [of "elapse dt ip t'" new] elapse_gone [OF t'(2) that] heir(1)
      by (simp_all add: u_def j_def ip_def)
    from serve_event_held [OF this heir(2) _ t'(3), of 0 "Fetch now remote file" env]
    obtain t'' logs'' where "serve_event env ip (Fetch now remote file) (elapse 0 ip u, logs') =
        Inr (Some (d_cachedConfig new), t'', logs'')"
      by (auto simp: idleTimeout_def offered_def)
    then show ?thesis by (simp add: u_def del: serve_event.simps(2))
  qed
  with t'(1) show ?thesis unfolding ip_def by blast
qed

definition site_of :: "string \<Rightarrow> string \<Rightarrow> device" where
  "site_of host config = empty_device\<lparr>d_Hostname := host, d_IP := ''10.0.0.1'', d_cachedConfig := config\<rparr>"

theorem replaced_site_serves_old_config_witness:
  "\<forall>env. \<exists>t' logs'. serve_events env (d_IP (site_of ''a'' ''old''))
      [(5, Copy True (site_of ''b'' ''new'')), (10, Fetch 15 None ''running-config'')]
      (ensure_for True (site_of ''a'' ''old'') \<lparr>ts_mgr = NewManager 0, ts_dev = (\<lambda>_. None)\<rparr>, sample_store) =
    Inr ([None, Some ''old''], t', logs')"
proof
  fix env
  let ?t = "\<lparr>ts_mgr = NewManager 0, ts_dev = (\<lambda>_. None)\<rparr>"
  let ?evs = "[(5::int, Copy True (site_of ''b'' ''new'')), (10, Fetch 15 None ''running-config'')]"
  have "mg_inst (ts_mgr ?t) (d_IP (site_of ''a'' ''old'')) = None" "d_cachedConfig (site_of ''a'' ''old'') \<noteq> []"
      "list_all (quick (d_IP (site_of ''a'' ''old''))) ?evs" "d_IP (site_of ''b'' ''new'') = d_IP (site_of ''a'' ''old'')"
      "d_cachedConfig (site_of ''b'' ''new'') \<noteq> []"
    by (simp_all add: NewManager_def site_of_def idleTimeout_def)
  from replaced_site_serves_old_config [OF this(1,2,3) sample_store_wf this(4,5), of env 45 None "[]"]
  have "\<exists>t' logs'. serve_events env (d_IP (site_of ''a'' ''old'')) ?evs (ensure_for True (site_of ''a'' ''old'') ?t, sample_store) =
      Inr (map (\<lambda>(dt, ev). offered (site_of ''a'' ''old'') ev) ?evs, t', logs')" by blast
  moreover have "map (\<lambda>(dt, ev). offered (site_of ''a'' ''old'') ev) ?evs = [None, Some ''old'']"
    by (simp add: offered_def site_of_def)
  ultimately show "\<exists>t' logs'. serve_events env (d_IP (site_of ''a'' ''old'')) ?evs
      (ensure_for True (site_of ''a'' ''old'') ?t, sample_store) = Inr ([None, Some ''old''], t', logs')" by simp
qed

end
