(* ===== verification/Spec2Isabelle.thy ===== *)
theory Spec2Isabelle
  imports Simulator AccessLog Helper Shell Restconf Tftp Snmp Dashboard Boot Console Mock Connection
    Listeners Slices Rollout Platform TftpSites
begin

text \<open>
  A verification development for the Cisco WLC simulator, a Go program that serves any number of
  simulated wireless controllers from one process. A controller (a site) has an address of its own,
  access points and clients, and answers RESTCONF over HTTPS, SSH, SNMP and, when a copy asks for
  it, TFTP. A dashboard changes the sites at run time, every change is saved to a state file, all
  servers record their requests in one access log, and on its appliance the program replaces its own
  binaries with a newer release.

  Parts and theories, in the order of their imports:

  \<^item> \<open>Prelude\<close> and \<open>GoStrings\<close>: first-match loops, runtime panics as values of a sum, and the parts of
    the packages strings, strconv and fmt that the program uses.
  \<^item> \<open>Version\<close> (\<^verbatim>\<open>internal/updater/version.go\<close>): lenient versions and their order; the order is an
    instance of the class linorder and interprets the contract the updater needs of it.
  \<^item> \<open>AccessLog\<close> (\<^verbatim>\<open>internal/accesslog\<close>): the ring buffer and its subscribers. Adding is cut into its three
    phases, run alone and interleaved; a channel is a buffer and a closed flag.
  \<^item> \<open>FileSystem\<close>: file operations on a map from paths to contents, any of which may be refused or
    interrupted by a crash; the contract of atomic replacement is a locale.
  \<^item> \<open>Device\<close> (\<^verbatim>\<open>internal/device\<close>) and \<open>Config\<close> (\<^verbatim>\<open>internal/config\<close>): the records of controllers,
    the default access point, the running configuration, defaults, loading and saving.
  \<^item> \<open>Network\<close> (\<^verbatim>\<open>internal/network\<close>): IP aliases, the choice of free addresses and the packets that announce
    them, over a host that is a parameter.
  \<^item> \<open>Simulator\<close> (\<^verbatim>\<open>internal/simulator\<close>): the state that everything shares, namely sites, handles of the
    running server groups, credentials and the state file. Each critical section is one
    function; requests are a datatype, runs a step relation.
  \<^item> \<open>Listeners\<close> (the \<^verbatim>\<open>Serve\<close> functions of \<^verbatim>\<open>internal/restconf\<close>, \<^verbatim>\<open>internal/sshsim\<close> and
    \<^verbatim>\<open>internal/snmp\<close> up to the point where they listen, and \<^verbatim>\<open>startDeviceServers\<close>): the three servers of each
    group with their sockets, which follow the simulator step by step; a launched server gets going at
    any later time. The certificate of the HTTPS server is here too.
  \<^item> \<open>Slices\<close>: the site operations of \<^verbatim>\<open>internal/simulator\<close> once more, on slice headers and backing arrays, with
    append and removal in place.
  \<^item> \<open>Updater\<close> and \<open>Helper\<close> (\<^verbatim>\<open>internal/updater\<close>): the release check, download, verification and
    hand-off; the detached process that stops, swaps, starts, checks and rolls back. \<open>Rollout\<close> runs the
    two processes one after the other, with the document between them; \<open>Platform\<close> has the files that
    differ between builds (free space, the switch of the API address).
  \<^item> \<open>ShellText\<close> and \<open>Shell\<close> (\<^verbatim>\<open>internal/sshsim\<close>): the answers of the command line, and command
    matching, the line editor, the copy dialogs, exec requests, SCP and SFTP.
  \<^item> \<open>Connection\<close> (\<^verbatim>\<open>Serve\<close> and \<^verbatim>\<open>handleConnection\<close> there): the password check, the channels of a
    connection, and what the events of its sessions do to the access log and the TFTP manager.
  \<^item> \<open>Restconf\<close> (\<^verbatim>\<open>internal/restconf\<close>): the operational data of each endpoint as a tree, its XML
    form, authentication and logging. A small XML reader serves as the specification.
  \<^item> \<open>Snmp\<close> (\<^verbatim>\<open>internal/snmp\<close>): the table of objects.
  \<^item> \<open>Tftp\<close> (\<^verbatim>\<open>internal/tftpsim\<close>): servers on demand, as interleaved lock regions with a clock;
    \<open>TftpSites\<close> adds the device object that each server was started with.
  \<^item> \<open>Dashboard\<close> (\<^verbatim>\<open>internal/dashboard\<close>): the HTTP API as functions from a request and the
    state of simulator, updater and log to a response writer and the new state; the live log stream.
  \<^item> \<open>Boot\<close> (\<^verbatim>\<open>cmd/wlcsim\<close>): one start of the program, and the address clean-up when it ends.
  \<^item> \<open>Console\<close> (\<^verbatim>\<open>cmd/wlcsim-console\<close>): the appliance's text screen, what it fetches, and its keys.
  \<^item> \<open>Mock\<close> (\<^verbatim>\<open>hack/mockrelease\<close>): the stand-in release server, and the updater run against it.

  State and effects. A Go struct is a record with the fields' names behind a short prefix, a map
  that is iterated is an association list whose order of iteration is an argument, a mutex region is one
  function, an error result is the left side of a sum or an option, and a panic is a
  value. Time is an argument in seconds. Machine words are kept where the code depends on the
  width (addresses, hashes, SNMP counters, SSH lengths); Go ints are mathematical integers otherwise.

  What the lemmas show. \<open>Simulator\<close>: an invariant of all reachable states (one server group per site, no leaks,
  default access points present), functional specifications of the operations as changes of a map from
  access points to clients, persistence of every successful change, and the two interleavings and the
  duplicate import that break it. \<open>Listeners\<close>: sites never compete for a socket, and all of them answer once their
  servers had a turn, except a site that is added at an address while its removal is under way. \<open>Slices\<close>: on
  backing arrays the operations are the list operations of \<open>Simulator\<close> and sites do not share memory, but the
  copies handed out to readers change under them. \<open>Boot\<close> ties that to the process: a start reaches such a state, and a
  restart returns what was saved, unless an older save came later. \<open>Dashboard\<close> shows that the API carries out exactly these
  requests. \<open>Updater\<close>, \<open>Helper\<close> and \<open>Mock\<close>: nothing unverified is installed, at every fault a binary
  survives, the reported outcome is the real one, and a well-formed release does install; \<open>Rollout\<close> joins these
  from the first download to what the restarted program shows. \<open>Platform\<close>: the space check is exact
  within 64 bits. \<open>Restconf\<close>:
  the XML answer reads back to the tree that the JSON answer carries, for every order of the maps, provided
  the strings are free of markup, and does not when an SSID has an ampersand. \<open>Tftp\<close>: one
  server per controller while starts do not overlap, and under weak fairness an idle one stops;
  \<open>TftpSites\<close>: which site's configuration an address serves after its site was replaced.
  \<open>AccessLog\<close>: the history is the newest part of what was added, and a subscriber gets a queue of at
  most 64 entries. \<open>Shell\<close>: typed bytes are refined to edited lines, and SCP returns the configuration.
  \<open>Connection\<close>: what is executed over SSH is what the log says, under the user that logged in.

  Bounds. No definition uses fuel but \<open>Console.swap_ends_loop\<close>, which is given the length of the list, twice the turns
  it needs (\<open>swap_ends_loop_rev\<close>). The other loops that are not structurally recursive (the XML reader, the
  line editor, the splitting of fields, the helper's polling until a deadline) have termination
  proofs, the last because every poll takes time. Limits of the code (download sizes, buffer and log
  capacities, timeouts) appear with their values. Liveness of \<open>Tftp\<close> is stated over infinite runs.

  Parameters. YAML and JSON codecs, the template engine, HTTP, SHA-256, DNS and ARP
  exchanges, service commands and the terminal are arguments of the definitions. What
  is assumed of them is written as a hypothesis where it is needed (the YAML codec reads back what it
  wrote, the orders of iteration are permutations), with concrete instances in the witnesses.

  Not modelled. Key generation, TLS and SSH handshakes and raw ARP frames: library and system calls without
  decisions of the program (the certificate's contents, the socket options and the ARP packets are modelled). The
  library servers behind HTTPS, SFTP, SNMP and TFTP: only the handlers the program gives them. The runtime figures of the
  dashboard, its embedded page, the unused function \<^verbatim>\<open>writeXMLValue\<close> of \<open>restconf\<close>, the unit tests
  and the scripts that build the appliance. An open SSH session of a removed site goes on until its client
  ends it; sessions are modelled, but not together with the removal. Of
  the Go memory model, only interleavings of whole lock regions are considered.
\<close>

end
